(* ===== verification/Ndt_Prelude.thy ===== *)
theory Ndt_Prelude
  imports Main "HOL-Library.Word" "HOL-Library.Multiset"
begin

text \<open>
  Shared vocabulary of the development: the C integer types at their width, the
  faults a C program can run into (a failed \<open>assert\<close>, an access outside an array,
  a NULL dereference), the sum-typed sequencing of fallible steps, the Linux error
  numbers, and the bit-level and list lemmas every component uses.
\<close>

unbundle bit_operations_syntax

section \<open>C integer types\<close>

text \<open>
  \<open>unsigned int\<close>, \<open>__u8\<close>, \<open>__u16\<close>, \<open>__u64\<close> are words. A C \<open>int\<close> whose bits matter
  (a completion result) is a 32-bit word read with \<open>sint\<close>; a C \<open>int\<close> that only ever
  holds a small return code is an \<open>int\<close>.
\<close>

type_synonym u8 = "8 word"
type_synonym u16 = "16 word"
type_synonym u32 = "32 word"
type_synonym s32 = "32 word"
type_synonym u64 = "64 word"

section \<open>Faults and sequencing\<close>

datatype fault = Assert_Failed | Out_Of_Bounds | Null_Deref | Div_By_Zero | Uninitialised | Bad_Shift | Stack_Overflow

text \<open>\<open>seq m f\<close> runs \<open>m\<close> and passes its value to \<open>f\<close>; the first fault stops the run.\<close>

definition seq :: "'e + 'a \<Rightarrow> ('a \<Rightarrow> 'e + 'b) \<Rightarrow> 'e + 'b" where
  "seq m f = (case m of Inl e \<Rightarrow> Inl e | Inr x \<Rightarrow> f x)"

lemma seq_simps [simp]:
  "seq (Inl e) f = Inl e"
  "seq (Inr x) f = f x"
  by (simp_all add: seq_def)

lemma seq_InrE:
  assumes "seq m f = Inr y"
  obtains x where "m = Inr x" and "f x = Inr y"
  using assms by (cases m) simp_all

lemma seq_assoc: "seq (seq m f) g = seq m (\<lambda>x. seq (f x) g)"
  by (cases m) simp_all

section \<open>Error numbers\<close>

text \<open>The \<open>errno.h\<close> values of Linux that the sources return or compare with.\<close>

definition EBADF :: int where "EBADF = 9"
definition EAGAIN :: int where "EAGAIN = 11"
definition ENOMEM :: int where "ENOMEM = 12"
definition EFAULT :: int where "EFAULT = 14"
definition EBUSY :: int where "EBUSY = 16"
definition ENODEV :: int where "ENODEV = 19"
definition EINVAL :: int where "EINVAL = 22"
definition EROFS :: int where "EROFS = 30"
definition ENOTEMPTY :: int where "ENOTEMPTY = 39"
definition ETIME :: int where "ETIME = 62"
definition ENOTSUP :: int where "ENOTSUP = 95"

named_theorems errno_defs "values of the error numbers"

lemmas [errno_defs] = EBADF_def EAGAIN_def ENOMEM_def EFAULT_def EBUSY_def ENODEV_def
  EINVAL_def EROFS_def ENOTEMPTY_def ETIME_def ENOTSUP_def

section \<open>Words\<close>

lemma bit_ucast_iff_less:
  "bit (ucast (w :: 'a::len word) :: 'b::len word) n \<longleftrightarrow> n < LENGTH('b) \<and> bit w n"
  by (simp add: bit_ucast_iff)

lemma drop_bit_zero_bitD:
  fixes w :: "'a::len word"
  assumes "drop_bit k w = 0" and "bit w n"
  shows "n < k"
proof (rule ccontr)
  assume "\<not> n < k"
  then have "bit (drop_bit k w) (n - k) \<longleftrightarrow> bit w n"
    by (simp add: bit_drop_bit_eq)
  then show False using assms by simp
qed

lemma drop_bit_eq_zero_iff_less:
  fixes w :: "'a::len word"
  shows "drop_bit k w = 0 \<longleftrightarrow> unat w < 2 ^ k"
proof -
  have "drop_bit k w = 0 \<longleftrightarrow> unat (drop_bit k w) = 0"
    by (simp only: unat_eq_zero)
  also have "\<dots> \<longleftrightarrow> unat w div 2 ^ k = 0"
    by (simp only: unat_drop_bit_eq) (simp only: drop_bit_eq_div)
  also have "\<dots> \<longleftrightarrow> unat w < 2 ^ k"
    by (simp add: div_eq_0_iff)
  finally show ?thesis .
qed

lemma unat_of_nat_small:
  "n < 2 ^ LENGTH('a::len) \<Longrightarrow> unat (word_of_nat n :: 'a word) = n"
  by (simp add: unsigned_of_nat take_bit_nat_eq_self)

lemma unat_plus_1:
  fixes w :: "'a::len word"
  assumes "unat w + 1 < 2 ^ LENGTH('a)"
  shows "unat (w + 1) = unat w + 1"
proof -
  have "unat (w + 1) = (unat w + unat (1 :: 'a word)) mod 2 ^ LENGTH('a)"
    by (rule unat_word_ariths(1))
  then show ?thesis using assms by simp
qed

lemma unat_minus_1:
  fixes w :: "'a::len word"
  assumes "0 < unat w"
  shows "unat (w - 1) = unat w - 1"
  using assms by (intro unat_minus_one) auto

text \<open>A 32-bit value with a clear top bit is not negative when it is read as signed.\<close>

lemma sint_u32_small:
  fixes w :: u32
  assumes "unat w < 2 ^ 31"
  shows "sint w = int (unat w)"
proof -
  have "signed_take_bit 31 (int k) = int k" if "k < 2 ^ 31" for k :: nat
    using that by (intro signed_take_bit_int_eq_self) simp_all
  from this [OF assms] have "signed_take_bit 31 (int (unat w)) = int (unat w)" .
  moreover have "sint w = signed_take_bit 31 (int (unat w))" by (simp add: sint_uint)
  ultimately show ?thesis by (simp only:)
qed

lemma sint_u64_small:
  fixes w :: u64
  assumes "unat w < 2 ^ 63"
  shows "sint w = int (unat w)"
proof -
  have "signed_take_bit 63 (int k) = int k" if "k < 2 ^ 63" for k :: nat
    using that by (intro signed_take_bit_int_eq_self) simp_all
  from this [OF assms] have "signed_take_bit 63 (int (unat w)) = int (unat w)" .
  moreover have "sint w = signed_take_bit 63 (int (unat w))" by (simp add: sint_uint)
  ultimately show ?thesis by (simp only:)
qed

text \<open>An integer stored in a C \<open>int\<close> keeps its value when it fits.\<close>

lemma sint_of_int_s32:
  assumes "0 \<le> k" and "k < 2 ^ 31"
  shows "sint (word_of_int k :: s32) = k"
proof -
  obtain n where n: "k = int n" using assms(1) by (rule nonneg_int_cases)
  have "unat (word_of_nat n :: s32) = n" using assms(2) unfolding n by (intro unat_of_nat_small) simp
  then show ?thesis using sint_u32_small [of "word_of_nat n"] assms(2) by (simp add: n)
qed

text \<open>What a C \<open>int\<close> holds after it was assigned a mathematical value.\<close>

definition as_int :: "int \<Rightarrow> int" where
  "as_int k = sint (word_of_int k :: s32)"

lemma as_int_small: "0 \<le> k \<Longrightarrow> k < 2 ^ 31 \<Longrightarrow> as_int k = k"
  unfolding as_int_def by (rule sint_of_int_s32)

lemma unat_scast_u32_small:
  fixes w :: u32
  assumes "unat w < 2 ^ 31"
  shows "unat (scast w :: u64) = unat w"
proof -
  have "(scast w :: u64) = word_of_int (sint w)" by simp
  also have "\<dots> = word_of_nat (unat w)" unfolding sint_u32_small [OF assms] by (rule of_int_of_nat_eq)
  finally have "unat (scast w :: u64) = unat (word_of_nat (unat w) :: u64)" by (simp only:)
  also have "\<dots> = unat w" by (rule unat_of_nat_small) (use assms in simp)
  finally show ?thesis .
qed

text \<open>A sector count below \<open>2 ^ 22\<close> becomes a positive byte count in 32 bits.\<close>

lemma sint_sectors_to_bytes:
  fixes nr :: u32
  assumes "unat nr < 2 ^ 22"
  shows "sint (512 * nr) = 512 * int (unat nr)"
proof -
  have u: "unat (512 * nr) = 512 * unat nr"
    using assms by (simp add: unat_word_ariths)
  have "sint (512 * nr) = int (unat (512 * nr))"
    using assms by (intro sint_u32_small) (simp add: u)
  then show ?thesis by (simp add: u)
qed

text \<open>Clearing the low \<open>k\<close> bits rounds down to a multiple of \<open>2 ^ k\<close>.\<close>

lemma unat_and_not_mask: "unat (w AND NOT (mask k)) = unat w div 2 ^ k * 2 ^ k"
  for w :: "'a::len word"
proof -
  have split: "w AND NOT (mask k) = push_bit k (drop_bit k w)"
    by (rule bit_word_eqI) (auto simp: bit_simps)
  have "unat w div 2 ^ k * 2 ^ k \<le> unat w" by simp
  also have "unat w < 2 ^ LENGTH('a)" by (rule unsigned_less)
  finally have lt: "unat w div 2 ^ k * 2 ^ k < 2 ^ LENGTH('a)" .
  have "unat (push_bit k (drop_bit k w)) = take_bit LENGTH('a) (push_bit k (drop_bit k (unat w)))"
    by (simp only: unsigned_push_bit_eq unat_drop_bit_eq)
  also have "\<dots> = unat w div 2 ^ k * 2 ^ k"
    using lt by (simp add: push_bit_eq_mult drop_bit_eq_div take_bit_nat_eq_self)
  finally show ?thesis by (simp only: split)
qed

lemma unat_exp_minus_1: "k < LENGTH('a) \<Longrightarrow> unat ((2 :: 'a::len word) ^ k - 1) = 2 ^ k - 1"
proof -
  assume k: "k < LENGTH('a)"
  then have "(2 :: nat) ^ k < 2 ^ LENGTH('a)" by simp
  then have "unat (word_of_nat (2 ^ k) :: 'a word) = 2 ^ k" by (rule unat_of_nat_small)
  moreover have "(word_of_nat (2 ^ k) :: 'a word) = 2 ^ k" by simp
  ultimately have "unat ((2 :: 'a word) ^ k) = 2 ^ k" by (simp only:)
  then show ?thesis by (simp add: unat_minus_1)
qed

section \<open>Lists updated by index\<close>

lemma nth_list_update_cases:
  "j < length xs \<Longrightarrow> xs[i := v] ! j = (if i = j then v else xs ! j)"
  by (simp add: nth_list_update)

end
