(* ===== verification/Ublk_Abi.thy ===== *)
theory Ublk_Abi
  imports Ndt_Prelude
begin

text \<open>
  The 64-bit \<open>user_data\<close> cookie that \<open>miniublk.c\<close> attaches to every submission, and
  the constants of \<open>linux/ublk_cmd.h\<close>, which the repository does not contain: they are
  the fields of a record \<open>abi\<close> that every definition takes as a parameter, with the
  documented facts about them in \<open>abi_ok\<close>.
\<close>

section \<open>The constants of the ublk interface\<close>

record abi =
  abi_fetch_req :: u32            \<comment> \<open>\<open>UBLK_IO_FETCH_REQ\<close>\<close>
  abi_commit_and_fetch_req :: u32 \<comment> \<open>\<open>UBLK_IO_COMMIT_AND_FETCH_REQ\<close>\<close>
  abi_res_ok :: s32               \<comment> \<open>\<open>UBLK_IO_RES_OK\<close>\<close>
  abi_res_abort :: s32            \<comment> \<open>\<open>UBLK_IO_RES_ABORT\<close>\<close>
  abi_op_read :: u32
  abi_op_write :: u32
  abi_op_flush :: u32
  abi_op_discard :: u32
  abi_op_write_zeroes :: u32
  abi_get_op :: "u32 \<Rightarrow> u32"      \<comment> \<open>\<open>ublksrv_get_op\<close> on the \<open>op_flags\<close> of a descriptor\<close>
  abi_fsync_datasync :: u32       \<comment> \<open>\<open>IORING_FSYNC_DATASYNC\<close>\<close>
  abi_iod_size :: nat             \<comment> \<open>\<open>sizeof(struct ublksrv_io_desc)\<close>\<close>
  abi_max_queue_depth :: nat      \<comment> \<open>\<open>UBLK_MAX_QUEUE_DEPTH\<close>\<close>
  abi_cmd_buf_offset :: nat       \<comment> \<open>\<open>UBLKSRV_CMD_BUF_OFFSET\<close>\<close>

text \<open>
  What the program relies on: the two command opcodes are different and, like the
  request operations, fit the 8 bits \<open>build_user_data\<close> has for them; success and abort
  are different results; the request operations are different.
\<close>

definition abi_ok :: "abi \<Rightarrow> bool" where
  "abi_ok A \<longleftrightarrow>
     unat (abi_fetch_req A) < 256 \<and> unat (abi_commit_and_fetch_req A) < 256 \<and>
     abi_fetch_req A \<noteq> abi_commit_and_fetch_req A \<and>
     abi_res_ok A \<noteq> abi_res_abort A \<and>
     (\<forall>w. unat (abi_get_op A w) < 256) \<and>
     distinct [abi_op_read A, abi_op_write A, abi_op_flush A, abi_op_discard A,
               abi_op_write_zeroes A]"

text \<open>The values of the Linux header, with which the hypotheses can be met.\<close>

definition linux_abi :: abi where
  "linux_abi = \<lparr>abi_fetch_req = 0x20, abi_commit_and_fetch_req = 0x21, abi_res_ok = 0,
     abi_res_abort = word_of_int (- ENODEV), abi_op_read = 0, abi_op_write = 1,
     abi_op_flush = 2, abi_op_discard = 3, abi_op_write_zeroes = 5,
     abi_get_op = (\<lambda>w. w AND 0xff), abi_fsync_datasync = 1, abi_iod_size = 24, abi_max_queue_depth = 4096,
     abi_cmd_buf_offset = 0\<rparr>"

lemma abi_ok_linux [simp]: "abi_ok linux_abi"
proof -
  have "unat (w AND 0xff) < 256" for w :: u32
  proof -
    have "w AND 0xff \<le> 0xff" by (rule word_and_le1)
    then show ?thesis by (simp add: word_le_nat_alt)
  qed
  then show ?thesis by (simp add: abi_ok_def linux_abi_def ENODEV_def)
qed

section \<open>The submission cookie\<close>

definition is_target_io :: "u64 \<Rightarrow> bool" where
  "is_target_io user_data \<longleftrightarrow> user_data AND push_bit 63 1 \<noteq> 0"

definition build_user_data :: "u32 \<Rightarrow> u32 \<Rightarrow> u32 \<Rightarrow> u32 \<Rightarrow> fault + u64" where
  "build_user_data tag op tgt_data is_tgt =
     (if drop_bit 16 tag = 0 \<and> drop_bit 8 op = 0 \<and> drop_bit 16 tgt_data = 0
      then Inr (ucast (tag OR push_bit 16 op OR push_bit 24 tgt_data)
                OR push_bit 63 (ucast is_tgt))
      else Inl Assert_Failed)"

definition user_data_to_tag :: "u64 \<Rightarrow> u32" where
  "user_data_to_tag user_data = ucast (user_data AND 0xffff)"

definition user_data_to_op :: "u64 \<Rightarrow> u32" where
  "user_data_to_op user_data = ucast (drop_bit 16 user_data AND 0xff)"

text \<open>Bits of a cookie, from which the three accessors follow.\<close>

lemma build_user_data_bit:
  assumes "build_user_data tag op tgt_data is_tgt = Inr ud"
  shows "bit ud n \<longleftrightarrow>
    (n < 32 \<and> (bit tag n \<or> (16 \<le> n \<and> bit op (n - 16)) \<or> (24 \<le> n \<and> bit tgt_data (n - 24))))
    \<or> (n = 63 \<and> bit is_tgt 0)"
proof -
  have ud: "ud = ucast (tag OR push_bit 16 op OR push_bit 24 tgt_data) OR push_bit 63 (ucast is_tgt)"
    using assms by (simp add: build_user_data_def split: if_splits)
  have "bit (push_bit 63 (ucast is_tgt) :: u64) n \<longleftrightarrow> n = 63 \<and> bit is_tgt 0"
    by (auto simp: bit_push_bit_iff bit_ucast_iff)
  then show ?thesis
    by (auto simp: ud bit_or_iff bit_ucast_iff bit_push_bit_iff dest: bit_imp_le_length)
qed

lemma build_user_data_guard:
  assumes "build_user_data tag op tgt_data is_tgt = Inr ud"
  shows "drop_bit 16 tag = 0" and "drop_bit 8 op = 0" and "drop_bit 16 tgt_data = 0"
  using assms by (auto simp: build_user_data_def split: if_splits)

lemma user_data_to_tag_bit: "bit (user_data_to_tag ud) n \<longleftrightarrow> n < 16 \<and> bit ud n"
proof -
  have m: "(0xffff :: u64) = mask 16" by (simp add: mask_eq_exp_minus_1)
  show ?thesis
    unfolding user_data_to_tag_def m bit_ucast_iff bit_and_iff bit_mask_iff by auto
qed

lemma user_data_to_op_bit: "bit (user_data_to_op ud) n \<longleftrightarrow> n < 8 \<and> bit ud (n + 16)"
proof -
  have m: "(0xff :: u64) = mask 8" by (simp add: mask_eq_exp_minus_1)
  show ?thesis
    unfolding user_data_to_op_def m bit_ucast_iff bit_and_iff bit_mask_iff bit_drop_bit_eq
    by (auto simp: add.commute)
qed

lemma is_target_io_bit: "is_target_io ud \<longleftrightarrow> bit ud 63"
  unfolding is_target_io_def push_bit_of_1 and_exp_eq_0_iff_not_bit by simp

lemma user_data_to_tag_build:
  assumes "build_user_data tag op tgt_data is_tgt = Inr ud"
  shows "user_data_to_tag ud = tag"
proof (rule bit_word_eqI)
  fix n
  have "bit tag n \<Longrightarrow> n < 16"
    using build_user_data_guard(1) [OF assms] by (rule drop_bit_zero_bitD)
  then show "bit (user_data_to_tag ud) n \<longleftrightarrow> bit tag n"
    by (auto simp: user_data_to_tag_bit build_user_data_bit [OF assms])
qed

lemma user_data_to_op_build:
  assumes "build_user_data tag op tgt_data is_tgt = Inr ud"
  shows "user_data_to_op ud = op"
proof (rule bit_word_eqI)
  fix n
  have "bit tag (n + 16) \<Longrightarrow> n + 16 < 16"
    using build_user_data_guard(1) [OF assms] by (rule drop_bit_zero_bitD)
  moreover have "bit op n \<Longrightarrow> n < 8"
    using build_user_data_guard(2) [OF assms] by (rule drop_bit_zero_bitD)
  ultimately show "bit (user_data_to_op ud) n \<longleftrightarrow> bit op n"
    by (auto simp: user_data_to_op_bit build_user_data_bit [OF assms])
qed

lemma is_target_io_build:
  assumes "build_user_data tag op tgt_data is_tgt = Inr ud"
  shows "is_target_io ud \<longleftrightarrow> bit is_tgt 0"
  by (simp add: is_target_io_bit build_user_data_bit [OF assms])

lemma build_user_data_Inr_iff:
  "(\<exists>ud. build_user_data tag op tgt_data is_tgt = Inr ud) \<longleftrightarrow>
     unat tag < 2 ^ 16 \<and> unat op < 2 ^ 8 \<and> unat tgt_data < 2 ^ 16"
  by (auto simp: build_user_data_def drop_bit_eq_zero_iff_less)

lemma unat_user_data_to_tag: "unat (user_data_to_tag ud) < 65536"
proof -
  have "drop_bit 16 (user_data_to_tag ud) = 0"
    by (rule bit_word_eqI) (simp add: bit_drop_bit_eq user_data_to_tag_bit)
  then show ?thesis by (simp add: drop_bit_eq_zero_iff_less)
qed

end
