(* ===== verification/Uring.thy ===== *)
theory Uring
  imports Ndt_Prelude
begin

text \<open>
  The submission side of an io_uring instance, as the programs use it through liburing.
  liburing and the kernel are not part of the repository, so the ring is an opaque state
  \<open>'r\<close> and its operations are the fields of a record \<open>'r uring\<close>, a parameter of every
  definition that submits; \<open>uring_ok\<close> states what liburing documents. Only the entry
  format, which the program fills in field by field, is modelled.
\<close>

section \<open>Submission and completion entries\<close>

text \<open>The operation an entry was prepared for (\<open>IORING_OP_*\<close>).\<close>

datatype uring_op = Op_Uring_Cmd | Op_Read | Op_Write | Op_Sync_File_Range

text \<open>\<open>struct ublksrv_io_cmd\<close>, the payload that the program stores at \<open>addr3\<close>.\<close>

record io_cmd =
  cmd_q_id :: u16
  cmd_tag :: u16
  cmd_result :: s32
  cmd_addr :: u64

text \<open>\<open>struct io_uring_sqe\<close>: the fields the program writes.\<close>

record sqe =
  sqe_opcode :: uring_op
  sqe_fd :: int
  sqe_fixed_file :: bool   \<comment> \<open>\<open>IOSQE_FIXED_FILE\<close> in \<open>flags\<close>\<close>
  sqe_rw_flags :: u32
  sqe_addr :: u64
  sqe_len :: u32
  sqe_off :: u64           \<comment> \<open>file offset, or the command opcode\<close>
  sqe_cmd :: io_cmd
  sqe_user_data :: u64

text \<open>\<open>struct io_uring_cqe\<close>.\<close>

record cqe =
  cqe_user_data :: u64
  cqe_res :: s32

section \<open>Setting up a ring\<close>

text \<open>
  What a program asks \<open>io_uring_queue_init_params\<close> for: the entries of the submission queue, the flags
  and the entries of the completion queue. The function \<open>ublk_setup_ring\<close> of \<open>miniublk.c\<close> fills them in.
\<close>

record ring_setup =
  rs_entries :: u32
  rs_flags :: u32
  rs_cq_entries :: u32

definition IORING_SETUP_CQSIZE :: u32 where "IORING_SETUP_CQSIZE = 2 ^ 3"
definition IORING_SETUP_COOP_TASKRUN :: u32 where "IORING_SETUP_COOP_TASKRUN = 2 ^ 8"
definition IORING_SETUP_SQE128 :: u32 where "IORING_SETUP_SQE128 = 2 ^ 10"

definition ublk_setup_ring :: "u32 \<Rightarrow> u32 \<Rightarrow> u32 \<Rightarrow> ring_setup" where
  "ublk_setup_ring depth cq_depth flags =
     \<lparr>rs_entries = depth, rs_flags = flags OR IORING_SETUP_CQSIZE, rs_cq_entries = cq_depth\<rparr>"

section \<open>The ring operations\<close>

text \<open>
  \<open>get_sqe\<close> is \<open>io_uring_get_sqe\<close> (\<open>None\<close> for NULL), \<open>upd_sqe\<close> a store through the
  pointer it returned last, \<open>sq_ready\<close> is \<open>io_uring_sq_ready\<close>, and \<open>consume k\<close> the effect
  of a submission in which the kernel takes \<open>k\<close> entries. \<open>prep_rw op fd addr len off\<close> stands
  for \<open>io_uring_prep_read\<close>, \<open>io_uring_prep_write\<close> and \<open>io_uring_prep_sync_file_range\<close>. \<open>sq_view\<close> is the content of the
  submission queue between head and tail, the memory the kernel reads; no operation of
  the program calls it.
\<close>

record 'r uring =
  get_sqe :: "'r \<Rightarrow> 'r option"
  upd_sqe :: "(sqe \<Rightarrow> sqe) \<Rightarrow> 'r \<Rightarrow> 'r"
  sq_ready :: "'r \<Rightarrow> nat"
  consume :: "nat \<Rightarrow> 'r \<Rightarrow> 'r"
  prep_rw :: "uring_op \<Rightarrow> int \<Rightarrow> u64 \<Rightarrow> u32 \<Rightarrow> u64 \<Rightarrow> sqe \<Rightarrow> sqe"
  sq_view :: "'r \<Rightarrow> sqe list"

text \<open>
  A ring initialised for \<open>n\<close> entries holds at least \<open>n\<close>; a fresh entry is appended with
  whatever the slot held before, and a store changes only the fresh entry.
\<close>

definition uring_ok :: "'r uring \<Rightarrow> nat \<Rightarrow> bool" where
  "uring_ok U n \<longleftrightarrow>
     (\<forall>r. get_sqe U r = None \<longrightarrow> n \<le> length (sq_view U r)) \<and>
     (\<forall>r r'. get_sqe U r = Some r' \<longrightarrow> (\<exists>s. sq_view U r' = sq_view U r @ [s])) \<and>
     (\<forall>f r xs s. sq_view U r = xs @ [s] \<longrightarrow> sq_view U (upd_sqe U f r) = xs @ [f s]) \<and>
     (\<forall>r. sq_ready U r = length (sq_view U r)) \<and>
     (\<forall>k r. sq_view U (consume U k r) = drop k (sq_view U r)) \<and>
     (\<forall>op fd addr len off s. let s' = prep_rw U op fd addr len off s in
        sqe_opcode s' = op \<and> sqe_fd s' = fd \<and> sqe_addr s' = addr \<and> sqe_len s' = len \<and> sqe_off s' = off)"

lemma uring_prep:
  assumes "uring_ok U n"
  shows "sqe_opcode (prep_rw U op fd addr len off s) = op"
    and "sqe_fd (prep_rw U op fd addr len off s) = fd"
    and "sqe_addr (prep_rw U op fd addr len off s) = addr"
    and "sqe_len (prep_rw U op fd addr len off s) = len"
    and "sqe_off (prep_rw U op fd addr len off s) = off"
  using assms unfolding uring_ok_def Let_def by blast+

lemma uring_get_None: "uring_ok U n \<Longrightarrow> get_sqe U r = None \<Longrightarrow> n \<le> length (sq_view U r)"
  unfolding uring_ok_def by blast

lemma uring_get_Some:
  assumes "uring_ok U n" and "get_sqe U r = Some r'"
  obtains s where "sq_view U r' = sq_view U r @ [s]"
  using assms unfolding uring_ok_def by blast

lemma uring_upd: "uring_ok U n \<Longrightarrow> sq_view U r = xs @ [s] \<Longrightarrow> sq_view U (upd_sqe U f r) = xs @ [f s]"
  unfolding uring_ok_def by blast

lemma uring_ready: "uring_ok U n \<Longrightarrow> sq_ready U r = length (sq_view U r)"
  unfolding uring_ok_def by blast

lemma uring_consume: "uring_ok U n \<Longrightarrow> sq_view U (consume U k r) = drop k (sq_view U r)"
  unfolding uring_ok_def by blast

section \<open>A concrete ring\<close>

text \<open>
  The hypotheses can be met: a ring of \<open>n\<close> slots whose used slots come back, with their old
  content, in the order of consumption (the ring buffer shared with the kernel). The first
  component is the submission queue, the second the free slots.
\<close>

definition blank_sqe :: sqe where
  "blank_sqe = \<lparr>sqe_opcode = Op_Uring_Cmd, sqe_fd = 0, sqe_fixed_file = False, sqe_rw_flags = 0,
     sqe_addr = 0, sqe_len = 0, sqe_off = 0,
     sqe_cmd = \<lparr>cmd_q_id = 0, cmd_tag = 0, cmd_result = 0, cmd_addr = 0\<rparr>, sqe_user_data = 0\<rparr>"

fun slot_get :: "nat \<Rightarrow> sqe list \<times> sqe list \<Rightarrow> (sqe list \<times> sqe list) option" where
  "slot_get n (p, free) =
     (if length p < n then Some (p @ [case free of [] \<Rightarrow> blank_sqe | s # _ \<Rightarrow> s], tl free) else None)"

fun slot_upd :: "(sqe \<Rightarrow> sqe) \<Rightarrow> sqe list \<times> sqe list \<Rightarrow> sqe list \<times> sqe list" where
  "slot_upd f (p, free) = (butlast p @ map f (drop (length p - 1) p), free)"

fun slot_consume :: "nat \<Rightarrow> sqe list \<times> sqe list \<Rightarrow> sqe list \<times> sqe list" where
  "slot_consume k (p, free) = (drop k p, free @ take k p)"

definition slot_uring :: "nat \<Rightarrow> (sqe list \<times> sqe list) uring" where
  "slot_uring n = \<lparr>get_sqe = slot_get n, upd_sqe = slot_upd, sq_ready = length \<circ> fst,
     consume = slot_consume,
     prep_rw = (\<lambda>op fd addr len off s. s\<lparr>sqe_opcode := op, sqe_fixed_file := False, sqe_rw_flags := 0,
       sqe_fd := fd, sqe_addr := addr, sqe_len := len, sqe_off := off\<rparr>),
     sq_view = fst\<rparr>"

lemma slot_uring_simps [simp]:
  "get_sqe (slot_uring n) = slot_get n"
  "upd_sqe (slot_uring n) = slot_upd"
  "sq_ready (slot_uring n) r = length (fst r)"
  "consume (slot_uring n) = slot_consume"
  "prep_rw (slot_uring n) op fd addr len off s = s\<lparr>sqe_opcode := op, sqe_fixed_file := False,
     sqe_rw_flags := 0, sqe_fd := fd, sqe_addr := addr, sqe_len := len, sqe_off := off\<rparr>"
  "sq_view (slot_uring n) = fst"
  by (simp_all add: slot_uring_def)

lemma uring_ok_slot [simp]: "uring_ok (slot_uring n) n"
  by (auto simp: uring_ok_def Let_def split: if_splits)

end
