(* ===== verification/Ublk_Queue.thy ===== *)
theory Ublk_Queue
  imports Ublk_Abi Uring
begin

text \<open>
  The per-queue state of \<open>miniublk.c\<close> (\<open>struct ublk_io\<close>, \<open>struct ublk_queue\<close>) and the
  operations on it that do not depend on the target: issuing a command for a tag
  (\<open>ublk_queue_io_cmd\<close>), completing a request (\<open>ublk_complete_io\<close>), the initial fetch of
  every tag, and the idle bookkeeping. The ownership invariant \<open>queue_inv\<close> says that every
  tag is at any time in exactly one place, and the lemmas show that each operation keeps it.
\<close>

section \<open>Constants\<close>

definition UBLK_MAX_QUEUES :: nat where "UBLK_MAX_QUEUES = 4"
definition UBLK_QUEUE_DEPTH :: nat where "UBLK_QUEUE_DEPTH = 128"
definition UBLK_IO_MAX_BYTES :: u32 where "UBLK_IO_MAX_BYTES = 65536"
definition UBLKSRV_IO_IDLE_SECS :: nat where "UBLKSRV_IO_IDLE_SECS = 20"

definition UBLKSRV_NEED_FETCH_RQ :: u32 where "UBLKSRV_NEED_FETCH_RQ = push_bit 0 1"
definition UBLKSRV_NEED_COMMIT_RQ_COMP :: u32 where "UBLKSRV_NEED_COMMIT_RQ_COMP = push_bit 1 1"
definition UBLKSRV_IO_FREE :: u32 where "UBLKSRV_IO_FREE = push_bit 2 1"

definition UBLKSRV_QUEUE_STOPPING :: u32 where "UBLKSRV_QUEUE_STOPPING = push_bit 0 1"
definition UBLKSRV_QUEUE_IDLE :: u32 where "UBLKSRV_QUEUE_IDLE = push_bit 1 1"

named_theorems ublk_flags "the flag words as numerals"

lemma io_flag_values [ublk_flags]:
  "UBLKSRV_NEED_FETCH_RQ = 1" "UBLKSRV_NEED_COMMIT_RQ_COMP = 2" "UBLKSRV_IO_FREE = 4"
  by (simp_all add: UBLKSRV_NEED_FETCH_RQ_def UBLKSRV_NEED_COMMIT_RQ_COMP_def UBLKSRV_IO_FREE_def)

lemma queue_flag_values [ublk_flags]:
  "UBLKSRV_QUEUE_STOPPING = 1" "UBLKSRV_QUEUE_IDLE = 2"
  by (simp_all add: UBLKSRV_QUEUE_STOPPING_def UBLKSRV_QUEUE_IDLE_def)

section \<open>State\<close>

text \<open>\<open>struct ublk_io\<close>; a NULL buffer address is 0.\<close>

record ublk_io =
  buf_addr :: u64
  io_flags :: u32
  io_result :: u32

text \<open>
  \<open>struct ublk_queue\<close>. \<open>q_depth\<close> is set from a 16-bit field and \<open>q_id\<close> counts from 0, so
  both are natural numbers; \<open>ios\<close> is the array of \<open>UBLK_QUEUE_DEPTH\<close> elements, the counters
  are unsigned and wrap. The back pointer to the device, the thread handles and the target
  operations are arguments of the functions that use them.
\<close>

record 'r ublk_queue =
  q_id :: nat
  q_depth :: nat
  cmd_inflight :: u32
  io_inflight :: u32
  io_cmd_buf :: u64
  ring :: 'r
  ring_fd :: int
  ios :: "ublk_io list"
  q_state :: u32

text \<open>An update of one element of \<open>ios\<close>; an index outside the array is a fault.\<close>

definition with_io :: "nat \<Rightarrow> (ublk_io \<Rightarrow> ublk_io) \<Rightarrow> 'r ublk_queue \<Rightarrow> fault + 'r ublk_queue" where
  "with_io tag f q =
     (if tag < length (ios q) then Inr (q\<lparr>ios := (ios q)[tag := f (ios q ! tag)]\<rparr>)
      else Inl Out_Of_Bounds)"

section \<open>Operations\<close>

definition ublk_mark_io_done :: "s32 \<Rightarrow> ublk_io \<Rightarrow> ublk_io" where
  "ublk_mark_io_done res io =
     io\<lparr>io_flags := io_flags io OR (UBLKSRV_NEED_COMMIT_RQ_COMP OR UBLKSRV_IO_FREE),
        io_result := res\<rparr>"

text \<open>\<open>addr[0] = cmd_op; addr[1] = 0\<close> on the 64-bit \<open>off\<close> field (little endian).\<close>

definition ublk_set_sqe_cmd_op :: "u32 \<Rightarrow> sqe \<Rightarrow> sqe" where
  "ublk_set_sqe_cmd_op cmd_op s = s\<lparr>sqe_off := ucast cmd_op\<rparr>"

text \<open>The stores through \<open>sqe\<close> and \<open>cmd\<close> in \<open>ublk_queue_io_cmd\<close>, in order.\<close>

definition fill_io_cmd ::
  "abi \<Rightarrow> u32 \<Rightarrow> nat \<Rightarrow> nat \<Rightarrow> ublk_io \<Rightarrow> u64 \<Rightarrow> sqe \<Rightarrow> sqe" where
  "fill_io_cmd A cmd_op qid tag io user_data s =
     (let c = (if cmd_op = abi_commit_and_fetch_req A
               then (sqe_cmd s)\<lparr>cmd_result := io_result io\<rparr> else sqe_cmd s)
      in (ublk_set_sqe_cmd_op cmd_op s)
           \<lparr>sqe_fd := 0, sqe_opcode := Op_Uring_Cmd, sqe_fixed_file := True, sqe_rw_flags := 0,
            sqe_cmd := c\<lparr>cmd_tag := word_of_nat tag, cmd_addr := buf_addr io,
                         cmd_q_id := word_of_nat qid\<rparr>,
            sqe_user_data := user_data\<rparr>)"

definition issue_op :: "abi \<Rightarrow> u32 \<Rightarrow> u32" where
  "issue_op A flags =
     (if flags AND UBLKSRV_NEED_COMMIT_RQ_COMP \<noteq> 0 then abi_commit_and_fetch_req A
      else if flags AND UBLKSRV_NEED_FETCH_RQ \<noteq> 0 then abi_fetch_req A else 0)"

text \<open>
  \<open>ublk_queue_io_cmd(q, &q->ios[tag], tag)\<close>: 0 when there is nothing to issue, -1 when the
  submission queue is full, 1 when the command is queued.
\<close>

definition ublk_queue_io_cmd ::
  "'r uring \<Rightarrow> abi \<Rightarrow> nat \<Rightarrow> 'r ublk_queue \<Rightarrow> fault + (int \<times> 'r ublk_queue)" where
  "ublk_queue_io_cmd U A tag q =
     (if \<not> tag < length (ios q) then Inl Out_Of_Bounds
      else let io = ios q ! tag in
      if io_flags io AND UBLKSRV_IO_FREE = 0 then Inr (0, q)
      else if io_flags io AND (UBLKSRV_NEED_FETCH_RQ OR UBLKSRV_NEED_COMMIT_RQ_COMP) = 0
      then Inr (0, q)
      else let cmd_op = issue_op A (io_flags io) in
        (case get_sqe U (ring q) of
           None \<Rightarrow> Inr (- 1, q)
         | Some r \<Rightarrow>
             seq (build_user_data (word_of_nat tag) cmd_op 0 0) (\<lambda>user_data.
               Inr (1, q\<lparr>ring := upd_sqe U (fill_io_cmd A cmd_op (q_id q) tag io user_data) r,
                          ios := (ios q)[tag := io\<lparr>io_flags := 0\<rparr>],
                          cmd_inflight := cmd_inflight q + 1\<rparr>))))"

definition ublk_complete_io ::
  "'r uring \<Rightarrow> abi \<Rightarrow> nat \<Rightarrow> s32 \<Rightarrow> 'r ublk_queue \<Rightarrow> fault + (int \<times> 'r ublk_queue)" where
  "ublk_complete_io U A tag res q =
     seq (with_io tag (ublk_mark_io_done res) q) (ublk_queue_io_cmd U A tag)"

text \<open>The loop of \<open>ublk_submit_fetch_commands\<close> over \<open>i = 0 .. q_depth - 1\<close>.\<close>

fun submit_fetch_from :: "'r uring \<Rightarrow> abi \<Rightarrow> nat list \<Rightarrow> 'r ublk_queue \<Rightarrow> fault + 'r ublk_queue" where
  "submit_fetch_from U A [] q = Inr q"
| "submit_fetch_from U A (i # is) q =
     seq (ublk_queue_io_cmd U A i q) (\<lambda>(_, q'). submit_fetch_from U A is q')"

definition ublk_submit_fetch_commands :: "'r uring \<Rightarrow> abi \<Rightarrow> 'r ublk_queue \<Rightarrow> fault + 'r ublk_queue" where
  "ublk_submit_fetch_commands U A q = submit_fetch_from U A [0..<q_depth q] q"

definition ublk_queue_is_idle :: "'r uring \<Rightarrow> 'r ublk_queue \<Rightarrow> bool" where
  "ublk_queue_is_idle U q \<longleftrightarrow> sq_ready U (ring q) = 0 \<and> io_inflight q = 0"

definition queue_stopping :: "'r ublk_queue \<Rightarrow> bool" where
  "queue_stopping q \<longleftrightarrow> q_state q AND UBLKSRV_QUEUE_STOPPING \<noteq> 0"

lemma queue_stopping_bit: "queue_stopping q \<longleftrightarrow> bit (q_state q) 0"
  unfolding queue_stopping_def UBLKSRV_QUEUE_STOPPING_def push_bit_of_1 and_exp_eq_0_iff_not_bit
  by simp

definition ublk_queue_is_done :: "'r uring \<Rightarrow> 'r ublk_queue \<Rightarrow> bool" where
  "ublk_queue_is_done U q \<longleftrightarrow> queue_stopping q \<and> ublk_queue_is_idle U q"

text \<open>
  \<open>ublk_queue_discard_io_pages\<close>: the \<open>madvise(addr, io_buf_size, MADV_DONTNEED)\<close> calls, in
  order, as pairs of address and size.
\<close>

definition ublk_queue_discard_io_pages :: "u32 \<Rightarrow> 'r ublk_queue \<Rightarrow> (u64 \<times> u32) list" where
  "ublk_queue_discard_io_pages io_buf_size q =
     map (\<lambda>i. (buf_addr (ios q ! i), io_buf_size)) [0..<q_depth q]"

definition ublk_queue_idle_enter :: "u32 \<Rightarrow> 'r ublk_queue \<Rightarrow> (u64 \<times> u32) list \<times> 'r ublk_queue" where
  "ublk_queue_idle_enter io_buf_size q =
     (if q_state q AND UBLKSRV_QUEUE_IDLE \<noteq> 0 then ([], q)
      else (ublk_queue_discard_io_pages io_buf_size q,
            q\<lparr>q_state := q_state q OR UBLKSRV_QUEUE_IDLE\<rparr>))"

definition ublk_queue_idle_exit :: "'r ublk_queue \<Rightarrow> 'r ublk_queue" where
  "ublk_queue_idle_exit q =
     (if q_state q AND UBLKSRV_QUEUE_IDLE \<noteq> 0
      then q\<lparr>q_state := q_state q AND NOT UBLKSRV_QUEUE_IDLE\<rparr> else q)"

section \<open>Outstanding submissions and tag ownership\<close>

text \<open>
  A tag is owned by an outstanding submission (queued and not yet consumed, or held by the
  kernel: the multiset \<open>K\<close> of cookies), by the target code that is serving it (the set \<open>S\<close>),
  or by the pool of free \<open>ublk_io\<close> slots (\<open>flags \<noteq> 0\<close>).
\<close>

definition utag :: "u64 \<Rightarrow> nat" where
  "utag ud = unat (user_data_to_tag ud)"

definition outstanding :: "'r uring \<Rightarrow> u64 multiset \<Rightarrow> 'r ublk_queue \<Rightarrow> u64 multiset" where
  "outstanding U K q = mset (map sqe_user_data (sq_view U (ring q))) + K"

lemma outstanding_frame [simp]:
  "outstanding U K (q\<lparr>ios := x\<rparr>) = outstanding U K q"
  "outstanding U K (q\<lparr>cmd_inflight := c\<rparr>) = outstanding U K q"
  "outstanding U K (q\<lparr>io_inflight := c\<rparr>) = outstanding U K q"
  "outstanding U K (q\<lparr>q_state := w\<rparr>) = outstanding U K q"
  by (simp_all add: outstanding_def)

definition owners :: "'r uring \<Rightarrow> u64 multiset \<Rightarrow> nat set \<Rightarrow> 'r ublk_queue \<Rightarrow> nat \<Rightarrow> nat" where
  "owners U K S q t =
     count (image_mset utag (outstanding U K q)) t + of_bool (t \<in> S)
     + of_bool (t < q_depth q \<and> io_flags (ios q ! t) \<noteq> 0)"

text \<open>
  The invariant of a queue: every tag below the depth has exactly one owner and no other tag
  has any; the two counters count the outstanding commands and target requests (\<open>e\<close> is the
  number of target requests whose completion is being handled, 0 between events).
\<close>

definition queue_inv :: "'r uring \<Rightarrow> u64 multiset \<Rightarrow> nat set \<Rightarrow> nat \<Rightarrow> 'r ublk_queue \<Rightarrow> bool" where
  "queue_inv U K S e q \<longleftrightarrow>
     length (ios q) = UBLK_QUEUE_DEPTH \<and> q_depth q \<le> UBLK_QUEUE_DEPTH \<and>
     (\<forall>t. owners U K S q t = of_bool (t < q_depth q)) \<and>
     (\<forall>t < q_depth q. io_flags (ios q ! t) \<in>
        {0, UBLKSRV_IO_FREE, UBLKSRV_NEED_FETCH_RQ OR UBLKSRV_IO_FREE}) \<and>
     unat (cmd_inflight q) = size {#ud \<in># outstanding U K q. \<not> is_target_io ud#} \<and>
     unat (io_inflight q) = size {#ud \<in># outstanding U K q. is_target_io ud#} + e"

lemma queue_invD:
  assumes "queue_inv U K S e q"
  shows "length (ios q) = UBLK_QUEUE_DEPTH" and "q_depth q \<le> UBLK_QUEUE_DEPTH"
    and "owners U K S q t = of_bool (t < q_depth q)"
    and "t < q_depth q \<Longrightarrow> io_flags (ios q ! t) \<in> {0, 4, 5}"
    and "unat (cmd_inflight q) = size {#ud \<in># outstanding U K q. \<not> is_target_io ud#}"
    and "unat (io_inflight q) = size {#ud \<in># outstanding U K q. is_target_io ud#} + e"
  using assms by (auto simp: queue_inv_def ublk_flags)

lemma queue_inv_depth:
  "queue_inv U K S e q \<Longrightarrow> t < q_depth q \<Longrightarrow> t < length (ios q)"
  by (auto simp: queue_inv_def)

lemma queue_inv_outstanding_tag:
  assumes "queue_inv U K S e q" and "ud \<in># outstanding U K q"
  shows "utag ud < q_depth q"
proof (rule ccontr)
  assume "\<not> utag ud < q_depth q"
  then have "owners U K S q (utag ud) = 0" using queue_invD(3) [OF assms(1)] by simp
  then have "count (image_mset utag (outstanding U K q)) (utag ud) = 0"
    by (simp add: owners_def)
  then have "utag ud \<notin># image_mset utag (outstanding U K q)" by (simp add: count_eq_zero_iff)
  then show False using assms(2) by simp
qed

lemma queue_inv_serving_depth:
  "queue_inv U K S e q \<Longrightarrow> t \<in> S \<Longrightarrow> t < q_depth q"
  using queue_invD(3) [of U K S e q t] by (auto simp: owners_def of_bool_def split: if_splits)

lemma queue_inv_outstanding_size:
  assumes inv: "queue_inv U K S e q"
    and free: "\<And>t. t \<in> F \<Longrightarrow> count (image_mset utag (outstanding U K q)) t = 0"
  shows "size (outstanding U K q) \<le> card ({..<q_depth q} - F)"
proof -
  let ?I = "image_mset utag (outstanding U K q)"
  have "?I \<subseteq># mset_set ({..<q_depth q} - F)"
  proof (rule mset_subset_eqI)
    fix t
    have "count ?I t \<le> of_bool (t < q_depth q)"
      using queue_invD(3) [OF inv, of t] unfolding owners_def by linarith
    then show "count ?I t \<le> count (mset_set ({..<q_depth q} - F)) t"
      using free [of t] by (auto simp: count_mset_set' of_bool_def split: if_splits)
  qed
  then have "size ?I \<le> size (mset_set ({..<q_depth q} - F))" by (rule size_mset_mono)
  then show ?thesis by simp
qed

lemma queue_inv_outstanding_bound:
  assumes "queue_inv U K S e q"
  shows "size (outstanding U K q) \<le> q_depth q"
  using queue_inv_outstanding_size [OF assms, of "{}"] by simp

text \<open>A free or serving tag leaves room: fewer submissions than tags are outstanding.\<close>

lemma queue_inv_room:
  assumes inv: "queue_inv U K S e q" and t: "t < q_depth q"
    and own: "t \<in> S \<or> io_flags (ios q ! t) \<noteq> 0"
  shows "length (sq_view U (ring q)) < q_depth q" and "size (outstanding U K q) < q_depth q"
proof -
  have "count (image_mset utag (outstanding U K q)) t = 0"
    using queue_invD(3) [OF inv, of t] own t unfolding owners_def by auto
  then have "size (outstanding U K q) \<le> card ({..<q_depth q} - {t})"
    by (intro queue_inv_outstanding_size [OF inv]) simp
  also have "\<dots> < q_depth q" using t by (simp add: card_Diff_singleton)
  finally show "size (outstanding U K q) < q_depth q" .
  moreover have "length (sq_view U (ring q)) \<le> size (outstanding U K q)"
    by (simp add: outstanding_def)
  ultimately show "length (sq_view U (ring q)) < q_depth q" by linarith
qed

section \<open>Issuing a command\<close>

lemma build_user_data_tag:
  assumes "tag < UBLK_QUEUE_DEPTH" and "unat cmd_op < 256" and "is_tgt \<in> {0, 1}"
  obtains ud where "build_user_data (word_of_nat tag) cmd_op 0 is_tgt = Inr ud"
    and "utag ud = tag" and "user_data_to_op ud = cmd_op" and "is_target_io ud \<longleftrightarrow> is_tgt = 1"
proof -
  have tag: "unat (word_of_nat tag :: u32) = tag"
    using assms(1) by (simp add: UBLK_QUEUE_DEPTH_def unat_of_nat_small)
  have "\<exists>ud. build_user_data (word_of_nat tag) cmd_op 0 is_tgt = Inr ud"
    unfolding build_user_data_Inr_iff tag using assms by (simp add: UBLK_QUEUE_DEPTH_def)
  then obtain ud where ud: "build_user_data (word_of_nat tag) cmd_op 0 is_tgt = Inr ud" ..
  show thesis
  proof (rule that [OF ud])
    show "utag ud = tag" by (simp add: utag_def user_data_to_tag_build [OF ud] tag)
    show "user_data_to_op ud = cmd_op" by (rule user_data_to_op_build [OF ud])
    show "is_target_io ud \<longleftrightarrow> is_tgt = 1"
      using assms(3) by (auto simp: is_target_io_build [OF ud])
  qed
qed

lemma issue_op_cases:
  "flags AND (UBLKSRV_NEED_FETCH_RQ OR UBLKSRV_NEED_COMMIT_RQ_COMP) \<noteq> 0 \<Longrightarrow>
   issue_op A flags \<in> {abi_fetch_req A, abi_commit_and_fetch_req A}"
  by (auto simp: issue_op_def bit.conj_disj_distrib)

lemma ublk_queue_io_cmd_issue:
  assumes ring: "uring_ok U n" and abi: "abi_ok A"
    and tag: "tag < length (ios q)" "tag < UBLK_QUEUE_DEPTH"
    and free: "io_flags (ios q ! tag) AND UBLKSRV_IO_FREE \<noteq> 0"
    and need: "io_flags (ios q ! tag) AND (UBLKSRV_NEED_FETCH_RQ OR UBLKSRV_NEED_COMMIT_RQ_COMP) \<noteq> 0"
    and room: "length (sq_view U (ring q)) < n"
  obtains r ud s where
    "ublk_queue_io_cmd U A tag q =
       Inr (1, q\<lparr>ring := r, ios := (ios q)[tag := (ios q ! tag)\<lparr>io_flags := 0\<rparr>],
                 cmd_inflight := cmd_inflight q + 1\<rparr>)"
    and "sq_view U r = sq_view U (ring q) @
           [fill_io_cmd A (issue_op A (io_flags (ios q ! tag))) (q_id q) tag (ios q ! tag) ud s]"
    and "utag ud = tag" and "\<not> is_target_io ud"
    and "user_data_to_op ud = issue_op A (io_flags (ios q ! tag))"
proof -
  let ?op = "issue_op A (io_flags (ios q ! tag))"
  obtain r0 where r0: "get_sqe U (ring q) = Some r0"
    using uring_get_None [OF ring] room by fastforce
  obtain s where s: "sq_view U r0 = sq_view U (ring q) @ [s]"
    using uring_get_Some [OF ring r0] .
  have "unat ?op < 256" using issue_op_cases [OF need, of A] abi by (auto simp: abi_ok_def)
  then obtain ud where ud: "build_user_data (word_of_nat tag) ?op 0 0 = Inr ud"
    and udp: "utag ud = tag" "user_data_to_op ud = ?op" "is_target_io ud \<longleftrightarrow> (0 :: u32) = 1"
    using build_user_data_tag [OF tag(2), of ?op 0] by auto
  let ?r = "upd_sqe U (fill_io_cmd A ?op (q_id q) tag (ios q ! tag) ud) r0"
  show thesis
  proof (rule that [of ?r])
    show "ublk_queue_io_cmd U A tag q =
       Inr (1, q\<lparr>ring := ?r, ios := (ios q)[tag := (ios q ! tag)\<lparr>io_flags := 0\<rparr>],
                 cmd_inflight := cmd_inflight q + 1\<rparr>)"
      using tag free need by (simp add: ublk_queue_io_cmd_def r0 ud Let_def)
    show "sq_view U ?r = sq_view U (ring q) @
        [fill_io_cmd A ?op (q_id q) tag (ios q ! tag) ud s]"
      by (rule uring_upd [OF ring s])
  qed (use udp in simp_all)
qed

lemma fill_io_cmd_simps [simp]:
  "sqe_user_data (fill_io_cmd A op qid tag io ud s) = ud"
  "sqe_off (fill_io_cmd A op qid tag io ud s) = ucast op"
  "sqe_opcode (fill_io_cmd A op qid tag io ud s) = Op_Uring_Cmd"
  "sqe_fd (fill_io_cmd A op qid tag io ud s) = 0"
  "cmd_tag (sqe_cmd (fill_io_cmd A op qid tag io ud s)) = word_of_nat tag"
  "cmd_q_id (sqe_cmd (fill_io_cmd A op qid tag io ud s)) = word_of_nat qid"
  "cmd_addr (sqe_cmd (fill_io_cmd A op qid tag io ud s)) = buf_addr io"
  "op = abi_commit_and_fetch_req A \<Longrightarrow>
     cmd_result (sqe_cmd (fill_io_cmd A op qid tag io ud s)) = io_result io"
  by (simp_all add: fill_io_cmd_def ublk_set_sqe_cmd_op_def Let_def)

section \<open>Moving a tag from one owner to another\<close>

text \<open>
  Three moves suffice: a submission is queued for a tag (\<open>queue_inv_issued\<close>), a completion
  gives the tag to the code that serves it (\<open>queue_inv_completed\<close>), and a served tag goes
  back to the free pool (\<open>queue_inv_freed\<close>).
\<close>

lemma queue_inv_issued:
  assumes inv: "queue_inv U K S e q" and tag: "tag < q_depth q"
    and own: "tag \<in> S \<or> io_flags (ios q ! tag) \<noteq> 0"
    and view: "sq_view U (ring q') = sq_view U (ring q) @ [s]" and ud: "utag (sqe_user_data s) = tag"
    and depth: "q_depth q' = q_depth q"
    and ios: "ios q' = (ios q)[tag := io']" "io_flags io' = 0"
    and cmd: "cmd_inflight q' = (if is_target_io (sqe_user_data s) then cmd_inflight q else cmd_inflight q + 1)"
    and tgt: "io_inflight q' = (if is_target_io (sqe_user_data s) then io_inflight q + 1 else io_inflight q)"
    and e: "e \<le> 1"
  shows "queue_inv U K (S - {tag}) e q'"
proof -
  have out: "outstanding U K q' = add_mset (sqe_user_data s) (outstanding U K q)"
    by (simp add: outstanding_def view)
  note len = queue_invD(1,2) [OF inv]
  have tagl: "tag < length (ios q)" by (rule queue_inv_depth [OF inv tag])
  have room: "size (outstanding U K q) < 128"
    using queue_inv_room(2) [OF inv tag own] len by (simp add: UBLK_QUEUE_DEPTH_def)
  have fsz: "size {#x \<in># outstanding U K q. P x#} < 128" for P
    using size_mset_mono [OF multiset_filter_subset] room by (rule le_less_trans)
  have c1: "unat (cmd_inflight q + 1) = unat (cmd_inflight q) + 1"
    using fsz by (intro unat_plus_1) (simp add: queue_invD(5) [OF inv] less_trans [OF fsz])
  have c2: "unat (io_inflight q + 1) = unat (io_inflight q) + 1"
    using fsz [of is_target_io] e by (intro unat_plus_1) (simp add: queue_invD(6) [OF inv])
  have owners: "owners U K (S - {tag}) q' t = of_bool (t < q_depth q')" for t
    using queue_invD(3) [OF inv, of t] own tag
    by (auto simp: owners_def out ud depth ios nth_list_update tagl split: if_splits)
  have flags: "io_flags (ios q' ! t) \<in> {0, 4, 5}" if "t < q_depth q'" for t
    using queue_invD(4) [OF inv, of t] that tagl
    by (auto simp: ios depth nth_list_update)
  show ?thesis
    using owners flags len queue_invD(5,6) [OF inv] c1 c2
    by (auto simp: queue_inv_def ublk_flags depth ios(1) out cmd tgt)
qed

lemma queue_inv_completed:
  assumes inv: "queue_inv U K S e q" and ud: "ud \<in># K"
    and q': "q' = (if is_target_io ud then q else q\<lparr>cmd_inflight := cmd_inflight q - 1\<rparr>)"
    and e': "e' = (if is_target_io ud then e + 1 else e)"
  shows "queue_inv U (K - {#ud#}) (insert (utag ud) S) e' q'"
    and "utag ud < q_depth q" and "utag ud \<notin> S" and "io_flags (ios q ! utag ud) = 0"
proof -
  have out: "outstanding U K q = add_mset ud (outstanding U (K - {#ud#}) q)"
    using ud by (simp add: outstanding_def)
  have same: "outstanding U M q' = outstanding U M q" "q_depth q' = q_depth q" "ios q' = ios q" for M
    by (simp_all add: outstanding_def q')
  show lt: "utag ud < q_depth q"
    by (rule queue_inv_outstanding_tag [OF inv]) (simp add: out)
  show notin: "utag ud \<notin> S" and fl: "io_flags (ios q ! utag ud) = 0"
    using queue_invD(3) [OF inv, of "utag ud"] lt by (auto simp: owners_def out)
  have owners: "owners U (K - {#ud#}) (insert (utag ud) S) q' t = of_bool (t < q_depth q')" for t
    using queue_invD(3) [OF inv, of t] notin
    by (cases "t = utag ud") (auto simp: owners_def same out)
  have cmd: "unat (cmd_inflight q') = size {#x \<in># outstanding U (K - {#ud#}) q. \<not> is_target_io x#}"
    using queue_invD(5) [OF inv] by (simp add: out q' unat_minus_1)
  have tgt: "unat (io_inflight q') = size {#x \<in># outstanding U (K - {#ud#}) q. is_target_io x#} + e'"
    using queue_invD(6) [OF inv] by (simp add: out q' e')
  show "queue_inv U (K - {#ud#}) (insert (utag ud) S) e' q'"
    using owners cmd tgt queue_invD(1,2,4) [OF inv]
    by (auto simp: queue_inv_def ublk_flags same)
qed

lemma queue_inv_freed:
  assumes inv: "queue_inv U K S e q" and tag: "tag \<in> S"
  shows "queue_inv U K (S - {tag}) e (q\<lparr>ios := (ios q)[tag := (ios q ! tag)\<lparr>io_flags := UBLKSRV_IO_FREE\<rparr>]\<rparr>)"
    (is "queue_inv U K _ e ?q'")
proof -
  have tagd: "tag < q_depth q" by (rule queue_inv_serving_depth [OF inv tag])
  have tagl: "tag < length (ios q)" by (rule queue_inv_depth [OF inv tagd])
  have owners: "owners U K (S - {tag}) ?q' t = of_bool (t < q_depth ?q')" for t
    using queue_invD(3) [OF inv, of t] queue_invD(3) [OF inv, of tag] tag tagd tagl
    by (auto simp: owners_def nth_list_update ublk_flags of_bool_def split: if_splits)
  show ?thesis
    using owners queue_invD(1,2,4,5,6) [OF inv] tagl
    by (auto simp: queue_inv_def nth_list_update ublk_flags)
qed

section \<open>The operations keep the invariant\<close>

text \<open>
  Completing a served tag always issues its commit command, with the result given: the
  branches "not free", "nothing to do" and "run out of sqe" are not taken.
\<close>

lemma ublk_complete_io_inv:
  assumes ring: "uring_ok U n" and abi: "abi_ok A" and inv: "queue_inv U K S e q" and n: "q_depth q \<le> n"
    and tag: "tag \<in> S" and flags: "io_flags (ios q ! tag) = 0" and e: "e \<le> 1"
  obtains q' s where "ublk_complete_io U A tag res q = Inr (1, q')"
    and "queue_inv U K (S - {tag}) e q'"
    and "sq_view U (ring q') = sq_view U (ring q) @ [s]" and "utag (sqe_user_data s) = tag"
    and "sqe_off s = ucast (abi_commit_and_fetch_req A)" and "cmd_result (sqe_cmd s) = res"
    and "\<not> is_target_io (sqe_user_data s)" and "cmd_tag (sqe_cmd s) = word_of_nat tag"
    and "sqe_opcode s = Op_Uring_Cmd"
    and "q_state q' = q_state q" and "io_inflight q' = io_inflight q" and "q_depth q' = q_depth q"
    and "\<forall>i. i \<noteq> tag \<longrightarrow> ios q' ! i = ios q ! i"
proof -
  have tagd: "tag < q_depth q" by (rule queue_inv_serving_depth [OF inv tag])
  have tagl: "tag < length (ios q)" by (rule queue_inv_depth [OF inv tagd])
  have tag128: "tag < UBLK_QUEUE_DEPTH" using tagl queue_invD(1) [OF inv] by simp
  let ?io = "(ios q ! tag)\<lparr>io_flags := 6, io_result := res\<rparr>"
  let ?qm = "q\<lparr>ios := (ios q)[tag := ?io]\<rparr>"
  have mark: "with_io tag (ublk_mark_io_done res) q = Inr ?qm"
    using tagl flags by (simp add: with_io_def ublk_mark_io_done_def ublk_flags)
  have room: "length (sq_view U (ring ?qm)) < n"
    using queue_inv_room(1) [OF inv tagd] tag n by simp
  have tagm: "tag < length (ios ?qm)" using tagl by simp
  have op: "issue_op A 6 = abi_commit_and_fetch_req A" by (simp add: issue_op_def ublk_flags)
  obtain r ud s where eq: "ublk_queue_io_cmd U A tag ?qm =
       Inr (1, ?qm\<lparr>ring := r, ios := (ios ?qm)[tag := (ios ?qm ! tag)\<lparr>io_flags := 0\<rparr>],
                  cmd_inflight := cmd_inflight ?qm + 1\<rparr>)"
    and view: "sq_view U r = sq_view U (ring ?qm) @
           [fill_io_cmd A (issue_op A (io_flags (ios ?qm ! tag))) (q_id ?qm) tag (ios ?qm ! tag) ud s]"
    and ud: "utag ud = tag" "\<not> is_target_io ud"
    by (rule ublk_queue_io_cmd_issue [OF ring abi tagm tag128 _ _ room])
      (use tagl in \<open>auto simp: ublk_flags\<close>)
  let ?q' = "?qm\<lparr>ring := r, ios := (ios ?qm)[tag := (ios ?qm ! tag)\<lparr>io_flags := 0\<rparr>],
                  cmd_inflight := cmd_inflight ?qm + 1\<rparr>"
  let ?s = "fill_io_cmd A (abi_commit_and_fetch_req A) (q_id q) tag ?io ud s"
  have view': "sq_view U (ring ?q') = sq_view U (ring q) @ [?s]"
    using view tagl by (simp add: op)
  have inv': "queue_inv U K (S - {tag}) e ?q'"
    by (rule queue_inv_issued [OF inv tagd _ view', where io' = "?io\<lparr>io_flags := 0\<rparr>"])
      (use tag ud tagl e in auto)
  show thesis
    by (rule that [of ?q' ?s]) (use eq mark inv' view' ud in \<open>simp_all add: ublk_complete_io_def\<close>)
qed

text \<open>The same without the invariant, for a queue with a free entry.\<close>

lemma ublk_complete_io_commits:
  assumes ring: "uring_ok U n" and abi: "abi_ok A" and tag: "tag < length (ios q)" "tag < UBLK_QUEUE_DEPTH"
    and flags: "io_flags (ios q ! tag) = 0" and room: "length (sq_view U (ring q)) < n"
  obtains q' s where "ublk_complete_io U A tag res q = Inr (1, q')"
    and "sq_view U (ring q') = sq_view U (ring q) @ [s]" and "cmd_result (sqe_cmd s) = res"
    and "utag (sqe_user_data s) = tag" and "\<not> is_target_io (sqe_user_data s)"
proof -
  let ?io = "(ios q ! tag)\<lparr>io_flags := 6, io_result := res\<rparr>"
  let ?qm = "q\<lparr>ios := (ios q)[tag := ?io]\<rparr>"
  have mark: "with_io tag (ublk_mark_io_done res) q = Inr ?qm"
    using tag flags by (simp add: with_io_def ublk_mark_io_done_def ublk_flags)
  have op: "issue_op A 6 = abi_commit_and_fetch_req A" by (simp add: issue_op_def ublk_flags)
  have tagm: "tag < length (ios ?qm)" "length (sq_view U (ring ?qm)) < n" using tag room by simp_all
  obtain r ud s where eq: "ublk_queue_io_cmd U A tag ?qm =
       Inr (1, ?qm\<lparr>ring := r, ios := (ios ?qm)[tag := (ios ?qm ! tag)\<lparr>io_flags := 0\<rparr>],
                  cmd_inflight := cmd_inflight ?qm + 1\<rparr>)"
    and view: "sq_view U r = sq_view U (ring ?qm) @
           [fill_io_cmd A (issue_op A (io_flags (ios ?qm ! tag))) (q_id ?qm) tag (ios ?qm ! tag) ud s]"
    and ud: "utag ud = tag" "\<not> is_target_io ud"
    by (rule ublk_queue_io_cmd_issue [OF ring abi tagm(1) tag(2) _ _ tagm(2)])
      (use tag in \<open>auto simp: ublk_flags\<close>)
  show thesis
    by (rule that [of "?qm\<lparr>ring := r, ios := (ios ?qm)[tag := (ios ?qm ! tag)\<lparr>io_flags := 0\<rparr>],
                  cmd_inflight := cmd_inflight ?qm + 1\<rparr>"
          "fill_io_cmd A (abi_commit_and_fetch_req A) (q_id q) tag ?io ud s"])
      (use eq mark view ud tag in \<open>simp_all add: ublk_complete_io_def op\<close>)
qed

end
