(* ===== verification/Ublk_Target.thy ===== *)
theory Ublk_Target
  imports Ublk_Queue
begin

text \<open>
  The request side of the two targets of \<open>miniublk.c\<close>, null and loop, and the interface
  \<open>ublk_target\<close> the event loop relies on: \<open>queue_io\<close> disposes of the tag it is given and
  \<open>tgt_io_done\<close> of the tag of a finished target request. Both targets interpret it.
\<close>

section \<open>Request descriptors and the operation table\<close>

text \<open>
  \<open>struct ublksrv_io_desc\<close>. The descriptors live in memory mapped from the driver
  (\<open>ublk_get_iod\<close> indexes it by tag), so an operation takes what it finds there as the
  argument \<open>iods\<close>.
\<close>

record iod =
  iod_op_flags :: u32
  iod_nr_sectors :: u32
  iod_start_sector :: u64
  iod_addr :: u64

definition ublk_get_iod :: "(nat \<Rightarrow> iod) \<Rightarrow> nat \<Rightarrow> iod" where
  "ublk_get_iod iods tag = iods tag"

text \<open>\<open>struct ublk_tgt_ops\<close>, its request operations; a NULL \<open>tgt_io_done\<close> is \<open>None\<close>.\<close>

record 'r tgt_ops =
  tgt_name :: string
  queue_io :: "(nat \<Rightarrow> iod) \<Rightarrow> nat \<Rightarrow> 'r ublk_queue \<Rightarrow> fault + (int \<times> 'r ublk_queue)"
  tgt_io_done :: "(nat \<Rightarrow> cqe \<Rightarrow> 'r ublk_queue \<Rightarrow> fault + 'r ublk_queue) option"

section \<open>The null target\<close>

definition ublk_null_queue_io ::
  "'r uring \<Rightarrow> abi \<Rightarrow> (nat \<Rightarrow> iod) \<Rightarrow> nat \<Rightarrow> 'r ublk_queue \<Rightarrow> fault + (int \<times> 'r ublk_queue)" where
  "ublk_null_queue_io U A iods tag q =
     seq (ublk_complete_io U A tag (push_bit 9 (iod_nr_sectors (ublk_get_iod iods tag))) q)
       (\<lambda>(_, q'). Inr (0, q'))"

definition null_tgt_ops :: "'r uring \<Rightarrow> abi \<Rightarrow> 'r tgt_ops" where
  "null_tgt_ops U A = \<lparr>tgt_name = ''null'', queue_io = ublk_null_queue_io U A, tgt_io_done = None\<rparr>"

section \<open>The loop target\<close>

text \<open>The entry prepared for a request, or the error \<open>loop_queue_tgt_io\<close> returns for it.\<close>

definition loop_prep :: "'r uring \<Rightarrow> abi \<Rightarrow> iod \<Rightarrow> int + (sqe \<Rightarrow> sqe)" where
  "loop_prep U A iod =
     (let ublk_op = abi_get_op A (iod_op_flags iod);
          len = push_bit 9 (iod_nr_sectors iod);
          off = push_bit 9 (iod_start_sector iod) in
      if ublk_op = abi_op_flush A
      then Inr (\<lambda>s. (prep_rw U Op_Sync_File_Range 1 0 len off s)
                      \<lparr>sqe_rw_flags := abi_fsync_datasync A, sqe_fixed_file := True\<rparr>)
      else if ublk_op = abi_op_write_zeroes A \<or> ublk_op = abi_op_discard A then Inl (- ENOTSUP)
      else if ublk_op = abi_op_read A
      then Inr (\<lambda>s. (prep_rw U Op_Read 1 (iod_addr iod) len off s)\<lparr>sqe_fixed_file := True\<rparr>)
      else if ublk_op = abi_op_write A
      then Inr (\<lambda>s. (prep_rw U Op_Write 1 (iod_addr iod) len off s)\<lparr>sqe_fixed_file := True\<rparr>)
      else Inl (- EINVAL))"

definition loop_queue_tgt_io ::
  "'r uring \<Rightarrow> abi \<Rightarrow> (nat \<Rightarrow> iod) \<Rightarrow> nat \<Rightarrow> 'r ublk_queue \<Rightarrow> fault + (int \<times> 'r ublk_queue)" where
  "loop_queue_tgt_io U A iods tag q =
     (let iod = ublk_get_iod iods tag in
      case get_sqe U (ring q) of
        None \<Rightarrow> Inr (- ENOMEM, q)
      | Some r \<Rightarrow>
          (case loop_prep U A iod of
             Inl e \<Rightarrow> Inr (e, q\<lparr>ring := r\<rparr>)
           | Inr prep \<Rightarrow>
               seq (build_user_data (word_of_nat tag) (abi_get_op A (iod_op_flags iod)) 0 1)
                 (\<lambda>user_data. Inr (1, q\<lparr>ring := upd_sqe U (\<lambda>s. (prep s)\<lparr>sqe_user_data := user_data\<rparr>) r,
                                        io_inflight := io_inflight q + 1\<rparr>))))"

definition ublk_loop_queue_io ::
  "'r uring \<Rightarrow> abi \<Rightarrow> (nat \<Rightarrow> iod) \<Rightarrow> nat \<Rightarrow> 'r ublk_queue \<Rightarrow> fault + (int \<times> 'r ublk_queue)" where
  "ublk_loop_queue_io U A iods tag q =
     seq (loop_queue_tgt_io U A iods tag q) (\<lambda>(queued, q').
       if queued < 0
       then seq (ublk_complete_io U A tag (word_of_int queued) q') (\<lambda>(_, q''). Inr (0, q''))
       else Inr (0, q'))"

definition ublk_loop_io_done ::
  "'r uring \<Rightarrow> abi \<Rightarrow> nat \<Rightarrow> cqe \<Rightarrow> 'r ublk_queue \<Rightarrow> fault + 'r ublk_queue" where
  "ublk_loop_io_done U A tag cqe q =
     (if tag = utag (cqe_user_data cqe)
      then seq (ublk_complete_io U A tag (cqe_res cqe) q)
             (\<lambda>(_, q'). Inr (q'\<lparr>io_inflight := io_inflight q' - 1\<rparr>))
      else Inl Assert_Failed)"

definition loop_tgt_ops :: "'r uring \<Rightarrow> abi \<Rightarrow> 'r tgt_ops" where
  "loop_tgt_ops U A = \<lparr>tgt_name = ''loop'', queue_io = ublk_loop_queue_io U A,
     tgt_io_done = Some (ublk_loop_io_done U A)\<rparr>"

lemma tgt_ops_simps [simp]:
  "tgt_name (null_tgt_ops U A) = ''null''" "tgt_name (loop_tgt_ops U A) = ''loop''"
  "queue_io (null_tgt_ops U A) = ublk_null_queue_io U A"
  "queue_io (loop_tgt_ops U A) = ublk_loop_queue_io U A"
  "tgt_io_done (null_tgt_ops U A) = None"
  "tgt_io_done (loop_tgt_ops U A) = Some (ublk_loop_io_done U A)"
  by (simp_all add: null_tgt_ops_def loop_tgt_ops_def)

text \<open>\<open>tgt_ops_list\<close>.\<close>

definition tgt_ops_list :: "'r uring \<Rightarrow> abi \<Rightarrow> 'r tgt_ops list" where
  "tgt_ops_list U A = [null_tgt_ops U A, loop_tgt_ops U A]"

text \<open>
  The requests a target must be ready for. A device is created with
  \<open>UBLK_PARAM_TYPE_BASIC\<close> only, so the driver sends reads, writes and flushes; the null
  target completes whatever it is given.
\<close>

definition loop_request :: "abi \<Rightarrow> iod \<Rightarrow> bool" where
  "loop_request A iod \<longleftrightarrow>
     abi_get_op A (iod_op_flags iod) \<in> {abi_op_read A, abi_op_write A, abi_op_flush A}"

definition any_request :: "abi \<Rightarrow> iod \<Rightarrow> bool" where
  "any_request A iod \<longleftrightarrow> True"

section \<open>The interface of a target\<close>

text \<open>
  \<open>served U t tgt q q'\<close>: the target hands tag \<open>t\<close> over with exactly one submission, a
  target request if \<open>tgt\<close> and a command for the driver otherwise; the slots of the other
  tags, the depth and the state word of the queue are left alone.
\<close>

definition served :: "'r uring \<Rightarrow> nat \<Rightarrow> bool \<Rightarrow> 'r ublk_queue \<Rightarrow> 'r ublk_queue \<Rightarrow> bool" where
  "served U t tgt q q' \<longleftrightarrow>
     (\<exists>s. sq_view U (ring q') = sq_view U (ring q) @ [s] \<and> utag (sqe_user_data s) = t
        \<and> is_target_io (sqe_user_data s) = tgt) \<and>
     (\<forall>i. i \<noteq> t \<longrightarrow> ios q' ! i = ios q ! i) \<and> q_depth q' = q_depth q \<and> q_state q' = q_state q"

lemma servedD:
  assumes "served U t tgt q q'"
  shows "q_depth q' = q_depth q" and "q_state q' = q_state q" and "i \<noteq> t \<Longrightarrow> ios q' ! i = ios q ! i"
    and "\<exists>ud. outstanding U K q' = add_mset ud (outstanding U K q) \<and> utag ud = t \<and> is_target_io ud = tgt"
  using assms by (auto simp: served_def outstanding_def)

locale ublk_target =
  fixes ops :: "'r uring \<Rightarrow> abi \<Rightarrow> 'r tgt_ops"
    and request :: "abi \<Rightarrow> iod \<Rightarrow> bool"
  assumes queue_io_serves:
      "\<lbrakk>uring_ok U n; abi_ok A; queue_inv U K {t} 0 q; q_depth q \<le> n; io_flags (ios q ! t) = 0;
        request A (iods t)\<rbrakk>
       \<Longrightarrow> \<exists>q'. queue_io (ops U A) iods t q = Inr (0, q') \<and> queue_inv U K {} 0 q'
             \<and> served U t (tgt_io_done (ops U A) \<noteq> None) q q'
             \<and> (tgt_io_done (ops U A) = None \<longrightarrow> io_inflight q' = io_inflight q)"
    and io_done_serves:
      "\<lbrakk>uring_ok U n; abi_ok A; queue_inv U K {utag (cqe_user_data c)} 1 q; q_depth q \<le> n;
        io_flags (ios q ! utag (cqe_user_data c)) = 0; tgt_io_done (ops U A) = Some done\<rbrakk>
       \<Longrightarrow> \<exists>q'. done (utag (cqe_user_data c)) c q = Inr q' \<and> queue_inv U K {} 0 q'
             \<and> served U (utag (cqe_user_data c)) False q q'"

section \<open>Both targets provide it\<close>

lemma null_queue_io_serves:
  assumes "uring_ok U n" "abi_ok A" "queue_inv U K {t} 0 q" "q_depth q \<le> n" "io_flags (ios q ! t) = 0"
  obtains q' where "ublk_null_queue_io U A iods t q = Inr (0, q')" and "queue_inv U K {} 0 q'"
    and "served U t False q q'" and "io_inflight q' = io_inflight q"
proof -
  obtain q' s where "ublk_complete_io U A t (push_bit 9 (iod_nr_sectors (ublk_get_iod iods t))) q = Inr (1, q')"
    and "queue_inv U K ({t} - {t}) 0 q'" and "q_state q' = q_state q"
    and "io_inflight q' = io_inflight q" and "q_depth q' = q_depth q"
    and "sq_view U (ring q') = sq_view U (ring q) @ [s]" and "utag (sqe_user_data s) = t"
    and "\<not> is_target_io (sqe_user_data s)" and "\<forall>i. i \<noteq> t \<longrightarrow> ios q' ! i = ios q ! i"
    by (rule ublk_complete_io_inv [OF assms(1-4) _ assms(5),
          where res = "push_bit 9 (iod_nr_sectors (ublk_get_iod iods t))"]) auto
  then show thesis by (intro that [of q']) (simp_all add: ublk_null_queue_io_def served_def)
qed

interpretation null: ublk_target null_tgt_ops any_request
proof
  fix U :: "'r uring" and n A K t q iods
  assume "uring_ok U n" "abi_ok A" "queue_inv U K {t} 0 q" "q_depth q \<le> n" "io_flags (ios q ! t) = 0"
  from null_queue_io_serves [OF this, where iods = iods]
  show "\<exists>q'. queue_io (null_tgt_ops U A) iods t q = Inr (0, q') \<and> queue_inv U K {} 0 q'
      \<and> served U t (tgt_io_done (null_tgt_ops U A) \<noteq> None) q q'
      \<and> (tgt_io_done (null_tgt_ops U A) = None \<longrightarrow> io_inflight q' = io_inflight q)"
    by (simp add: null_tgt_ops_def) blast
qed (simp add: null_tgt_ops_def)

lemma loop_prep_request:
  assumes "loop_request A iod" and "abi_ok A"
  obtains prep where "loop_prep U A iod = Inr prep"
proof -
  have "\<exists>prep. loop_prep U A iod = Inr prep"
    using assms by (auto simp: loop_prep_def loop_request_def abi_ok_def Let_def)
  then show thesis using that by blast
qed

lemma loop_prep_refused:
  assumes "\<not> loop_request A iod"
  obtains e where "loop_prep U A iod = Inl e" and "e = - ENOTSUP \<or> e = - EINVAL"
  using assms
  by (cases "abi_get_op A (iod_op_flags iod) = abi_op_write_zeroes A \<or> abi_get_op A (iod_op_flags iod) = abi_op_discard A")
    (simp_all add: loop_prep_def loop_request_def Let_def)

lemma loop_prep_rw:
  assumes "abi_ok A" and "abi_get_op A (iod_op_flags d) \<in> {abi_op_read A, abi_op_write A}"
    and "loop_prep U A d = Inr prep"
  shows "prep s = (prep_rw U (if abi_get_op A (iod_op_flags d) = abi_op_read A then Op_Read else Op_Write) 1
      (iod_addr d) (push_bit 9 (iod_nr_sectors d)) (push_bit 9 (iod_start_sector d)) s)\<lparr>sqe_fixed_file := True\<rparr>"
proof -
  have "distinct [abi_op_read A, abi_op_write A, abi_op_flush A, abi_op_discard A, abi_op_write_zeroes A]"
    using assms(1) by (simp add: abi_ok_def)
  then show ?thesis
    using assms(2,3) by (auto simp: loop_prep_def Let_def eq_commute [of "abi_op_write A" "abi_op_read A"])
qed

lemma loop_queue_io_serves:
  assumes ring: "uring_ok U n" and abi: "abi_ok A" and inv: "queue_inv U K {t} 0 q" and n: "q_depth q \<le> n"
    and req: "loop_request A (iods t)"
  obtains q' prep s ud where "ublk_loop_queue_io U A iods t q = Inr (0, q')" and "queue_inv U K {} 0 q'"
    and "served U t True q q'" and "io_inflight q' = io_inflight q + 1"
    and "loop_prep U A (iods t) = Inr prep"
    and "sq_view U (ring q') = sq_view U (ring q) @ [(prep s)\<lparr>sqe_user_data := ud\<rparr>]"
    and "utag ud = t" and "is_target_io ud"
proof -
  have td: "t < q_depth q" by (rule queue_inv_serving_depth [OF inv]) simp
  have t128: "t < UBLK_QUEUE_DEPTH" using queue_inv_depth [OF inv td] queue_invD(1) [OF inv] by simp
  obtain r where r: "get_sqe U (ring q) = Some r"
    using uring_get_None [OF ring, of "ring q"] queue_inv_room(1) [OF inv td] n by fastforce
  obtain s where s: "sq_view U r = sq_view U (ring q) @ [s]" using uring_get_Some [OF ring r] .
  obtain prep where prep: "loop_prep U A (iods t) = Inr prep" by (rule loop_prep_request [OF req abi])
  let ?op = "abi_get_op A (iod_op_flags (iods t))"
  have "unat ?op < 256" using abi by (simp add: abi_ok_def)
  then obtain ud where ud: "build_user_data (word_of_nat t) ?op 0 1 = Inr ud" "utag ud = t" "is_target_io ud"
    using build_user_data_tag [OF t128, of ?op 1] by auto
  let ?s = "(prep s)\<lparr>sqe_user_data := ud\<rparr>"
  let ?q' = "q\<lparr>ring := upd_sqe U (\<lambda>s. (prep s)\<lparr>sqe_user_data := ud\<rparr>) r, io_inflight := io_inflight q + 1\<rparr>"
  have view: "sq_view U (ring ?q') = sq_view U (ring q) @ [?s]"
    using uring_upd [OF ring s] by simp
  have "queue_inv U K ({t} - {t}) 0 ?q'"
    by (rule queue_inv_issued [OF inv td _ view, where io' = "ios q ! t"])
      (use ud queue_invD(3) [OF inv, of t] td in \<open>auto simp: owners_def\<close>)
  then show thesis
    by (intro that [of ?q' prep ud s])
      (use r prep ud view in \<open>simp_all add: ublk_loop_queue_io_def loop_queue_tgt_io_def ublk_get_iod_def served_def\<close>)
qed

lemma loop_io_done_serves:
  assumes ring: "uring_ok U n" and abi: "abi_ok A" and n: "q_depth q \<le> n"
    and inv: "queue_inv U K {utag (cqe_user_data c)} 1 q"
    and flags: "io_flags (ios q ! utag (cqe_user_data c)) = 0"
  obtains q' s where "ublk_loop_io_done U A (utag (cqe_user_data c)) c q = Inr q'"
    and "queue_inv U K {} 0 q'" and "served U (utag (cqe_user_data c)) False q q'"
    and "io_inflight q' = io_inflight q - 1"
    and "sq_view U (ring q') = sq_view U (ring q) @ [s]"
    and "cmd_result (sqe_cmd s) = cqe_res c" and "utag (sqe_user_data s) = utag (cqe_user_data c)"
    and "sqe_off s = ucast (abi_commit_and_fetch_req A)" and "sqe_opcode s = Op_Uring_Cmd"
    and "cmd_tag (sqe_cmd s) = word_of_nat (utag (cqe_user_data c))" and "\<not> is_target_io (sqe_user_data s)"
proof -
  let ?t = "utag (cqe_user_data c)"
  obtain q' s where q': "ublk_complete_io U A ?t (cqe_res c) q = Inr (1, q')"
    "queue_inv U K ({?t} - {?t}) 1 q'"
    and s: "sq_view U (ring q') = sq_view U (ring q) @ [s]" "utag (sqe_user_data s) = ?t"
    "sqe_off s = ucast (abi_commit_and_fetch_req A)" "cmd_result (sqe_cmd s) = cqe_res c"
      "sqe_opcode s = Op_Uring_Cmd" "cmd_tag (sqe_cmd s) = word_of_nat ?t"
    and fr: "q_state q' = q_state q" "io_inflight q' = io_inflight q" "q_depth q' = q_depth q"
    "\<not> is_target_io (sqe_user_data s)" "\<forall>i. i \<noteq> ?t \<longrightarrow> ios q' ! i = ios q ! i"
    by (rule ublk_complete_io_inv [OF ring abi inv n _ flags]) auto
  let ?q'' = "q'\<lparr>io_inflight := io_inflight q' - 1\<rparr>"
  have "queue_inv U K {} 0 ?q''"
    using q'(2) by (auto simp: queue_inv_def owners_def unat_minus_1)
  then show thesis
    by (intro that [of ?q'' s]) (use q' s fr in \<open>simp_all add: ublk_loop_io_done_def served_def\<close>)
qed

interpretation loop: ublk_target loop_tgt_ops loop_request
proof
  fix U :: "'r uring" and n A K t q iods
  assume a: "uring_ok U n" "abi_ok A" "queue_inv U K {t} 0 q" "q_depth q \<le> n"
    and req: "loop_request A (iods t)"
  from loop_queue_io_serves [OF a, where iods = iods, OF req]
  show "\<exists>q'. queue_io (loop_tgt_ops U A) iods t q = Inr (0, q') \<and> queue_inv U K {} 0 q'
      \<and> served U t (tgt_io_done (loop_tgt_ops U A) \<noteq> None) q q'
      \<and> (tgt_io_done (loop_tgt_ops U A) = None \<longrightarrow> io_inflight q' = io_inflight q)"
    by (simp add: loop_tgt_ops_def) blast
next
  fix U :: "'r uring" and n A K and c :: cqe and q "done"
  assume a: "uring_ok U n" "abi_ok A" "queue_inv U K {utag (cqe_user_data c)} 1 q" "q_depth q \<le> n"
    "io_flags (ios q ! utag (cqe_user_data c)) = 0" and d: "tgt_io_done (loop_tgt_ops U A) = Some done"
  from d have "done = ublk_loop_io_done U A" by (simp add: loop_tgt_ops_def)
  with loop_io_done_serves [OF a(1,2,4,3,5)]
  show "\<exists>q'. done (utag (cqe_user_data c)) c q = Inr q' \<and> queue_inv U K {} 0 q'
      \<and> served U (utag (cqe_user_data c)) False q q'"
    by blast
qed

end
