(* ===== verification/Ublk_Event.thy ===== *)
theory Ublk_Event
  imports Ublk_Target
begin

text \<open>
  The event loop of a queue thread of \<open>miniublk.c\<close>: handling one completion, reaping a
  batch, one round of \<open>ublk_process_io\<close>, and the loop of \<open>ublk_io_handler_fn\<close>. The driver
  and the ring answer with an \<open>event\<close>; the step relation \<open>queue_step\<close> says which answers
  are possible, and the invariant is proved once for every target in the locale
  \<open>ublk_target\<close>.
\<close>

section \<open>Handling completions\<close>

definition ublksrv_handle_tgt_cqe :: "'r tgt_ops \<Rightarrow> cqe \<Rightarrow> 'r ublk_queue \<Rightarrow> fault + 'r ublk_queue" where
  "ublksrv_handle_tgt_cqe ops cqe q =
     (case tgt_io_done ops of
        None \<Rightarrow> Inr q
      | Some io_done \<Rightarrow> io_done (utag (cqe_user_data cqe)) cqe q)"

text \<open>
  \<open>fetch\<close> is computed before anything is changed; \<open>ublk_assert(tag < q->q_depth)\<close> guards the
  call of the target.
\<close>

definition ublk_handle_cqe ::
  "abi \<Rightarrow> 'r tgt_ops \<Rightarrow> (nat \<Rightarrow> iod) \<Rightarrow> cqe \<Rightarrow> 'r ublk_queue \<Rightarrow> fault + 'r ublk_queue" where
  "ublk_handle_cqe A ops iods cqe q =
     (let tag = utag (cqe_user_data cqe);
          fetch = (cqe_res cqe \<noteq> abi_res_abort A \<and> \<not> queue_stopping q) in
      if is_target_io (cqe_user_data cqe) then ublksrv_handle_tgt_cqe ops cqe q
      else let q1 = q\<lparr>cmd_inflight := cmd_inflight q - 1\<rparr> in
        seq (if fetch then Inr q1
             else with_io tag (\<lambda>io. io\<lparr>io_flags := io_flags io AND NOT UBLKSRV_NEED_FETCH_RQ\<rparr>)
                    (q1\<lparr>q_state := q_state q1 OR UBLKSRV_QUEUE_STOPPING\<rparr>))
          (\<lambda>q2. if cqe_res cqe = abi_res_ok A
                then (if tag < q_depth q2 then seq (queue_io ops iods tag q2) (\<lambda>(_, q3). Inr q3)
                      else Inl Assert_Failed)
                else with_io tag (\<lambda>io. io\<lparr>io_flags := UBLKSRV_IO_FREE\<rparr>) q2))"

fun reap_cqes ::
  "abi \<Rightarrow> 'r tgt_ops \<Rightarrow> (nat \<Rightarrow> iod) \<Rightarrow> cqe list \<Rightarrow> 'r ublk_queue \<Rightarrow> fault + 'r ublk_queue" where
  "reap_cqes A ops iods [] q = Inr q"
| "reap_cqes A ops iods (c # cs) q = seq (ublk_handle_cqe A ops iods c q) (reap_cqes A ops iods cs)"

definition ublk_reap_events_uring ::
  "abi \<Rightarrow> 'r tgt_ops \<Rightarrow> (nat \<Rightarrow> iod) \<Rightarrow> cqe list \<Rightarrow> 'r ublk_queue \<Rightarrow> fault + (int \<times> 'r ublk_queue)" where
  "ublk_reap_events_uring A ops iods cqes q =
     seq (reap_cqes A ops iods cqes q) (\<lambda>q'. Inr (int (length cqes), q'))"

section \<open>One round of the loop\<close>

text \<open>
  The environment's answer to \<open>io_uring_submit_and_wait_timeout\<close>: its return value, the
  number of entries the kernel took, the completions that are visible afterwards, and the
  descriptors found in the mapped buffer while they are handled.
\<close>

record event =
  ev_ret :: int
  ev_consumed :: nat
  ev_cqes :: "cqe list"
  ev_iods :: "nat \<Rightarrow> iod"

text \<open>The timeout argument: NULL (wait without limit) while the queue is idle.\<close>

definition process_io_timeout :: "'r ublk_queue \<Rightarrow> nat option" where
  "process_io_timeout q =
     (if q_state q AND UBLKSRV_QUEUE_IDLE \<noteq> 0 then None else Some UBLKSRV_IO_IDLE_SECS)"

definition ublk_process_io ::
  "'r uring \<Rightarrow> abi \<Rightarrow> 'r tgt_ops \<Rightarrow> u32 \<Rightarrow> event \<Rightarrow> 'r ublk_queue
   \<Rightarrow> fault + (int \<times> (u64 \<times> u32) list \<times> 'r ublk_queue)" where
  "ublk_process_io U A ops io_buf_size ev q =
     (if ublk_queue_is_done U q then Inr (- ENODEV, [], q)
      else seq (ublk_reap_events_uring A ops (ev_iods ev) (ev_cqes ev)
                  (q\<lparr>ring := consume U (ev_consumed ev) (ring q)\<rparr>))
        (\<lambda>(reapped, q2).
          if \<not> queue_stopping q2
          then (if ev_ret ev = - ETIME \<and> reapped = 0 \<and> ublk_queue_is_idle U q2
                then (let (advice, q3) = ublk_queue_idle_enter io_buf_size q2
                      in Inr (reapped, advice, q3))
                else Inr (reapped, [], ublk_queue_idle_exit q2))
          else Inr (reapped, [], q2)))"

text \<open>
  The \<open>do ... while (1)\<close> loop of \<open>ublk_io_handler_fn\<close>, run on the events it is answered
  with: it has left the loop, or it is about to wait for the next event.
\<close>

datatype 'r loop_result = Exited "'r ublk_queue" | Waiting "'r ublk_queue"

fun io_loop ::
  "'r uring \<Rightarrow> abi \<Rightarrow> 'r tgt_ops \<Rightarrow> u32 \<Rightarrow> event list \<Rightarrow> 'r ublk_queue \<Rightarrow> fault + 'r loop_result" where
  "io_loop U A ops sz [] q = Inr (Waiting q)"
| "io_loop U A ops sz (ev # evs) q =
     seq (ublk_process_io U A ops sz ev q)
       (\<lambda>(ret, _, q'). if ret < 0 then Inr (Exited q') else io_loop U A ops sz evs q')"

section \<open>The environment\<close>

text \<open>
  An event is possible when the kernel takes at most what was submitted, completes only what
  it holds, delivers only requests the target was set up for, and times out only when it was
  given a timeout. \<open>K\<close> holds the cookies of the submissions the kernel has taken and not
  completed.
\<close>

definition taken :: "'r uring \<Rightarrow> event \<Rightarrow> 'r ublk_queue \<Rightarrow> u64 multiset" where
  "taken U ev q = mset (map sqe_user_data (take (ev_consumed ev) (sq_view U (ring q))))"

definition reaped :: "event \<Rightarrow> u64 multiset" where
  "reaped ev = mset (map cqe_user_data (ev_cqes ev))"

definition event_ok ::
  "'r uring \<Rightarrow> abi \<Rightarrow> (abi \<Rightarrow> iod \<Rightarrow> bool) \<Rightarrow> u64 multiset \<Rightarrow> 'r ublk_queue \<Rightarrow> event \<Rightarrow> bool" where
  "event_ok U A request K q ev \<longleftrightarrow>
     ev_consumed ev \<le> length (sq_view U (ring q)) \<and>
     reaped ev \<subseteq># K + taken U ev q \<and>
     (\<forall>c \<in> set (ev_cqes ev). cqe_res c = abi_res_ok A \<and> \<not> is_target_io (cqe_user_data c)
        \<longrightarrow> request A (ev_iods ev (utag (cqe_user_data c)))) \<and>
     (ev_ret ev = - ETIME \<longrightarrow> process_io_timeout q \<noteq> None)"

inductive queue_step ::
  "'r uring \<Rightarrow> abi \<Rightarrow> 'r tgt_ops \<Rightarrow> (abi \<Rightarrow> iod \<Rightarrow> bool) \<Rightarrow> u32 \<Rightarrow>
   u64 multiset \<times> 'r ublk_queue \<Rightarrow> u64 multiset \<times> 'r ublk_queue \<Rightarrow> bool"
  for U A ops request sz where
  round: "\<lbrakk>\<not> ublk_queue_is_done U q; event_ok U A request K q ev;
           ublk_process_io U A ops sz ev q = Inr (ret, advice, q')\<rbrakk>
          \<Longrightarrow> queue_step U A ops request sz (K, q) (K + taken U ev q - reaped ev, q')"

inductive_cases queue_stepE: "queue_step U A ops request sz (K, q) (K', q')"

text \<open>
  The state \<open>ublk_queue_init\<close> leaves behind when it succeeds, and the states reached from it
  after the initial fetch commands.
\<close>

definition queue_fresh :: "'r uring \<Rightarrow> 'r ublk_queue \<Rightarrow> bool" where
  "queue_fresh U q \<longleftrightarrow>
     length (ios q) = UBLK_QUEUE_DEPTH \<and> q_depth q \<le> UBLK_QUEUE_DEPTH \<and>
     (\<forall>t < q_depth q. io_flags (ios q ! t) = UBLKSRV_NEED_FETCH_RQ OR UBLKSRV_IO_FREE) \<and>
     cmd_inflight q = 0 \<and> io_inflight q = 0 \<and> q_state q = 0 \<and> sq_view U (ring q) = []"

inductive queue_reach ::
  "'r uring \<Rightarrow> abi \<Rightarrow> 'r tgt_ops \<Rightarrow> (abi \<Rightarrow> iod \<Rightarrow> bool) \<Rightarrow> u32 \<Rightarrow> nat \<Rightarrow>
   u64 multiset \<Rightarrow> 'r ublk_queue \<Rightarrow> bool"
  for U A ops request sz n where
  start: "\<lbrakk>queue_fresh U q; q_depth q \<le> n; ublk_submit_fetch_commands U A q = Inr q'\<rbrakk>
          \<Longrightarrow> queue_reach U A ops request sz n {#} q'"
| step: "\<lbrakk>queue_reach U A ops request sz n K q; queue_step U A ops request sz (K, q) (K', q')\<rbrakk>
          \<Longrightarrow> queue_reach U A ops request sz n K' q'"

section \<open>The initial fetch\<close>

lemma queue_fresh_inv: "queue_fresh U q \<Longrightarrow> queue_inv U {#} {} 0 q"
  by (auto simp: queue_fresh_def queue_inv_def owners_def outstanding_def ublk_flags)

text \<open>
  Issuing the fetch commands of the tags \<open>i, ..., depth - 1\<close> queues one command for each, in
  order.
\<close>

lemma submit_fetch_from_inv:
  assumes ring: "uring_ok U n" and abi: "abi_ok A" and inv: "queue_inv U {#} {} 0 q" and n: "q_depth q \<le> n"
    and i: "i \<le> q_depth q"
    and fl: "\<forall>t < q_depth q. io_flags (ios q ! t) = (if i \<le> t then 5 else 0)"
  shows "\<exists>q' ss. submit_fetch_from U A [i..<q_depth q] q = Inr q' \<and> queue_inv U {#} {} 0 q'
    \<and> sq_view U (ring q') = sq_view U (ring q) @ ss \<and> map (utag \<circ> sqe_user_data) ss = [i..<q_depth q]
    \<and> (\<forall>s \<in> set ss. sqe_off s = ucast (abi_fetch_req A) \<and> \<not> is_target_io (sqe_user_data s)
        \<and> sqe_opcode s = Op_Uring_Cmd \<and> cmd_tag (sqe_cmd s) = word_of_nat (utag (sqe_user_data s)))
    \<and> q_depth q' = q_depth q \<and> q_state q' = q_state q \<and> io_inflight q' = io_inflight q
    \<and> (\<forall>t < q_depth q. io_flags (ios q' ! t) = 0)"
  using inv n i fl
proof (induction "q_depth q - i" arbitrary: q i)
  case 0
  then show ?case by (auto intro!: exI [of _ "[]"])
next
  case (Suc m)
  from Suc.hyps(2) have id: "i < q_depth q" by linarith
  note inv = Suc.prems(1)
  have il: "i < length (ios q)" by (rule queue_inv_depth [OF inv id])
  have i128: "i < UBLK_QUEUE_DEPTH" using il queue_invD(1) [OF inv] by simp
  have f5: "io_flags (ios q ! i) = 5" using Suc.prems(4) id by simp
  have room: "length (sq_view U (ring q)) < n"
    using queue_inv_room(1) [OF inv id] f5 Suc.prems(2) by simp
  have op5: "issue_op A 5 = abi_fetch_req A" by (simp add: issue_op_def ublk_flags)
  obtain r ud s where eq: "ublk_queue_io_cmd U A i q =
       Inr (1, q\<lparr>ring := r, ios := (ios q)[i := (ios q ! i)\<lparr>io_flags := 0\<rparr>],
                 cmd_inflight := cmd_inflight q + 1\<rparr>)"
    and view: "sq_view U r = sq_view U (ring q) @
       [fill_io_cmd A (issue_op A (io_flags (ios q ! i))) (q_id q) i (ios q ! i) ud s]"
    and ud: "utag ud = i" "\<not> is_target_io ud"
    by (rule ublk_queue_io_cmd_issue [OF ring abi il i128 _ _ room]) (simp_all add: f5 ublk_flags)
  let ?q1 = "q\<lparr>ring := r, ios := (ios q)[i := (ios q ! i)\<lparr>io_flags := 0\<rparr>], cmd_inflight := cmd_inflight q + 1\<rparr>"
  let ?s = "fill_io_cmd A (abi_fetch_req A) (q_id q) i (ios q ! i) ud s"
  have view1: "sq_view U (ring ?q1) = sq_view U (ring q) @ [?s]" using view by (simp add: f5 op5)
  have inv1: "queue_inv U {#} ({} - {i}) 0 ?q1"
    by (rule queue_inv_issued [OF inv id _ view1, where io' = "(ios q ! i)\<lparr>io_flags := 0\<rparr>"])
      (use ud f5 in simp_all)
  have fl1: "\<forall>t < q_depth ?q1. io_flags (ios ?q1 ! t) = (if Suc i \<le> t then 5 else 0)"
    using Suc.prems(4) queue_inv_depth [OF inv] il by (auto simp: nth_list_update)
  have m: "m = q_depth ?q1 - Suc i" and n1: "q_depth ?q1 \<le> n" and i1: "Suc i \<le> q_depth ?q1"
    and inv1': "queue_inv U {#} {} 0 ?q1"
    using Suc.hyps(2) Suc.prems(2) id inv1 by simp_all
  obtain q' ss where IH: "submit_fetch_from U A [Suc i..<q_depth ?q1] ?q1 = Inr q'"
    "queue_inv U {#} {} 0 q'" "sq_view U (ring q') = sq_view U (ring ?q1) @ ss"
    "map (utag \<circ> sqe_user_data) ss = [Suc i..<q_depth ?q1]"
    "\<forall>s \<in> set ss. sqe_off s = ucast (abi_fetch_req A) \<and> \<not> is_target_io (sqe_user_data s)
        \<and> sqe_opcode s = Op_Uring_Cmd \<and> cmd_tag (sqe_cmd s) = word_of_nat (utag (sqe_user_data s))"
    "q_depth q' = q_depth ?q1" "q_state q' = q_state ?q1" "io_inflight q' = io_inflight ?q1"
    "\<forall>t < q_depth ?q1. io_flags (ios q' ! t) = 0"
    using Suc.hyps(1) [OF m inv1' n1 i1 fl1] by (elim exE conjE) (rule that)
  have upt: "[i..<q_depth q] = i # [Suc i..<q_depth q]" using id by (simp add: upt_conv_Cons)
  show ?case
    by (rule exI [of _ q'], rule exI [of _ "?s # ss"])
      (use IH eq view1 ud in \<open>simp add: upt del: upt_Suc\<close>)
qed

lemma submit_fetch_fresh:
  assumes "uring_ok U n" and "abi_ok A" and "queue_fresh U q" and "q_depth q \<le> n"
  obtains q' where "ublk_submit_fetch_commands U A q = Inr q'" and "queue_inv U {#} {} 0 q'"
    and "map (utag \<circ> sqe_user_data) (sq_view U (ring q')) = [0..<q_depth q]"
    and "\<forall>s \<in> set (sq_view U (ring q')). sqe_off s = ucast (abi_fetch_req A) \<and> \<not> is_target_io (sqe_user_data s)"
    and "q_depth q' = q_depth q" and "q_state q' = 0" and "io_inflight q' = 0"
    and "\<forall>t < q_depth q. io_flags (ios q' ! t) = 0"
    and "\<forall>s \<in> set (sq_view U (ring q')). sqe_opcode s = Op_Uring_Cmd \<and> cmd_tag (sqe_cmd s) = word_of_nat (utag (sqe_user_data s))"
proof -
  have "\<forall>t < q_depth q. io_flags (ios q ! t) = (if 0 \<le> t then 5 else 0)"
    using assms(3) by (simp add: queue_fresh_def ublk_flags)
  from submit_fetch_from_inv [OF assms(1,2) queue_fresh_inv [OF assms(3)] assms(4) _ this]
  show thesis using assms(3) that
    by (auto simp: ublk_submit_fetch_commands_def queue_fresh_def)
qed

section \<open>Every event keeps the invariant\<close>

definition loop_inv :: "'r uring \<Rightarrow> 'r tgt_ops \<Rightarrow> nat \<Rightarrow> u64 multiset \<Rightarrow> 'r ublk_queue \<Rightarrow> bool" where
  "loop_inv U ops n K q \<longleftrightarrow>
     queue_inv U K {} 0 q \<and> q_depth q \<le> n \<and> (tgt_io_done ops = None \<longrightarrow> io_inflight q = 0)"

text \<open>The state word after a completion: set to stopping by an abort, never cleared.\<close>

definition stop_after :: "abi \<Rightarrow> cqe \<Rightarrow> 'r ublk_queue \<Rightarrow> u32" where
  "stop_after A c q =
     (if \<not> is_target_io (cqe_user_data c) \<and> (cqe_res c = abi_res_abort A \<or> queue_stopping q)
      then q_state q OR UBLKSRV_QUEUE_STOPPING else q_state q)"

text \<open>
  The abstract view of a tag: the driver owns it (a command for it is queued or held by the
  kernel), the target owns it (a request to the backing file is), or it is retired and no
  command will be issued for it again. A completion moves one tag, as \<open>owner_next\<close> says.
\<close>

datatype owner = Driver | Target | Retired

definition mset_owner :: "u64 multiset \<Rightarrow> nat \<Rightarrow> owner" where
  "mset_owner M t =
     (if \<exists>ud \<in># M. utag ud = t \<and> \<not> is_target_io ud then Driver
      else if \<exists>ud \<in># M. utag ud = t \<and> is_target_io ud then Target else Retired)"

definition owner_of :: "'r uring \<Rightarrow> u64 multiset \<Rightarrow> 'r ublk_queue \<Rightarrow> nat \<Rightarrow> owner" where
  "owner_of U K q t = mset_owner (outstanding U K q) t"

definition owner_next :: "bool \<Rightarrow> abi \<Rightarrow> cqe \<Rightarrow> owner" where
  "owner_next async A c =
     (if is_target_io (cqe_user_data c) then Driver
      else if cqe_res c \<noteq> abi_res_ok A then Retired
      else if async then Target else Driver)"

text \<open>What a completion adds to the outstanding submissions.\<close>

definition completion_effect :: "owner \<Rightarrow> nat \<Rightarrow> u64 multiset \<Rightarrow> bool" where
  "completion_effect ow t N \<longleftrightarrow>
     (case ow of
        Retired \<Rightarrow> N = {#}
      | Driver \<Rightarrow> \<exists>ud. N = {#ud#} \<and> utag ud = t \<and> \<not> is_target_io ud
      | Target \<Rightarrow> \<exists>ud. N = {#ud#} \<and> utag ud = t \<and> is_target_io ud)"

lemma mset_owner_absent: "t \<notin># image_mset utag M \<Longrightarrow> mset_owner M t = Retired"
  by (auto simp: mset_owner_def)

lemma mset_owner_add_other: "utag ud \<noteq> t \<Longrightarrow> mset_owner (add_mset ud M) t = mset_owner M t"
  by (auto simp: mset_owner_def)

lemma mset_owner_add_same:
  "utag ud = t \<Longrightarrow> t \<notin># image_mset utag M \<Longrightarrow>
   mset_owner (add_mset ud M) t = (if is_target_io ud then Target else Driver)"
  by (auto simp: mset_owner_def image_iff)

lemma mset_owner_effect:
  assumes "completion_effect ow t N" and "t \<notin># image_mset utag M"
  shows "mset_owner (M + N) t' = (if t' = t then ow else mset_owner M t')"
  using assms
  by (cases ow) (auto simp: completion_effect_def mset_owner_absent mset_owner_add_other
      mset_owner_add_same)

lemma queue_inv_state [simp]: "queue_inv U K S e (q\<lparr>q_state := w\<rparr>) = queue_inv U K S e q"
  by (simp add: queue_inv_def owners_def)

lemma with_io_clear_fetch:
  assumes "tag < length (ios q)" and "io_flags (ios q ! tag) = 0"
  shows "with_io tag (\<lambda>io. io\<lparr>io_flags := io_flags io AND NOT UBLKSRV_NEED_FETCH_RQ\<rparr>) q = Inr q"
proof -
  have io: "(ios q ! tag)\<lparr>io_flags := 0\<rparr> = ios q ! tag"
    using assms(2) by (cases "ios q ! tag") simp
  have "q\<lparr>ios := ios q\<rparr> = q" by simp
  then show ?thesis using assms by (simp add: with_io_def io)
qed

text \<open>A command completion, up to the call of the target: the tag is served, nothing failed.\<close>

lemma command_completion:
  assumes inv: "queue_inv U K {} 0 q" and ud: "cqe_user_data c \<in># K"
    and cmd: "\<not> is_target_io (cqe_user_data c)"
  defines "t \<equiv> utag (cqe_user_data c)"
  obtains q2 where
    "ublk_handle_cqe A ops iods c q =
       (if cqe_res c = abi_res_ok A then seq (queue_io ops iods t q2) (\<lambda>(_, q3). Inr q3)
        else with_io t (\<lambda>io. io\<lparr>io_flags := UBLKSRV_IO_FREE\<rparr>) q2)"
    and "queue_inv U (K - {#cqe_user_data c#}) {t} 0 q2" and "io_flags (ios q2 ! t) = 0"
    and "q_depth q2 = q_depth q" and "q_state q2 = stop_after A c q"
    and "io_inflight q2 = io_inflight q" and "ring q2 = ring q" and "ios q2 = ios q" and "t < q_depth q"
proof -
  let ?q1 = "q\<lparr>cmd_inflight := cmd_inflight q - 1\<rparr>"
  have q1: "queue_inv U (K - {#cqe_user_data c#}) {t} 0 ?q1" "t < q_depth q" "io_flags (ios q ! t) = 0"
    unfolding t_def
    using queue_inv_completed [OF inv ud, of ?q1 0] cmd by auto
  have tl: "t < length (ios q)" by (rule queue_inv_depth [OF inv q1(2)])
  let ?q2 = "if cqe_res c \<noteq> abi_res_abort A \<and> \<not> queue_stopping q then ?q1
             else ?q1\<lparr>q_state := q_state ?q1 OR UBLKSRV_QUEUE_STOPPING\<rparr>"
  have clear: "with_io t (\<lambda>io. io\<lparr>io_flags := io_flags io AND NOT UBLKSRV_NEED_FETCH_RQ\<rparr>)
      (?q1\<lparr>q_state := q_state ?q1 OR UBLKSRV_QUEUE_STOPPING\<rparr>) =
      Inr (?q1\<lparr>q_state := q_state ?q1 OR UBLKSRV_QUEUE_STOPPING\<rparr>)"
    using tl q1(3) by (intro with_io_clear_fetch) simp_all
  have handle: "ublk_handle_cqe A ops iods c q =
       (if cqe_res c = abi_res_ok A then seq (queue_io ops iods t ?q2) (\<lambda>(_, q3). Inr q3)
        else with_io t (\<lambda>io. io\<lparr>io_flags := UBLKSRV_IO_FREE\<rparr>) ?q2)"
    using cmd clear q1(2) by (auto simp: ublk_handle_cqe_def Let_def t_def)
  show thesis
    by (rule that [OF handle]) (use q1 cmd in \<open>auto simp: stop_after_def\<close>)
qed

lemma loop_inv_no_target:
  assumes "loop_inv U ops n K q" and "tgt_io_done ops = None" and "ud \<in># K"
  shows "\<not> is_target_io ud"
proof -
  have "size {#x \<in># outstanding U K q. is_target_io x#} = 0"
    using assms(1,2) queue_invD(6) [of U K "{}" 0 q] by (simp add: loop_inv_def)
  then have "ud \<notin># {#x \<in># outstanding U K q. is_target_io x#}" by simp
  moreover have "ud \<in># outstanding U K q" using assms(3) by (simp add: outstanding_def)
  ultimately show ?thesis by simp
qed

context ublk_target
begin

lemma handle_cqe_keeps:
  assumes ring: "uring_ok U n" and abi: "abi_ok A"
    and inv: "loop_inv U (ops U A) n K q" and ud: "cqe_user_data c \<in># K"
    and req: "cqe_res c = abi_res_ok A \<Longrightarrow> \<not> is_target_io (cqe_user_data c) \<Longrightarrow>
                request A (iods (utag (cqe_user_data c)))"
  shows "\<exists>q'. ublk_handle_cqe A (ops U A) iods c q = Inr q'
           \<and> loop_inv U (ops U A) n (K - {#cqe_user_data c#}) q'
           \<and> q_depth q' = q_depth q \<and> q_state q' = stop_after A c q
           \<and> (\<forall>i. i \<noteq> utag (cqe_user_data c) \<longrightarrow> ios q' ! i = ios q ! i)
           \<and> (\<exists>N. outstanding U (K - {#cqe_user_data c#}) q' = outstanding U (K - {#cqe_user_data c#}) q + N
                \<and> completion_effect (owner_next (tgt_io_done (ops U A) \<noteq> None) A c)
                     (utag (cqe_user_data c)) N)"
proof (cases "is_target_io (cqe_user_data c)")
  case True
  have qi: "queue_inv U K {} 0 q" and n: "q_depth q \<le> n" using inv by (simp_all add: loop_inv_def)
  obtain d where d: "tgt_io_done (ops U A) = Some d"
    using loop_inv_no_target [OF inv _ ud] True by (cases "tgt_io_done (ops U A)") auto
  have "queue_inv U (K - {#cqe_user_data c#}) {utag (cqe_user_data c)} 1 q"
    and "io_flags (ios q ! utag (cqe_user_data c)) = 0"
    using queue_inv_completed [OF qi ud, of q 1] True by simp_all
  from io_done_serves [OF ring abi this(1) n this(2) d]
  obtain q' where q': "d (utag (cqe_user_data c)) c q = Inr q'"
    "queue_inv U (K - {#cqe_user_data c#}) {} 0 q'" "served U (utag (cqe_user_data c)) False q q'"
    by blast
  show ?thesis
    using q'(1,2) servedD(1-3) [OF q'(3)] servedD(4) [OF q'(3), of "K - {#cqe_user_data c#}"] True n
    by (auto simp: ublk_handle_cqe_def ublksrv_handle_tgt_cqe_def d loop_inv_def
        stop_after_def owner_next_def completion_effect_def intro!: exI [of _ q'])
next
  case False
  have qi: "queue_inv U K {} 0 q" and n: "q_depth q \<le> n" using inv by (simp_all add: loop_inv_def)
  let ?t = "utag (cqe_user_data c)" and ?K = "K - {#cqe_user_data c#}"
  obtain q2 where h: "ublk_handle_cqe A (ops U A) iods c q =
       (if cqe_res c = abi_res_ok A then seq (queue_io (ops U A) iods ?t q2) (\<lambda>(_, q3). Inr q3)
        else with_io ?t (\<lambda>io. io\<lparr>io_flags := UBLKSRV_IO_FREE\<rparr>) q2)"
    and q2: "queue_inv U ?K {?t} 0 q2" "io_flags (ios q2 ! ?t) = 0"
    "q_depth q2 = q_depth q" "q_state q2 = stop_after A c q" "io_inflight q2 = io_inflight q"
    "ring q2 = ring q" "ios q2 = ios q"
    and td: "?t < q_depth q"
    by (rule command_completion [OF qi ud False])
  show ?thesis
  proof (cases "cqe_res c = abi_res_ok A")
    case True
    from queue_io_serves [OF ring abi q2(1) _ q2(2), where iods = iods] req [OF True False] n q2(3)
    obtain q' where q': "queue_io (ops U A) iods ?t q2 = Inr (0, q')" "queue_inv U ?K {} 0 q'"
      and sv: "served U ?t (tgt_io_done (ops U A) \<noteq> None) q2 q'"
      and none: "tgt_io_done (ops U A) = None \<longrightarrow> io_inflight q' = io_inflight q2"
      by auto
    have "outstanding U ?K q2 = outstanding U ?K q" by (simp add: outstanding_def q2)
    with servedD(4) [OF sv, of ?K] obtain ud where
      "outstanding U ?K q' = outstanding U ?K q + {#ud#}" "utag ud = ?t"
      "is_target_io ud = (tgt_io_done (ops U A) \<noteq> None)" by auto
    then have "\<exists>N. outstanding U ?K q' = outstanding U ?K q + N
        \<and> completion_effect (owner_next (tgt_io_done (ops U A) \<noteq> None) A c) ?t N"
      by (intro exI [of _ "{#ud#}"])
        (use True False in \<open>simp add: owner_next_def completion_effect_def\<close>)
    moreover have "ublk_handle_cqe A (ops U A) iods c q = Inr q'" using h True q' by simp
    moreover have "loop_inv U (ops U A) n ?K q'"
      using inv n none q' q2 servedD(1) [OF sv] by (simp add: loop_inv_def)
    ultimately show ?thesis using servedD(1-3) [OF sv] q2 by auto
  next
    case False
    have tl: "?t < length (ios q2)" using queue_inv_depth [OF q2(1)] td q2(3) by simp
    have "queue_inv U ?K {} 0 (q2\<lparr>ios := (ios q2)[?t := (ios q2 ! ?t)\<lparr>io_flags := UBLKSRV_IO_FREE\<rparr>]\<rparr>)"
      using queue_inv_freed [OF q2(1), of ?t] by simp
    then show ?thesis using h False \<open>\<not> is_target_io _\<close> q2 inv n tl
      by (auto simp: loop_inv_def with_io_def owner_next_def completion_effect_def outstanding_def)
  qed
qed

lemma handle_cqe_retired:
  assumes inv: "loop_inv U (ops U A) n K q" and ud: "cqe_user_data c \<in># K"
    and frame: "\<forall>i. i \<noteq> utag (cqe_user_data c) \<longrightarrow> ios q' ! i = ios q ! i"
    and t: "io_flags (ios q ! t) \<noteq> 0"
  shows "ios q' ! t = ios q ! t"
proof -
  have "queue_inv U K {} 0 q" using inv by (simp add: loop_inv_def)
  from queue_inv_completed(4) [OF this ud refl refl]
  have "t \<noteq> utag (cqe_user_data c)" using t by auto
  then show ?thesis using frame by simp
qed

lemma reap_cqes_keeps:
  assumes ring: "uring_ok U n" and abi: "abi_ok A"
  shows "\<lbrakk>loop_inv U (ops U A) n K q; mset (map cqe_user_data cs) \<subseteq># K;
      \<forall>c \<in> set cs. cqe_res c = abi_res_ok A \<and> \<not> is_target_io (cqe_user_data c)
        \<longrightarrow> request A (iods (utag (cqe_user_data c)))\<rbrakk>
    \<Longrightarrow> \<exists>q'. reap_cqes A (ops U A) iods cs q = Inr q'
          \<and> loop_inv U (ops U A) n (K - mset (map cqe_user_data cs)) q' \<and> q_depth q' = q_depth q
          \<and> (queue_stopping q \<longrightarrow> queue_stopping q')
          \<and> (\<forall>t. io_flags (ios q ! t) \<noteq> 0 \<longrightarrow> ios q' ! t = ios q ! t)"
proof (induction cs arbitrary: K q)
  case Nil
  then show ?case by simp
next
  case (Cons c cs)
  have cK: "cqe_user_data c \<in># K" using Cons.prems(2) by (auto dest: mset_subset_eqD)
  have sub: "mset (map cqe_user_data cs) \<subseteq># K - {#cqe_user_data c#}"
    using Cons.prems(2) by (simp add: insert_subset_eq_iff)
  obtain q1 where q1: "ublk_handle_cqe A (ops U A) iods c q = Inr q1"
    "loop_inv U (ops U A) n (K - {#cqe_user_data c#}) q1" "q_depth q1 = q_depth q"
    "q_state q1 = stop_after A c q" "\<forall>i. i \<noteq> utag (cqe_user_data c) \<longrightarrow> ios q1 ! i = ios q ! i"
    using handle_cqe_keeps [OF ring abi Cons.prems(1) cK, where iods = iods] Cons.prems(3) by auto
  have stop: "queue_stopping q \<longrightarrow> queue_stopping q1"
    using q1(4) by (auto simp: queue_stopping_bit stop_after_def bit_or_iff)
  have ret: "\<forall>t. io_flags (ios q ! t) \<noteq> 0 \<longrightarrow> ios q1 ! t = ios q ! t"
    using handle_cqe_retired [OF Cons.prems(1) cK q1(5)] by blast
  from Cons.prems(3) have req: "\<forall>c \<in> set cs. cqe_res c = abi_res_ok A \<and> \<not> is_target_io (cqe_user_data c)
        \<longrightarrow> request A (iods (utag (cqe_user_data c)))" by simp
  obtain q' where "reap_cqes A (ops U A) iods cs q1 = Inr q'"
    "loop_inv U (ops U A) n (K - {#cqe_user_data c#} - mset (map cqe_user_data cs)) q'"
    "q_depth q' = q_depth q1" "queue_stopping q1 \<longrightarrow> queue_stopping q'"
    "\<forall>t. io_flags (ios q1 ! t) \<noteq> 0 \<longrightarrow> ios q' ! t = ios q1 ! t"
    using Cons.IH [OF q1(2) sub req] by blast
  then show ?case using q1 stop ret by (intro exI [of _ q']) auto
qed

end

end
