(* ===== verification/Ublk_Loop.thy ===== *)
theory Ublk_Loop
  imports Ublk_Event
begin

text \<open>
  Whole rounds and whole runs of the event loop of \<open>miniublk.c\<close>: the invariant in every
  reachable state, for any target that provides \<open>ublk_target\<close>, and what follows for the null
  and the loop target: no fault, idle and exit only when nothing is being served, orderly
  shutdown, and the results that reach the driver.
\<close>

section \<open>Submission moves cookies to the kernel\<close>

lemma outstanding_consume:
  assumes "uring_ok U n"
  shows "outstanding U (K + taken U ev q) (q\<lparr>ring := consume U (ev_consumed ev) (ring q)\<rparr>)
    = outstanding U K q"
proof -
  let ?v = "sq_view U (ring q)" and ?k = "ev_consumed ev"
  have "mset (map sqe_user_data ?v) =
      mset (map sqe_user_data (take ?k ?v)) + mset (map sqe_user_data (drop ?k ?v))"
    by (metis append_take_drop_id map_append mset_append)
  then show ?thesis
    by (simp add: outstanding_def taken_def uring_consume [OF assms])
qed

lemma loop_inv_consume:
  assumes "uring_ok U n"
  shows "loop_inv U ops n (K + taken U ev q) (q\<lparr>ring := consume U (ev_consumed ev) (ring q)\<rparr>)
    = loop_inv U ops n K q"
  by (simp add: loop_inv_def queue_inv_def owners_def outstanding_consume [OF assms])

lemma loop_inv_state [simp]: "loop_inv U ops n K (q\<lparr>q_state := w\<rparr>) = loop_inv U ops n K q"
  by (simp add: loop_inv_def)

section \<open>Idle bookkeeping\<close>

lemma idle_enter_frame:
  assumes "ublk_queue_idle_enter sz q = (adv, q')"
  obtains w where "q' = q\<lparr>q_state := w\<rparr>" and "bit w 0 = bit (q_state q) 0"
    and "adv = [] \<or> adv = ublk_queue_discard_io_pages sz q"
proof (cases "q_state q AND UBLKSRV_QUEUE_IDLE \<noteq> 0")
  case True
  then show thesis using assms that [of "q_state q"] by (simp add: ublk_queue_idle_enter_def)
next
  case False
  have "bit UBLKSRV_QUEUE_IDLE 0 = False" by (simp add: ublk_flags)
  then show thesis
    using assms that [of "q_state q OR UBLKSRV_QUEUE_IDLE"] False
    by (simp add: ublk_queue_idle_enter_def bit_or_iff)
qed

lemma idle_exit_frame:
  obtains w where "ublk_queue_idle_exit q = q\<lparr>q_state := w\<rparr>" and "bit w 0 = bit (q_state q) 0"
proof (cases "q_state q AND UBLKSRV_QUEUE_IDLE \<noteq> 0")
  case True
  have "bit (NOT UBLKSRV_QUEUE_IDLE) 0" by (simp add: ublk_flags)
  then show thesis
    using that [of "q_state q AND NOT UBLKSRV_QUEUE_IDLE"] True
    by (simp add: ublk_queue_idle_exit_def bit_and_iff)
next
  case False
  then show thesis using that [of "q_state q"] by (simp add: ublk_queue_idle_exit_def)
qed

section \<open>One round\<close>

text \<open>Pages are discarded only in a round that saw nothing, with nothing queued or served.\<close>

definition advice_ok :: "'r uring \<Rightarrow> u32 \<Rightarrow> event \<Rightarrow> (u64 \<times> u32) list \<Rightarrow> 'r ublk_queue \<Rightarrow> bool" where
  "advice_ok U sz ev advice q \<longleftrightarrow>
     advice = [] \<or>
     (ev_cqes ev = [] \<and> \<not> queue_stopping q \<and> ublk_queue_is_idle U q \<and>
      advice = ublk_queue_discard_io_pages sz q)"

lemma process_io_reaped:
  assumes "\<not> ublk_queue_is_done U q"
    and reap: "reap_cqes A ops (ev_iods ev) (ev_cqes ev) (q\<lparr>ring := consume U (ev_consumed ev) (ring q)\<rparr>) = Inr q2"
  obtains advice w where
    "ublk_process_io U A ops sz ev q = Inr (int (length (ev_cqes ev)), advice, q2\<lparr>q_state := w\<rparr>)"
    and "bit w 0 = bit (q_state q2) 0" and "advice_ok U sz ev advice (q2\<lparr>q_state := w\<rparr>)"
proof -
  obtain adv q3 where e: "ublk_queue_idle_enter sz q2 = (adv, q3)" by fastforce
  obtain w1 where w1: "q3 = q2\<lparr>q_state := w1\<rparr>" "bit w1 0 = bit (q_state q2) 0"
      "adv = [] \<or> adv = ublk_queue_discard_io_pages sz q2"
    by (rule idle_enter_frame [OF e])
  obtain w2 where w2: "ublk_queue_idle_exit q2 = q2\<lparr>q_state := w2\<rparr>" "bit w2 0 = bit (q_state q2) 0"
    by (rule idle_exit_frame)
  show thesis
  proof (cases "\<not> queue_stopping q2 \<and> ev_ret ev = - ETIME \<and> ev_cqes ev = [] \<and> ublk_queue_is_idle U q2")
    case True
    show thesis
    proof (rule that [of adv w1])
      show "ublk_process_io U A ops sz ev q = Inr (int (length (ev_cqes ev)), adv, q2\<lparr>q_state := w1\<rparr>)"
        using assms True e w1 by (simp add: ublk_process_io_def ublk_reap_events_uring_def)
      show "advice_ok U sz ev adv (q2\<lparr>q_state := w1\<rparr>)"
        using True w1 by (auto simp: advice_ok_def queue_stopping_bit ublk_queue_is_idle_def
            ublk_queue_discard_io_pages_def)
    qed (rule w1(2))
  next
    case False
    show thesis
    proof (cases "queue_stopping q2")
      case True
      then show thesis
        using that [of "[]" "q_state q2"] assms
        by (simp add: ublk_process_io_def ublk_reap_events_uring_def advice_ok_def)
    next
      case st: False
      then show thesis
        using that [of "[]" w2] assms False w2
        by (auto simp: ublk_process_io_def ublk_reap_events_uring_def advice_ok_def)
    qed
  qed
qed

definition retained :: "'r ublk_queue \<Rightarrow> 'r ublk_queue \<Rightarrow> bool" where
  "retained q q' \<longleftrightarrow>
     q_depth q' = q_depth q \<and> (queue_stopping q \<longrightarrow> queue_stopping q') \<and>
     (\<forall>t. io_flags (ios q ! t) \<noteq> 0 \<longrightarrow> ios q' ! t = ios q ! t)"

context ublk_target
begin

lemma process_io_keeps:
  assumes ring: "uring_ok U n" and abi: "abi_ok A" and inv: "loop_inv U (ops U A) n K q"
    and ev: "event_ok U A request K q ev" and nd: "\<not> ublk_queue_is_done U q"
  shows "\<exists>advice q'. ublk_process_io U A (ops U A) sz ev q = Inr (int (length (ev_cqes ev)), advice, q')
    \<and> loop_inv U (ops U A) n (K + taken U ev q - reaped ev) q' \<and> retained q q'
    \<and> advice_ok U sz ev advice q'"
proof -
  let ?q1 = "q\<lparr>ring := consume U (ev_consumed ev) (ring q)\<rparr>"
  have inv1: "loop_inv U (ops U A) n (K + taken U ev q) ?q1"
    by (simp add: loop_inv_consume [OF ring] inv)
  have sub: "mset (map cqe_user_data (ev_cqes ev)) \<subseteq># K + taken U ev q"
    using ev by (simp add: event_ok_def reaped_def)
  have req: "\<forall>c \<in> set (ev_cqes ev). cqe_res c = abi_res_ok A \<and> \<not> is_target_io (cqe_user_data c)
        \<longrightarrow> request A (ev_iods ev (utag (cqe_user_data c)))"
    using ev by (simp add: event_ok_def)
  obtain q2 where q2: "reap_cqes A (ops U A) (ev_iods ev) (ev_cqes ev) ?q1 = Inr q2"
    "loop_inv U (ops U A) n (K + taken U ev q - reaped ev) q2" "q_depth q2 = q_depth ?q1"
    "queue_stopping ?q1 \<longrightarrow> queue_stopping q2"
    "\<forall>t. io_flags (ios ?q1 ! t) \<noteq> 0 \<longrightarrow> ios q2 ! t = ios ?q1 ! t"
    using reap_cqes_keeps [OF ring abi inv1 sub req] by (auto simp: reaped_def)
  obtain advice w where
    "ublk_process_io U A (ops U A) sz ev q = Inr (int (length (ev_cqes ev)), advice, q2\<lparr>q_state := w\<rparr>)"
    "bit w 0 = bit (q_state q2) 0" "advice_ok U sz ev advice (q2\<lparr>q_state := w\<rparr>)"
    by (rule process_io_reaped [OF nd q2(1), of sz])
  then show ?thesis using q2 by (auto simp: retained_def queue_stopping_bit)
qed

lemma queue_step_keeps:
  assumes ring: "uring_ok U n" and abi: "abi_ok A" and inv: "loop_inv U (ops U A) n K q"
    and step: "queue_step U A (ops U A) request sz (K, q) (K', q')"
  shows "loop_inv U (ops U A) n K' q' \<and> retained q q'"
proof -
  from step obtain ev ret advice where nd: "\<not> ublk_queue_is_done U q"
    and ev: "event_ok U A request K q ev"
    and p: "ublk_process_io U A (ops U A) sz ev q = Inr (ret, advice, q')"
    and K': "K' = K + taken U ev q - reaped ev"
    by (rule queue_stepE)
  from process_io_keeps [OF ring abi inv ev nd, of sz] p K' show ?thesis by simp
qed

lemma reach_inv:
  assumes ring: "uring_ok U n" and abi: "abi_ok A"
    and reach: "queue_reach U A (ops U A) request sz n K q"
  shows "loop_inv U (ops U A) n K q"
  using reach
proof (induction rule: queue_reach.induct)
  case (start q q')
  obtain q0 where "ublk_submit_fetch_commands U A q = Inr q0" "queue_inv U {#} {} 0 q0"
    "q_depth q0 = q_depth q" "io_inflight q0 = 0"
    by (rule submit_fetch_fresh [OF ring abi start(1,2)])
  then show ?case using start by (simp add: loop_inv_def)
next
  case (step K q K' q')
  then show ?case using queue_step_keeps [OF ring abi] by blast
qed

lemma reach_progress:
  assumes ring: "uring_ok U n" and abi: "abi_ok A"
    and reach: "queue_reach U A (ops U A) request sz n K q"
    and ev: "event_ok U A request K q ev" and nd: "\<not> ublk_queue_is_done U q"
  shows "\<exists>advice q'. ublk_process_io U A (ops U A) sz ev q = Inr (int (length (ev_cqes ev)), advice, q')
    \<and> queue_reach U A (ops U A) request sz n (K + taken U ev q - reaped ev) q' \<and> retained q q'
    \<and> advice_ok U sz ev advice q'"
proof -
  obtain advice q' where p: "ublk_process_io U A (ops U A) sz ev q = Inr (int (length (ev_cqes ev)), advice, q')"
    and r: "retained q q'" "advice_ok U sz ev advice q'"
    using process_io_keeps [OF ring abi reach_inv [OF ring abi reach] ev nd] by blast
  have "queue_step U A (ops U A) request sz (K, q) (K + taken U ev q - reaped ev, q')"
    using nd ev p by (rule queue_step.round)
  with reach have "queue_reach U A (ops U A) request sz n (K + taken U ev q - reaped ev) q'"
    by (rule queue_reach.step)
  with p r show ?thesis by blast
qed

end

section \<open>The abstract owner of a tag\<close>

lemma completion_moves_owner:
  assumes inv: "loop_inv U ops n K q" and ud: "cqe_user_data c \<in># K"
    and out: "outstanding U (K - {#cqe_user_data c#}) q' = outstanding U (K - {#cqe_user_data c#}) q + N"
    and N: "completion_effect ow (utag (cqe_user_data c)) N"
  shows "owner_of U K q (utag (cqe_user_data c)) = (if is_target_io (cqe_user_data c) then Target else Driver)
    \<and> (\<forall>t. owner_of U (K - {#cqe_user_data c#}) q' t =
           (if t = utag (cqe_user_data c) then ow else owner_of U K q t))"
proof -
  let ?M = "outstanding U (K - {#cqe_user_data c#}) q" and ?t = "utag (cqe_user_data c)"
  have add: "outstanding U K q = add_mset (cqe_user_data c) ?M"
    using ud by (simp add: outstanding_def)
  have "queue_inv U K {} 0 q" using inv by (simp add: loop_inv_def)
  from queue_invD(3) [OF this, of ?t] have "count (image_mset utag ?M) ?t = 0"
    by (auto simp: owners_def add of_bool_def split: if_splits)
  then have abs: "?t \<notin># image_mset utag ?M" by (simp add: count_eq_zero_iff)
  show ?thesis
    using mset_owner_effect [OF N abs] mset_owner_add_same [OF refl abs]
    by (auto simp: owner_of_def out add mset_owner_add_other)
qed

context ublk_target
begin

lemma handle_cqe_refines:
  assumes ring: "uring_ok U n" and abi: "abi_ok A"
    and reach: "queue_reach U A (ops U A) request sz n K q" and ud: "cqe_user_data c \<in># K"
    and req: "cqe_res c = abi_res_ok A \<longrightarrow> \<not> is_target_io (cqe_user_data c) \<longrightarrow>
                request A (iods (utag (cqe_user_data c)))"
  shows "\<exists>q'. ublk_handle_cqe A (ops U A) iods c q = Inr q'
    \<and> owner_of U K q (utag (cqe_user_data c)) = (if is_target_io (cqe_user_data c) then Target else Driver)
    \<and> (\<forall>t. owner_of U (K - {#cqe_user_data c#}) q' t =
           (if t = utag (cqe_user_data c) then owner_next (tgt_io_done (ops U A) \<noteq> None) A c
            else owner_of U K q t))"
proof -
  have inv: "loop_inv U (ops U A) n K q" by (rule reach_inv [OF ring abi reach])
  obtain q' N where q': "ublk_handle_cqe A (ops U A) iods c q = Inr q'"
    and N: "outstanding U (K - {#cqe_user_data c#}) q' = outstanding U (K - {#cqe_user_data c#}) q + N"
      "completion_effect (owner_next (tgt_io_done (ops U A) \<noteq> None) A c) (utag (cqe_user_data c)) N"
    using handle_cqe_keeps [OF ring abi inv ud, where iods = iods] req by blast
  from completion_moves_owner [OF inv ud N] q' show ?thesis by blast
qed

end

section \<open>Shutdown\<close>

text \<open>Aborted commands are retired without a new submission, and stop the queue.\<close>

lemma handle_abort:
  assumes abi: "abi_ok A" and inv: "queue_inv U K {} 0 q" and ud: "cqe_user_data c \<in># K"
    and cmd: "\<not> is_target_io (cqe_user_data c)" and res: "cqe_res c = abi_res_abort A"
  obtains q' where "ublk_handle_cqe A ops iods c q = Inr q'"
    and "queue_inv U (K - {#cqe_user_data c#}) {} 0 q'" and "ring q' = ring q"
    and "io_inflight q' = io_inflight q" and "queue_stopping q'"
proof -
  let ?t = "utag (cqe_user_data c)" and ?K = "K - {#cqe_user_data c#}"
  obtain q2 where h: "ublk_handle_cqe A ops iods c q =
       (if cqe_res c = abi_res_ok A then seq (queue_io ops iods ?t q2) (\<lambda>(_, q3). Inr q3)
        else with_io ?t (\<lambda>io. io\<lparr>io_flags := UBLKSRV_IO_FREE\<rparr>) q2)"
    and q2: "queue_inv U ?K {?t} 0 q2" "q_depth q2 = q_depth q" "q_state q2 = stop_after A c q"
      "io_inflight q2 = io_inflight q" "ring q2 = ring q" "?t < q_depth q"
    by (rule command_completion [OF inv ud cmd])
  have tl: "?t < length (ios q2)" using queue_inv_depth [OF q2(1)] q2(2,6) by simp
  let ?q' = "q2\<lparr>ios := (ios q2)[?t := (ios q2 ! ?t)\<lparr>io_flags := UBLKSRV_IO_FREE\<rparr>]\<rparr>"
  have "queue_inv U ?K {} 0 ?q'" using queue_inv_freed [OF q2(1), of ?t] by simp
  moreover have "queue_stopping ?q'"
    using q2(3) cmd res by (simp add: queue_stopping_bit stop_after_def bit_or_iff ublk_flags)
  ultimately show thesis
    using h res abi tl q2 by (intro that [of ?q']) (auto simp: abi_ok_def with_io_def)
qed

lemma reap_aborts:
  assumes abi: "abi_ok A"
  shows "\<lbrakk>queue_inv U K {} 0 q; mset (map cqe_user_data cs) \<subseteq># K;
      \<forall>c \<in> set cs. \<not> is_target_io (cqe_user_data c) \<and> cqe_res c = abi_res_abort A\<rbrakk>
    \<Longrightarrow> \<exists>q'. reap_cqes A ops iods cs q = Inr q' \<and> ring q' = ring q \<and> io_inflight q' = io_inflight q
          \<and> (queue_stopping q \<or> cs \<noteq> [] \<longrightarrow> queue_stopping q')"
proof (induction cs arbitrary: K q)
  case Nil
  then show ?case by simp
next
  case (Cons c cs)
  have cK: "cqe_user_data c \<in># K" using Cons.prems(2) by (auto dest: mset_subset_eqD)
  have sub: "mset (map cqe_user_data cs) \<subseteq># K - {#cqe_user_data c#}"
    using Cons.prems(2) by (simp add: insert_subset_eq_iff)
  obtain q1 where q1: "ublk_handle_cqe A ops iods c q = Inr q1"
    "queue_inv U (K - {#cqe_user_data c#}) {} 0 q1" "ring q1 = ring q" "io_inflight q1 = io_inflight q"
    "queue_stopping q1"
    using handle_abort [OF abi Cons.prems(1) cK, where ops = ops and iods = iods] Cons.prems(3) by auto
  from Cons.IH [OF q1(2) sub] Cons.prems(3) q1 show ?case by auto
qed

text \<open>
  One round in which every outstanding command comes back aborted leaves a queue that is done,
  with nothing outstanding.
\<close>

lemma shutdown_round:
  assumes ring: "uring_ok U n" and abi: "abi_ok A" and inv: "queue_inv U K {} 0 q"
    and io: "io_inflight q = 0" and some: "outstanding U K q \<noteq> {#}"
    and all: "ev_consumed ev = length (sq_view U (ring q))" "reaped ev = outstanding U K q"
    and ab: "\<forall>c \<in> set (ev_cqes ev). cqe_res c = abi_res_abort A"
    and nd: "\<not> ublk_queue_is_done U q"
  obtains advice q' where "ublk_process_io U A ops sz ev q = Inr (int (length (ev_cqes ev)), advice, q')"
    and "ublk_queue_is_done U q'" and "outstanding U {#} q' = {#}"
proof -
  let ?q1 = "q\<lparr>ring := consume U (ev_consumed ev) (ring q)\<rparr>" and ?K = "K + taken U ev q"
  have out: "outstanding U ?K ?q1 = outstanding U K q" by (rule outstanding_consume [OF ring])
  have view: "sq_view U (ring ?q1) = []" by (simp add: uring_consume [OF ring] all)
  have K: "?K = outstanding U K q" using out view by (simp add: outstanding_def)
  have inv1: "queue_inv U ?K {} 0 ?q1" using inv by (simp add: queue_inv_def owners_def out)
  have "size {#x \<in># outstanding U K q. is_target_io x#} = 0"
    using queue_invD(6) [OF inv] io by simp
  then have none: "\<And>x. x \<in># outstanding U K q \<Longrightarrow> \<not> is_target_io x"
    by (auto simp: filter_mset_eq_mempty_iff)
  have cmds: "\<forall>c \<in> set (ev_cqes ev). \<not> is_target_io (cqe_user_data c) \<and> cqe_res c = abi_res_abort A"
  proof
    fix c assume c: "c \<in> set (ev_cqes ev)"
    then have "cqe_user_data c \<in># reaped ev" by (simp add: reaped_def)
    with none all(2) ab c show "\<not> is_target_io (cqe_user_data c) \<and> cqe_res c = abi_res_abort A" by simp
  qed
  have sub: "mset (map cqe_user_data (ev_cqes ev)) \<subseteq># ?K" using all(2) K by (simp add: reaped_def)
  have ne: "ev_cqes ev \<noteq> []" using some all(2) by (auto simp: reaped_def)
  obtain q2 where q2: "reap_cqes A ops (ev_iods ev) (ev_cqes ev) ?q1 = Inr q2" "ring q2 = ring ?q1"
    "io_inflight q2 = io_inflight ?q1" "queue_stopping q2"
    using reap_aborts [OF abi inv1 sub cmds] ne by blast
  obtain advice w where p: "ublk_process_io U A ops sz ev q = Inr (int (length (ev_cqes ev)), advice, q2\<lparr>q_state := w\<rparr>)"
    and w: "bit w 0 = bit (q_state q2) 0"
    by (rule process_io_reaped [OF nd q2(1), of sz])
  have "ublk_queue_is_done U (q2\<lparr>q_state := w\<rparr>)"
    using q2 w io view
    by (simp add: ublk_queue_is_done_def ublk_queue_is_idle_def queue_stopping_bit uring_ready [OF ring])
  moreover have "outstanding U {#} (q2\<lparr>q_state := w\<rparr>) = {#}" using view q2(2) by (simp add: outstanding_def)
  ultimately show thesis using p by (rule that [rotated])
qed

lemma shutdown_exits:
  assumes ring: "uring_ok U n" and abi: "abi_ok A" and inv: "queue_inv U K {} 0 q"
    and io: "io_inflight q = 0" and some: "outstanding U K q \<noteq> {#}"
    and all: "ev_consumed ev = length (sq_view U (ring q))" "reaped ev = outstanding U K q"
    and ab: "\<forall>c \<in> set (ev_cqes ev). cqe_res c = abi_res_abort A"
  shows "\<exists>q'. io_loop U A ops sz [ev, ev'] q = Inr (Exited q') \<and> outstanding U {#} q' = {#}"
proof (cases "ublk_queue_is_done U q")
  case True
  then have "sq_view U (ring q) = []"
    by (simp add: ublk_queue_is_done_def ublk_queue_is_idle_def uring_ready [OF ring])
  with True show ?thesis by (simp add: ublk_process_io_def ENODEV_def outstanding_def)
next
  case False
  obtain advice q' where p: "ublk_process_io U A ops sz ev q = Inr (int (length (ev_cqes ev)), advice, q')"
    and d: "ublk_queue_is_done U q'" and o: "outstanding U {#} q' = {#}"
    by (rule shutdown_round [OF assms False])
  have "ublk_process_io U A ops sz ev' q' = Inr (- ENODEV, [], q')"
    using d by (simp add: ublk_process_io_def)
  then show ?thesis using p o by (simp add: ENODEV_def)
qed

text \<open>A sequence of events each of which is possible in the state the thread is in when it arrives.\<close>

fun events_ok ::
  "'r uring \<Rightarrow> abi \<Rightarrow> 'r tgt_ops \<Rightarrow> (abi \<Rightarrow> iod \<Rightarrow> bool) \<Rightarrow> u32 \<Rightarrow> u64 multiset \<Rightarrow> 'r ublk_queue \<Rightarrow> event list \<Rightarrow> bool" where
  "events_ok U A ops request sz K q [] \<longleftrightarrow> True"
| "events_ok U A ops request sz K q (ev # evs) \<longleftrightarrow> event_ok U A request K q ev \<and>
     (case ublk_process_io U A ops sz ev q of
        Inl _ \<Rightarrow> True
      | Inr (_, _, q') \<Rightarrow> events_ok U A ops request sz (K + taken U ev q - reaped ev) q' evs)"

lemma quiet_events_ok:
  "\<forall>e \<in> set evs. ev_consumed e = 0 \<and> ev_cqes e = [] \<and> ev_ret e \<noteq> - ETIME \<Longrightarrow> events_ok U A ops request sz K q evs"
  by (induction evs arbitrary: K q) (simp_all add: event_ok_def reaped_def split: sum.split)

text \<open>Commands that come back with an error other than abort free their tags and change nothing else.\<close>

context ublk_target
begin

lemma reap_failures:
  assumes ring: "uring_ok U n" and abi: "abi_ok A"
  shows "\<lbrakk>loop_inv U (ops U A) n K q; mset (map cqe_user_data cs) \<subseteq># K; \<not> queue_stopping q;
      \<forall>c \<in> set cs. \<not> is_target_io (cqe_user_data c) \<and> cqe_res c \<noteq> abi_res_ok A \<and> cqe_res c \<noteq> abi_res_abort A\<rbrakk>
    \<Longrightarrow> \<exists>q'. reap_cqes A (ops U A) iods cs q = Inr q' \<and> ring q' = ring q \<and> \<not> queue_stopping q'"
proof (induction cs arbitrary: K q)
  case (Cons c cs)
  have cK: "cqe_user_data c \<in># K" using Cons.prems(2) by (auto dest: mset_subset_eqD)
  have sub: "mset (map cqe_user_data cs) \<subseteq># K - {#cqe_user_data c#}"
    using Cons.prems(2) by (simp add: insert_subset_eq_iff)
  have c: "\<not> is_target_io (cqe_user_data c)" "cqe_res c \<noteq> abi_res_ok A" "cqe_res c \<noteq> abi_res_abort A" using Cons.prems(4) by auto
  have qi: "queue_inv U K {} 0 q" using Cons.prems(1) by (simp add: loop_inv_def)
  obtain q1 where q1: "ublk_handle_cqe A (ops U A) iods c q = Inr q1"
    "loop_inv U (ops U A) n (K - {#cqe_user_data c#}) q1" "q_state q1 = stop_after A c q"
    using handle_cqe_keeps [OF ring abi Cons.prems(1) cK, where iods = iods] c by auto
  obtain q2 where h: "ublk_handle_cqe A (ops U A) iods c q =
       (if cqe_res c = abi_res_ok A then seq (queue_io (ops U A) iods (utag (cqe_user_data c)) q2) (\<lambda>(_, q3). Inr q3)
        else with_io (utag (cqe_user_data c)) (\<lambda>io. io\<lparr>io_flags := UBLKSRV_IO_FREE\<rparr>) q2)" and r: "ring q2 = ring q"
    by (rule command_completion [OF qi cK c(1), of A "ops U A" iods])
  have "ring q1 = ring q" using h q1(1) r c(2) by (auto simp: with_io_def split: if_splits)
  moreover have "\<not> queue_stopping q1" using q1(3) Cons.prems(3) c by (simp add: stop_after_def queue_stopping_bit)
  ultimately show ?case using Cons.IH [OF q1(2) sub] Cons.prems(4) q1(1) by auto
qed simp

lemma failure_round:
  assumes ring: "uring_ok U n" and abi: "abi_ok A" and inv: "loop_inv U (ops U A) n K q" and ns: "\<not> queue_stopping q"
    and ev: "event_ok U A request K q ev" and all: "reaped ev = outstanding U K q" and io: "io_inflight q = 0"
    and bad: "\<forall>c \<in> set (ev_cqes ev). cqe_res c \<noteq> abi_res_ok A \<and> cqe_res c \<noteq> abi_res_abort A"
  obtains advice q' where "ublk_process_io U A (ops U A) sz ev q = Inr (int (length (ev_cqes ev)), advice, q')"
    and "K + taken U ev q - reaped ev = {#}" and "sq_view U (ring q') = []" and "\<not> queue_stopping q'"
proof -
  let ?q1 = "q\<lparr>ring := consume U (ev_consumed ev) (ring q)\<rparr>" and ?K = "K + taken U ev q"
  have nd: "\<not> ublk_queue_is_done U q" using ns by (simp add: ublk_queue_is_done_def)
  have out: "outstanding U ?K ?q1 = outstanding U K q" by (rule outstanding_consume [OF ring])
  have sub: "reaped ev \<subseteq># ?K" using ev by (simp add: event_ok_def)
  have "outstanding U ?K ?q1 = ?K + mset (map sqe_user_data (sq_view U (ring ?q1)))" by (simp add: outstanding_def)
  then have "?K + mset (map sqe_user_data (sq_view U (ring ?q1))) \<subseteq># ?K" using sub all out by simp
  then have view: "sq_view U (ring ?q1) = []" using subset_mset.add_le_same_cancel1 [of ?K] by auto
  have K: "?K = outstanding U K q" using out view by (simp add: outstanding_def)
  have qi: "queue_inv U K {} 0 q" using inv by (simp add: loop_inv_def)
  have "size {#x \<in># outstanding U K q. is_target_io x#} = 0" using queue_invD(6) [OF qi] io by simp
  then have none: "\<And>x. x \<in># reaped ev \<Longrightarrow> \<not> is_target_io x" unfolding all by (auto simp: filter_mset_eq_mempty_iff)
  have cmds: "\<forall>c \<in> set (ev_cqes ev). \<not> is_target_io (cqe_user_data c) \<and> cqe_res c \<noteq> abi_res_ok A \<and> cqe_res c \<noteq> abi_res_abort A"
    using none bad by (simp add: reaped_def)
  have i1: "loop_inv U (ops U A) n ?K ?q1" by (simp add: loop_inv_consume [OF ring] inv)
  have ns1: "\<not> queue_stopping ?q1" using ns by (simp add: queue_stopping_bit)
  obtain q2 where q2: "reap_cqes A (ops U A) (ev_iods ev) (ev_cqes ev) ?q1 = Inr q2" "ring q2 = ring ?q1" "\<not> queue_stopping q2"
    using reap_failures [OF ring abi i1 sub [unfolded reaped_def] ns1 cmds] by blast
  obtain advice w where p: "ublk_process_io U A (ops U A) sz ev q = Inr (int (length (ev_cqes ev)), advice, q2\<lparr>q_state := w\<rparr>)"
    and w: "bit w 0 = bit (q_state q2) 0"
    by (rule process_io_reaped [OF nd q2(1), of sz])
  show thesis
    by (rule that [OF p]) (use K all view q2 w in \<open>simp_all add: queue_stopping_bit\<close>)
qed

end

text \<open>With nothing outstanding no possible event carries a completion, and the thread never leaves the loop.\<close>

lemma io_loop_starves:
  assumes ring: "uring_ok U n"
  shows "\<lbrakk>\<not> queue_stopping q; sq_view U (ring q) = []; events_ok U A ops request sz {#} q evs\<rbrakk>
    \<Longrightarrow> \<exists>q'. io_loop U A ops sz evs q = Inr (Waiting q') \<and> outstanding U {#} q' = {#} \<and> (\<forall>ev \<in> set evs. ev_cqes ev = [])"
proof (induction evs arbitrary: q)
  case Nil
  then show ?case by (simp add: outstanding_def)
next
  case (Cons ev evs)
  have nd: "\<not> ublk_queue_is_done U q" using Cons.prems(1) by (simp add: ublk_queue_is_done_def)
  have none: "ev_cqes ev = []" "taken U ev q = {#}" "reaped ev = {#}"
    using Cons.prems(2,3) by (auto simp: event_ok_def taken_def reaped_def)
  let ?q1 = "q\<lparr>ring := consume U (ev_consumed ev) (ring q)\<rparr>"
  have r: "reap_cqes A ops (ev_iods ev) (ev_cqes ev) ?q1 = Inr ?q1" using none by simp
  obtain advice w where p: "ublk_process_io U A ops sz ev q = Inr (int (length (ev_cqes ev)), advice, ?q1\<lparr>q_state := w\<rparr>)"
    and w: "bit w 0 = bit (q_state ?q1) 0"
    by (rule process_io_reaped [OF nd r, of sz])
  have "\<not> queue_stopping (?q1\<lparr>q_state := w\<rparr>)" using w Cons.prems(1) by (simp add: queue_stopping_bit)
  moreover have "sq_view U (ring (?q1\<lparr>q_state := w\<rparr>)) = []" using Cons.prems(2) by (simp add: uring_consume [OF ring])
  moreover have "events_ok U A ops request sz {#} (?q1\<lparr>q_state := w\<rparr>) evs" using Cons.prems(3) p none by simp
  ultimately show ?case using Cons.IH p none by simp
qed

section \<open>A concrete run\<close>

text \<open>
  A queue of depth 1 on the concrete ring, used to show that the hypotheses of the
  properties can be met: started, and with its fetch command taken by the kernel.
\<close>

definition demo_queue :: "(sqe list \<times> sqe list) ublk_queue" where
  "demo_queue = \<lparr>q_id = 0, q_depth = 1, cmd_inflight = 0, io_inflight = 0, io_cmd_buf = 4096,
     ring = ([], []), ring_fd = 5,
     ios = replicate UBLK_QUEUE_DEPTH \<lparr>buf_addr = 8192, io_flags = 5, io_result = 0\<rparr>, q_state = 0\<rparr>"

lemma demo_fresh: "queue_fresh (slot_uring n) demo_queue"
  by (simp add: queue_fresh_def demo_queue_def UBLK_QUEUE_DEPTH_def ublk_flags)

definition demo_event :: event where
  "demo_event = \<lparr>ev_ret = 0, ev_consumed = 1, ev_cqes = [],
     ev_iods = (\<lambda>_. \<lparr>iod_op_flags = 0, iod_nr_sectors = 8, iod_start_sector = 16, iod_addr = 8192\<rparr>)\<rparr>"

lemma demo_reach_in:
  assumes "ublk_target ops request" and n: "0 < n"
  obtains q ud where "queue_reach (slot_uring n) linux_abi (ops (slot_uring n) linux_abi) request 65536 n {#ud#} q"
    and "sq_view (slot_uring n) (ring q) = []" and "utag ud = 0" and "\<not> is_target_io ud"
    and "q_depth q = 1" and "io_inflight q = 0" and "\<not> queue_stopping q" and "q_state q = 0"
proof -
  let ?U = "slot_uring n"
  obtain q where q: "ublk_submit_fetch_commands ?U linux_abi demo_queue = Inr q"
    and tags: "map (utag \<circ> sqe_user_data) (sq_view ?U (ring q)) = [0..<q_depth demo_queue]"
    and cmds: "\<forall>s \<in> set (sq_view ?U (ring q)). sqe_off s = ucast (abi_fetch_req linux_abi)
                 \<and> \<not> is_target_io (sqe_user_data s)"
    and fr: "q_depth q = q_depth demo_queue" "q_state q = 0" "io_inflight q = 0"
    by (rule submit_fetch_fresh [OF uring_ok_slot abi_ok_linux demo_fresh]) (use n in \<open>simp_all add: demo_queue_def Suc_le_eq\<close>)
  have d1: "q_depth demo_queue = 1" by (simp add: demo_queue_def)
  obtain s where s: "fst (ring q) = [s]" "utag (sqe_user_data s) = 0" "\<not> is_target_io (sqe_user_data s)"
    using tags cmds d1 by (auto simp: map_eq_Cons_conv)
  have r0: "queue_reach ?U linux_abi (ops ?U linux_abi) request 65536 n {#} q"
    by (rule queue_reach.start [OF demo_fresh _ q]) (use n in \<open>simp add: demo_queue_def Suc_le_eq\<close>)
  have ns: "\<not> queue_stopping q" using fr by (simp add: queue_stopping_bit)
  have ok: "event_ok ?U linux_abi request {#} q demo_event"
    by (simp add: event_ok_def demo_event_def s reaped_def ETIME_def)
  have nd: "\<not> ublk_queue_is_done ?U q" using ns by (simp add: ublk_queue_is_done_def)
  let ?q1 = "q\<lparr>ring := consume ?U 1 (ring q)\<rparr>"
  have "ublk_process_io ?U linux_abi (ops ?U linux_abi) 65536 demo_event q =
      Inr (0, [], ublk_queue_idle_exit ?q1)"
    using nd ns by (simp add: ublk_process_io_def ublk_reap_events_uring_def demo_event_def
        queue_stopping_bit ETIME_def)
  then have "queue_step ?U linux_abi (ops ?U linux_abi) request 65536 ({#}, q)
      ({#} + taken ?U demo_event q - reaped demo_event, ublk_queue_idle_exit ?q1)"
    by (rule queue_step.round [OF nd ok])
  moreover have "taken ?U demo_event q = {#sqe_user_data s#}" "reaped demo_event = {#}"
    by (simp_all add: taken_def reaped_def demo_event_def s)
  moreover have "ublk_queue_idle_exit ?q1 = ?q1" using fr by (simp add: ublk_queue_idle_exit_def)
  ultimately have "queue_reach ?U linux_abi (ops ?U linux_abi) request 65536 n {#sqe_user_data s#} ?q1"
    using queue_reach.step [OF r0] by simp
  then show thesis
    by (rule that [of "sqe_user_data s" ?q1])
      (use s fr d1 ns in \<open>cases "ring q", simp_all add: queue_stopping_bit\<close>)
qed

lemma demo_reach:
  assumes "ublk_target ops request"
  obtains q ud where "queue_reach (slot_uring 1) linux_abi (ops (slot_uring 1) linux_abi) request 65536 1 {#ud#} q"
    and "sq_view (slot_uring 1) (ring q) = []" and "utag ud = 0" and "\<not> is_target_io ud"
    and "q_depth q = 1" and "io_inflight q = 0" and "\<not> queue_stopping q" and "q_state q = 0"
  by (rule demo_reach_in [OF assms zero_less_one])

text \<open>A loop-target queue whose driver request has been handed to the backing file.\<close>

lemma demo_reach_target:
  obtains q ud where "queue_reach (slot_uring 1) linux_abi (loop_tgt_ops (slot_uring 1) linux_abi)
      loop_request 65536 1 {#ud#} q" and "is_target_io ud"
proof -
  let ?U = "slot_uring 1" and ?ops = "loop_tgt_ops (slot_uring 1) linux_abi"
  obtain q ud where r: "queue_reach ?U linux_abi ?ops loop_request 65536 1 {#ud#} q"
    and v: "sq_view ?U (ring q) = []" and ud: "utag ud = 0" "\<not> is_target_io ud"
    and q: "q_depth q = 1" "\<not> queue_stopping q" "q_state q = 0"
    by (rule demo_reach [OF loop.ublk_target_axioms])
  let ?c = "\<lparr>cqe_user_data = ud, cqe_res = abi_res_ok linux_abi\<rparr>"
  let ?ev = "demo_event\<lparr>ev_consumed := 0, ev_cqes := [?c]\<rparr>"
  have inv: "queue_inv ?U {#ud#} {} 0 q"
    using loop.reach_inv [OF uring_ok_slot abi_ok_linux r] by (simp add: loop_inv_def)
  have cud: "cqe_user_data ?c \<in># {#ud#}" "\<not> is_target_io (cqe_user_data ?c)" using ud by simp_all
  obtain q2 where h: "ublk_handle_cqe linux_abi ?ops (ev_iods ?ev) ?c q =
       (if cqe_res ?c = abi_res_ok linux_abi
        then seq (queue_io ?ops (ev_iods ?ev) (utag (cqe_user_data ?c)) q2) (\<lambda>(_, q3). Inr q3)
        else with_io (utag (cqe_user_data ?c)) (\<lambda>io. io\<lparr>io_flags := UBLKSRV_IO_FREE\<rparr>) q2)"
    and q2: "queue_inv ?U ({#ud#} - {#cqe_user_data ?c#}) {utag (cqe_user_data ?c)} 0 q2"
      "q_depth q2 = q_depth q" "q_state q2 = stop_after linux_abi ?c q" "ring q2 = ring q"
    by (rule command_completion [OF inv cud, of linux_abi ?ops "ev_iods ?ev"])
  have req: "loop_request linux_abi (ev_iods ?ev (utag (cqe_user_data ?c)))"
    by (simp add: loop_request_def demo_event_def linux_abi_def)
  have n: "q_depth q2 \<le> 1" using q q2(2) by simp
  obtain q3 prep s ud2 where q3: "ublk_loop_queue_io ?U linux_abi (ev_iods ?ev) (utag (cqe_user_data ?c)) q2 = Inr (0, q3)"
    and v3: "sq_view ?U (ring q3) = sq_view ?U (ring q2) @ [(prep s)\<lparr>sqe_user_data := ud2\<rparr>]"
    and sv: "served ?U (utag (cqe_user_data ?c)) True q2 q3" and t2: "is_target_io ud2"
    by (rule loop_queue_io_serves [OF uring_ok_slot abi_ok_linux q2(1) n, where iods = "ev_iods ?ev", OF req])
  have st: "\<not> queue_stopping q3"
    using q q2(3) sv by (simp add: served_def stop_after_def queue_stopping_bit linux_abi_def ENODEV_def)
  have "ublk_handle_cqe linux_abi ?ops (ev_iods ?ev) ?c q = Inr q3"
    using h q3 by (simp add: loop_tgt_ops_def)
  moreover have "q\<lparr>ring := consume ?U 0 (ring q)\<rparr> = q" by (cases "ring q") simp
  ultimately have p: "\<exists>adv. ublk_process_io ?U linux_abi ?ops 65536 ?ev q = Inr (1, adv, ublk_queue_idle_exit q3)"
    using q st by (simp add: ublk_process_io_def ublk_queue_is_done_def ublk_reap_events_uring_def demo_event_def)
  have ok: "event_ok ?U linux_abi loop_request {#ud#} q ?ev"
    using req by (simp add: event_ok_def demo_event_def reaped_def taken_def ETIME_def)
  have nd: "\<not> ublk_queue_is_done ?U q" using q by (simp add: ublk_queue_is_done_def)
  have tk: "taken ?U ?ev q = {#}" "reaped ?ev = {#ud#}" by (simp_all add: taken_def reaped_def demo_event_def)
  have r1: "queue_reach ?U linux_abi ?ops loop_request 65536 1 {#} (ublk_queue_idle_exit q3)"
    using loop.reach_progress [OF uring_ok_slot abi_ok_linux r ok nd] p unfolding tk by auto
  let ?q = "ublk_queue_idle_exit q3"
  have nd1: "\<not> ublk_queue_is_done ?U ?q"
    using st by (simp add: ublk_queue_is_done_def ublk_queue_idle_exit_def queue_stopping_bit bit_and_iff)
  have r2: "ring ?q = ring q3" by (simp add: ublk_queue_idle_exit_def)
  have ok1: "event_ok ?U linux_abi loop_request {#} ?q demo_event"
    using v3 by (simp add: event_ok_def demo_event_def reaped_def r2 ETIME_def)
  have "taken ?U demo_event ?q = {#ud2#}" "reaped demo_event = {#}"
    using v v3 q2(4) by (simp_all add: taken_def reaped_def demo_event_def r2)
  then obtain q4 where "queue_reach ?U linux_abi ?ops loop_request 65536 1 {#ud2#} q4"
    using loop.reach_progress [OF uring_ok_slot abi_ok_linux r1 ok1 nd1] by auto
  then show thesis using t2 by (rule that)
qed

end
