(* ===== verification/Ublk_Props.thy ===== *)
theory Ublk_Props
  imports Ublk_Loop
begin

text \<open>
  What the queue thread of \<open>miniublk.c\<close> guarantees, for the two targets of the program: the
  statements are written out over the model's definitions and rest on the facts of the
  locale \<open>ublk_target\<close> at its interpretations \<open>null\<close> and \<open>loop\<close>.
\<close>

section \<open>Safety of the event loop\<close>

text \<open>
  C2. From every reachable state of a loop-target queue and for every possible answer of
  the driver and the ring, a round of \<open>ublk_process_io\<close> runs without a fault (no failed
  assertion, no access outside \<open>ios\<close>); it either reports -ENODEV in a queue that is done or
  reaps all completions and ends in a reachable state.
\<close>

theorem loop_round_safe:
  assumes "uring_ok U n" and "abi_ok A"
    and "queue_reach U A (loop_tgt_ops U A) loop_request sz n K q"
    and "event_ok U A loop_request K q ev"
  shows "if ublk_queue_is_done U q
    then ublk_process_io U A (loop_tgt_ops U A) sz ev q = Inr (- ENODEV, [], q)
    else \<exists>advice q'.
      ublk_process_io U A (loop_tgt_ops U A) sz ev q = Inr (int (length (ev_cqes ev)), advice, q')
      \<and> queue_reach U A (loop_tgt_ops U A) loop_request sz n (K + taken U ev q - reaped ev) q'"
  using loop.reach_progress [OF assms] by (auto simp: ublk_process_io_def)

theorem loop_round_safe_witness:
  "\<exists>q K. queue_reach (slot_uring 1) linux_abi (loop_tgt_ops (slot_uring 1) linux_abi) loop_request 65536 1 K q
     \<and> (\<exists>advice q'. ublk_process_io (slot_uring 1) linux_abi (loop_tgt_ops (slot_uring 1) linux_abi)
            65536 (demo_event\<lparr>ev_consumed := 0\<rparr>) q = Inr (0, advice, q'))"
proof -
  obtain q ud where r: "queue_reach (slot_uring 1) linux_abi (loop_tgt_ops (slot_uring 1) linux_abi)
      loop_request 65536 1 {#ud#} q" and s: "\<not> queue_stopping q"
    by (rule demo_reach [OF loop.ublk_target_axioms])
  have ev: "event_ok (slot_uring 1) linux_abi loop_request {#ud#} q (demo_event\<lparr>ev_consumed := 0\<rparr>)"
    by (simp add: event_ok_def demo_event_def reaped_def ETIME_def)
  have len: "ev_cqes (demo_event\<lparr>ev_consumed := 0\<rparr>) = []" by (simp add: demo_event_def)
  from loop_round_safe [OF uring_ok_slot abi_ok_linux r ev] s r show ?thesis
    unfolding len by (auto simp: ublk_queue_is_done_def)
qed

text \<open>
  The same for the null target, whatever requests the driver sends: no round faults, and
  every round that is not the last ends in a reachable state.
\<close>

theorem null_round_safe:
  assumes "uring_ok U n" and "abi_ok A"
    and "queue_reach U A (null_tgt_ops U A) any_request sz n K q"
    and "event_ok U A any_request K q ev"
  shows "if ublk_queue_is_done U q
    then ublk_process_io U A (null_tgt_ops U A) sz ev q = Inr (- ENODEV, [], q)
    else \<exists>advice q'.
      ublk_process_io U A (null_tgt_ops U A) sz ev q = Inr (int (length (ev_cqes ev)), advice, q')
      \<and> queue_reach U A (null_tgt_ops U A) any_request sz n (K + taken U ev q - reaped ev) q'"
  using null.reach_progress [OF assms] by (auto simp: ublk_process_io_def)

theorem null_round_safe_witness:
  "\<exists>q K. queue_reach (slot_uring 1) linux_abi (null_tgt_ops (slot_uring 1) linux_abi) any_request 65536 1 K q
     \<and> (\<exists>advice q'. ublk_process_io (slot_uring 1) linux_abi (null_tgt_ops (slot_uring 1) linux_abi)
            65536 (demo_event\<lparr>ev_consumed := 0\<rparr>) q = Inr (0, advice, q'))"
proof -
  obtain q ud where r: "queue_reach (slot_uring 1) linux_abi (null_tgt_ops (slot_uring 1) linux_abi)
      any_request 65536 1 {#ud#} q" and s: "\<not> queue_stopping q"
    by (rule demo_reach [OF null.ublk_target_axioms])
  have ev: "event_ok (slot_uring 1) linux_abi any_request {#ud#} q (demo_event\<lparr>ev_consumed := 0\<rparr>)"
    by (simp add: event_ok_def demo_event_def reaped_def ETIME_def)
  have len: "ev_cqes (demo_event\<lparr>ev_consumed := 0\<rparr>) = []" by (simp add: demo_event_def)
  from null_round_safe [OF uring_ok_slot abi_ok_linux r ev] s r show ?thesis
    unfolding len by (auto simp: ublk_queue_is_done_def)
qed

text \<open>
  C1. Ownership: in every reachable state of a loop-target queue each tag below the depth has
  exactly one owner, an outstanding submission or a free slot, no other tag has any, and
  \<open>cmd_inflight\<close> and \<open>io_inflight\<close> are the numbers of outstanding commands and target
  requests. In particular a tag never has two commands in flight.
\<close>

theorem loop_tag_ownership:
  assumes "uring_ok U n" and "abi_ok A"
    and "queue_reach U A (loop_tgt_ops U A) loop_request sz n K q"
  shows "(\<forall>t. count (image_mset utag (outstanding U K q)) t
              + of_bool (t < q_depth q \<and> io_flags (ios q ! t) \<noteq> 0) = (of_bool (t < q_depth q) :: nat))
    \<and> unat (cmd_inflight q) = size {#ud \<in># outstanding U K q. \<not> is_target_io ud#}
    \<and> unat (io_inflight q) = size {#ud \<in># outstanding U K q. is_target_io ud#}"
  using loop.reach_inv [OF assms] by (simp add: loop_inv_def queue_inv_def owners_def)

theorem loop_tag_ownership_witness:
  "\<exists>q ud. utag ud = 0 \<and> q_depth q = 1 \<and>
     queue_reach (slot_uring 1) linux_abi (loop_tgt_ops (slot_uring 1) linux_abi) loop_request 65536 1 {#ud#} q
     \<and> unat (cmd_inflight q) = 1 \<and> io_flags (ios q ! 0) = 0"
proof -
  obtain q ud where r: "queue_reach (slot_uring 1) linux_abi (loop_tgt_ops (slot_uring 1) linux_abi)
      loop_request 65536 1 {#ud#} q" and v: "sq_view (slot_uring 1) (ring q) = []"
    and t: "utag ud = 0" "\<not> is_target_io ud" "q_depth q = 1"
    by (rule demo_reach [OF loop.ublk_target_axioms])
  have out: "outstanding (slot_uring 1) {#ud#} q = {#ud#}" using v by (simp add: outstanding_def)
  from loop_tag_ownership [OF uring_ok_slot abi_ok_linux r]
  have a: "count (image_mset utag {#ud#}) 0 + of_bool (0 < q_depth q \<and> io_flags (ios q ! 0) \<noteq> 0)
      = (of_bool (0 < q_depth q) :: nat)" and c: "unat (cmd_inflight q) = size {#x \<in># {#ud#}. \<not> is_target_io x#}"
    unfolding out by blast+
  have "io_flags (ios q ! 0) = 0" using a t by (auto split: if_splits)
  moreover have "unat (cmd_inflight q) = 1" using c t by simp
  ultimately show ?thesis using r t by blast
qed

text \<open>
  The commands of \<open>ublk_submit_fetch_commands\<close>: from the state \<open>ublk_queue_init\<close> leaves, the
  loop never runs out of submission entries and queues exactly one fetch command per tag, in
  the order of the tags.
\<close>

theorem initial_fetch_covers_tags:
  assumes "uring_ok U n" and "abi_ok A" and "queue_fresh U q" and "q_depth q \<le> n"
  shows "\<exists>q'. ublk_submit_fetch_commands U A q = Inr q'
    \<and> map (utag \<circ> sqe_user_data) (sq_view U (ring q')) = [0..<q_depth q]
    \<and> (\<forall>s \<in> set (sq_view U (ring q')). sqe_off s = ucast (abi_fetch_req A))
    \<and> unat (cmd_inflight q') = q_depth q \<and> (\<forall>t < q_depth q. io_flags (ios q' ! t) = 0)"
proof -
  obtain q' where q': "ublk_submit_fetch_commands U A q = Inr q'" "queue_inv U {#} {} 0 q'"
    "map (utag \<circ> sqe_user_data) (sq_view U (ring q')) = [0..<q_depth q]"
    "\<forall>s \<in> set (sq_view U (ring q')). sqe_off s = ucast (abi_fetch_req A) \<and> \<not> is_target_io (sqe_user_data s)"
    "\<forall>t < q_depth q. io_flags (ios q' ! t) = 0"
    by (rule submit_fetch_fresh [OF assms])
  have "length (sq_view U (ring q')) = q_depth q" using arg_cong [OF q'(3), of length] by simp
  moreover have "{#ud \<in># outstanding U {#} q'. \<not> is_target_io ud#} = outstanding U {#} q'"
    using q'(4) by (auto simp: outstanding_def filter_mset_eq_conv)
  ultimately have "unat (cmd_inflight q') = q_depth q"
    using queue_invD(5) [OF q'(2)] by (simp add: outstanding_def)
  with q' show ?thesis by auto
qed

theorem initial_fetch_covers_tags_witness:
  "\<exists>q'. ublk_submit_fetch_commands (slot_uring 1) linux_abi demo_queue = Inr q'
    \<and> unat (cmd_inflight q') = 1"
  using initial_fetch_covers_tags [OF uring_ok_slot abi_ok_linux demo_fresh]
  by (auto simp: demo_queue_def)

section \<open>Refinement to the ownership machine\<close>

text \<open>
  Simulation, loop target: handling a completion moves exactly the completed tag, from the
  driver to the target when a request arrives, from the target back to the driver when the
  backing file is done, and out of service when the command failed; no other tag moves.
\<close>

theorem loop_completion_refines:
  assumes "uring_ok U n" and "abi_ok A"
    and "queue_reach U A (loop_tgt_ops U A) loop_request sz n K q"
    and "cqe_user_data c \<in># K"
    and "cqe_res c = abi_res_ok A \<longrightarrow> \<not> is_target_io (cqe_user_data c) \<longrightarrow>
           loop_request A (iods (utag (cqe_user_data c)))"
  shows "\<exists>q'. ublk_handle_cqe A (loop_tgt_ops U A) iods c q = Inr q'
    \<and> owner_of U K q (utag (cqe_user_data c)) = (if is_target_io (cqe_user_data c) then Target else Driver)
    \<and> (\<forall>t. owner_of U (K - {#cqe_user_data c#}) q' t =
           (if t = utag (cqe_user_data c) then owner_next True A c else owner_of U K q t))"
  using loop.handle_cqe_refines [OF assms(1-4), where iods = iods, OF assms(5)]
  by (simp cong: if_cong)

text \<open>The completion of the fetch command of the concrete run, with result \<open>r\<close>.\<close>

definition demo_cqe :: "u64 \<Rightarrow> s32 \<Rightarrow> cqe" where
  "demo_cqe ud r = \<lparr>cqe_user_data = ud, cqe_res = r\<rparr>"

lemma demo_cqe_simps [simp]: "cqe_user_data (demo_cqe ud r) = ud" "cqe_res (demo_cqe ud r) = r"
  by (simp_all add: demo_cqe_def)

lemma demo_loop_request: "loop_request linux_abi (ev_iods demo_event t)"
  by (simp add: loop_request_def demo_event_def linux_abi_def)

lemma linux_res [simp]: "abi_res_ok linux_abi = 0" "abi_res_abort linux_abi = word_of_int (- 19)"
  by (simp_all add: linux_abi_def ENODEV_def)

theorem loop_completion_refines_witness:
  "\<exists>q ud q'. utag ud = 0 \<and> owner_of (slot_uring 1) {#ud#} q 0 = Driver
    \<and> ublk_handle_cqe linux_abi (loop_tgt_ops (slot_uring 1) linux_abi) (ev_iods demo_event)
         (demo_cqe ud 0) q = Inr q'
    \<and> owner_of (slot_uring 1) {#} q' 0 = Target"
proof -
  obtain q ud where r: "queue_reach (slot_uring 1) linux_abi (loop_tgt_ops (slot_uring 1) linux_abi)
      loop_request 65536 1 {#ud#} q" and t: "utag ud = 0" "\<not> is_target_io ud"
    by (rule demo_reach [OF loop.ublk_target_axioms])
  from loop_completion_refines [OF uring_ok_slot abi_ok_linux r, of "demo_cqe ud 0" "ev_iods demo_event"]
  obtain q' where "ublk_handle_cqe linux_abi (loop_tgt_ops (slot_uring 1) linux_abi) (ev_iods demo_event)
      (demo_cqe ud 0) q = Inr q'" and "owner_of (slot_uring 1) {#ud#} q 0 = Driver"
    and o: "\<forall>t. owner_of (slot_uring 1) ({#ud#} - {#ud#}) q' t =
      (if t = 0 then owner_next True linux_abi (demo_cqe ud 0) else owner_of (slot_uring 1) {#ud#} q t)"
    using t by (auto simp: demo_loop_request)
  moreover have "owner_of (slot_uring 1) {#} q' 0 = Target"
    using o [THEN spec, of 0] t by (simp add: owner_next_def)
  ultimately show ?thesis using t by blast
qed

text \<open>
  Simulation, null target: a request is answered in the same round, so a successful
  completion leaves the tag with the driver (its commit is queued) and a failed one retires it.
\<close>

theorem null_completion_refines:
  assumes "uring_ok U n" and "abi_ok A"
    and "queue_reach U A (null_tgt_ops U A) any_request sz n K q"
    and "cqe_user_data c \<in># K"
  shows "\<exists>q'. ublk_handle_cqe A (null_tgt_ops U A) iods c q = Inr q'
    \<and> owner_of U K q (utag (cqe_user_data c)) = Driver
    \<and> (\<forall>t. owner_of U (K - {#cqe_user_data c#}) q' t =
           (if t = utag (cqe_user_data c)
            then (if cqe_res c = abi_res_ok A then Driver else Retired) else owner_of U K q t))"
proof -
  have "\<not> is_target_io (cqe_user_data c)"
    using loop_inv_no_target [OF null.reach_inv [OF assms(1-3)] _ assms(4)] by simp
  then have "owner_next False A c = (if cqe_res c = abi_res_ok A then Driver else Retired)"
    and "\<not> is_target_io (cqe_user_data c)" by (simp_all add: owner_next_def)
  with null.handle_cqe_refines [OF assms(1-4), of iods] show ?thesis
    by (simp add: any_request_def cong: if_cong)
qed

theorem null_completion_refines_witness:
  "\<exists>q ud q'. utag ud = 0
    \<and> ublk_handle_cqe linux_abi (null_tgt_ops (slot_uring 1) linux_abi) (ev_iods demo_event)
         (demo_cqe ud (- 5)) q = Inr q'
    \<and> owner_of (slot_uring 1) {#} q' 0 = Retired"
proof -
  obtain q ud where r: "queue_reach (slot_uring 1) linux_abi (null_tgt_ops (slot_uring 1) linux_abi)
      any_request 65536 1 {#ud#} q" and t: "utag ud = 0"
    by (rule demo_reach [OF null.ublk_target_axioms])
  from null_completion_refines [OF uring_ok_slot abi_ok_linux r, of "demo_cqe ud (- 5)" "ev_iods demo_event"]
  obtain q' where "ublk_handle_cqe linux_abi (null_tgt_ops (slot_uring 1) linux_abi) (ev_iods demo_event)
      (demo_cqe ud (- 5)) q = Inr q'"
    and o: "\<forall>t. owner_of (slot_uring 1) ({#ud#} - {#ud#}) q' t =
      (if t = 0 then (if (- 5 :: s32) = 0 then Driver else Retired) else owner_of (slot_uring 1) {#ud#} q t)"
    using t by auto
  moreover have "owner_of (slot_uring 1) {#} q' 0 = Retired"
    using o [THEN spec, of 0] by simp
  ultimately show ?thesis using t by blast
qed

text \<open>
  What is retired stays retired, and stopping is final: over any round from a reachable
  state of the loop target, a free slot (its command failed or was aborted) is not touched
  again, and a queue that is stopping keeps stopping.
\<close>

theorem loop_round_retained:
  assumes "uring_ok U n" and "abi_ok A"
    and "queue_reach U A (loop_tgt_ops U A) loop_request sz n K q"
    and "queue_step U A (loop_tgt_ops U A) loop_request sz (K, q) (K', q')"
  shows "(queue_stopping q \<longrightarrow> queue_stopping q')
    \<and> (\<forall>t. io_flags (ios q ! t) \<noteq> 0 \<longrightarrow> ios q' ! t = ios q ! t) \<and> q_depth q' = q_depth q"
  using loop.queue_step_keeps [OF assms(1,2) loop.reach_inv [OF assms(1-3)] assms(4)]
  by (simp add: retained_def)

theorem loop_round_retained_witness:
  "\<exists>K q K' q'. queue_step (slot_uring 1) linux_abi (loop_tgt_ops (slot_uring 1) linux_abi) loop_request
      65536 (K, q) (K', q') \<and> q_depth q' = q_depth q"
proof -
  obtain q ud where r: "queue_reach (slot_uring 1) linux_abi (loop_tgt_ops (slot_uring 1) linux_abi)
      loop_request 65536 1 {#ud#} q" and s: "\<not> queue_stopping q"
    by (rule demo_reach [OF loop.ublk_target_axioms])
  let ?ev = "demo_event\<lparr>ev_consumed := 0\<rparr>"
  have ev: "event_ok (slot_uring 1) linux_abi loop_request {#ud#} q ?ev"
    by (simp add: event_ok_def demo_event_def reaped_def ETIME_def)
  have nd: "\<not> ublk_queue_is_done (slot_uring 1) q" using s by (simp add: ublk_queue_is_done_def)
  obtain advice q' where "ublk_process_io (slot_uring 1) linux_abi (loop_tgt_ops (slot_uring 1) linux_abi)
      65536 ?ev q = Inr (int (length (ev_cqes ?ev)), advice, q')"
    using loop.reach_progress [OF uring_ok_slot abi_ok_linux r ev nd] by blast
  from queue_step.round [OF nd ev this] loop_round_retained [OF uring_ok_slot abi_ok_linux r]
  show ?thesis by blast
qed

section \<open>Idling, exit and shutdown\<close>

text \<open>
  C12. Pages are given back only when nothing uses them: if a round of a reachable loop-target
  queue issues \<open>madvise(MADV_DONTNEED)\<close>, then nothing was reaped, nothing waits for submission
  and no tag is owned by the target, and the calls cover exactly the buffers of all tags.
\<close>

theorem loop_discard_quiescent:
  assumes "uring_ok U n" and "abi_ok A"
    and "queue_reach U A (loop_tgt_ops U A) loop_request sz n K q"
    and "event_ok U A loop_request K q ev"
    and "ublk_process_io U A (loop_tgt_ops U A) sz ev q = Inr (ret, advice, q')" and "advice \<noteq> []"
  shows "ret = 0 \<and> sq_view U (ring q') = [] \<and> (\<forall>t. owner_of U (K + taken U ev q) q' t \<noteq> Target)
    \<and> advice = map (\<lambda>i. (buf_addr (ios q' ! i), sz)) [0..<q_depth q]"
proof -
  have nd: "\<not> ublk_queue_is_done U q" using assms(5,6) by (auto simp: ublk_process_io_def)
  from loop.process_io_keeps [OF assms(1,2) loop.reach_inv [OF assms(1-3)] assms(4) nd, of sz] assms(5)
  have inv: "loop_inv U (loop_tgt_ops U A) n (K + taken U ev q - reaped ev) q'" and ret: "retained q q'"
    and r: "ret = int (length (ev_cqes ev))" and adv: "advice_ok U sz ev advice q'" by auto
  have none: "ev_cqes ev = []" and idle: "ublk_queue_is_idle U q'"
    and a: "advice = ublk_queue_discard_io_pages sz q'"
    using adv assms(6) by (auto simp: advice_ok_def)
  have re: "reaped ev = {#}" using none by (simp add: reaped_def)
  have view: "sq_view U (ring q') = []"
    using idle by (simp add: ublk_queue_is_idle_def uring_ready [OF assms(1)])
  have qi: "queue_inv U (K + taken U ev q) {} 0 q'" using inv by (simp add: loop_inv_def re)
  have "size {#ud \<in># outstanding U (K + taken U ev q) q'. is_target_io ud#} = 0"
    using queue_invD(6) [OF qi] idle by (simp add: ublk_queue_is_idle_def)
  then have "owner_of U (K + taken U ev q) q' t \<noteq> Target" for t
    by (auto simp: owner_of_def mset_owner_def filter_mset_eq_mempty_iff)
  then show ?thesis
    using r none view a ret by (auto simp: ublk_queue_discard_io_pages_def retained_def)
qed

theorem loop_discard_quiescent_witness:
  "\<exists>q ud advice q'. ublk_process_io (slot_uring 1) linux_abi (loop_tgt_ops (slot_uring 1) linux_abi) 65536
      (demo_event\<lparr>ev_ret := - ETIME, ev_consumed := 0\<rparr>) q = Inr (0, advice, q')
    \<and> advice = [(buf_addr (ios q' ! 0), 65536)]
    \<and> owner_of (slot_uring 1) {#ud#} q' 0 \<noteq> Target"
proof -
  obtain q ud where r: "queue_reach (slot_uring 1) linux_abi (loop_tgt_ops (slot_uring 1) linux_abi)
      loop_request 65536 1 {#ud#} q" and v: "sq_view (slot_uring 1) (ring q) = []"
    and f: "q_depth q = 1" "io_inflight q = 0" "q_state q = 0"
    by (rule demo_reach [OF loop.ublk_target_axioms])
  let ?ev = "demo_event\<lparr>ev_ret := - ETIME, ev_consumed := 0\<rparr>"
  have ev: "event_ok (slot_uring 1) linux_abi loop_request {#ud#} q ?ev"
    by (simp add: event_ok_def demo_event_def reaped_def process_io_timeout_def f)
  obtain p free where ring: "ring q = (p, free)" by (cases "ring q") auto
  have p: "p = []" using v ring by simp
  let ?q' = "q\<lparr>ring := ([], free), q_state := UBLKSRV_QUEUE_IDLE\<rparr>"
  have run: "ublk_process_io (slot_uring 1) linux_abi (loop_tgt_ops (slot_uring 1) linux_abi) 65536 ?ev q
      = Inr (0, [(buf_addr (ios q ! 0), 65536)], ?q')"
    by (simp add: ublk_process_io_def ublk_queue_is_done_def queue_stopping_bit f ring p demo_event_def
        ublk_reap_events_uring_def ublk_queue_is_idle_def ublk_queue_idle_enter_def
        ublk_queue_discard_io_pages_def)
  have t: "{#ud#} + taken (slot_uring 1) ?ev q = {#ud#}"
    by (simp add: taken_def demo_event_def)
  from loop_discard_quiescent [OF uring_ok_slot abi_ok_linux r ev run]
  have "owner_of (slot_uring 1) {#ud#} ?q' 0 \<noteq> Target" unfolding t by blast
  with run show ?thesis by (intro exI [of _ q] exI [of _ ud] exI [of _ ?q'] exI) auto
qed

text \<open>
  Leaving the loop is clean: when a round of a reachable loop-target queue reports -ENODEV,
  nothing is waiting for submission, every outstanding submission is a command the driver
  holds, and no tag is owned by the target, so no request is dropped.
\<close>

theorem loop_exit_clean:
  assumes "uring_ok U n" and "abi_ok A"
    and "queue_reach U A (loop_tgt_ops U A) loop_request sz n K q"
    and "ublk_process_io U A (loop_tgt_ops U A) sz ev q = Inr (- ENODEV, advice, q')"
    and "event_ok U A loop_request K q ev"
  shows "q' = q \<and> queue_stopping q \<and> sq_view U (ring q) = [] \<and> outstanding U K q = K
    \<and> (\<forall>ud \<in># K. \<not> is_target_io ud) \<and> (\<forall>t. owner_of U K q t \<noteq> Target)"
proof -
  have d: "ublk_queue_is_done U q"
  proof (rule ccontr)
    assume "\<not> ublk_queue_is_done U q"
    from loop.reach_progress [OF assms(1-3,5) this] assms(4) show False by (auto simp: ENODEV_def)
  qed
  have view: "sq_view U (ring q) = []" and io: "io_inflight q = 0" and st: "queue_stopping q"
    using d by (auto simp: ublk_queue_is_done_def ublk_queue_is_idle_def uring_ready [OF assms(1)])
  have out: "outstanding U K q = K" using view by (simp add: outstanding_def)
  have "queue_inv U K {} 0 q" using loop.reach_inv [OF assms(1-3)] by (simp add: loop_inv_def)
  then have "size {#ud \<in># K. is_target_io ud#} = 0" using queue_invD(6) io out by fastforce
  then have none: "\<forall>ud \<in># K. \<not> is_target_io ud" by (auto simp: filter_mset_eq_mempty_iff)
  then have "owner_of U K q t \<noteq> Target" for t by (auto simp: owner_of_def mset_owner_def out)
  moreover have "q' = q" using assms(4) d by (simp add: ublk_process_io_def)
  ultimately show ?thesis using st view out none by blast
qed

lemma demo_done:
  obtains q where "queue_reach (slot_uring 1) linux_abi (loop_tgt_ops (slot_uring 1) linux_abi)
      loop_request 65536 1 {#} q" and "ublk_queue_is_done (slot_uring 1) q"
proof -
  let ?U = "slot_uring 1" and ?ops = "loop_tgt_ops (slot_uring 1) linux_abi"
  obtain q ud where r: "queue_reach ?U linux_abi ?ops loop_request 65536 1 {#ud#} q"
    and v: "sq_view ?U (ring q) = []" and io: "io_inflight q = 0" and s: "\<not> queue_stopping q"
    by (rule demo_reach [OF loop.ublk_target_axioms])
  let ?ev = "demo_event\<lparr>ev_consumed := 0, ev_cqes := [demo_cqe ud (word_of_int (- 19))]\<rparr>"
  have nd: "\<not> ublk_queue_is_done ?U q" using s by (simp add: ublk_queue_is_done_def)
  have ev: "event_ok ?U linux_abi loop_request {#ud#} q ?ev"
    by (simp add: event_ok_def demo_event_def reaped_def ETIME_def)
  have inv: "queue_inv ?U {#ud#} {} 0 q"
    using loop.reach_inv [OF uring_ok_slot abi_ok_linux r] by (simp add: loop_inv_def)
  have out: "outstanding ?U {#ud#} q = {#ud#}" using v by (simp add: outstanding_def)
  obtain advice q' where p: "ublk_process_io ?U linux_abi ?ops 65536 ?ev q =
      Inr (int (length (ev_cqes ?ev)), advice, q')" and d: "ublk_queue_is_done ?U q'"
    by (rule shutdown_round [OF uring_ok_slot abi_ok_linux inv io _ _ _ _ nd,
          where ev = ?ev and sz = 65536 and ops = ?ops])
      (use v out in \<open>simp_all add: reaped_def\<close>)
  have t: "{#ud#} + taken ?U ?ev q - reaped ?ev = {#}" using v by (simp add: taken_def reaped_def)
  from queue_step.round [OF nd ev p] have "queue_step ?U linux_abi ?ops loop_request 65536 ({#ud#}, q) ({#}, q')"
    unfolding t .
  from queue_reach.step [OF r this] d show thesis by (rule that)
qed

theorem loop_exit_clean_witness:
  "\<exists>q. ublk_process_io (slot_uring 1) linux_abi (loop_tgt_ops (slot_uring 1) linux_abi) 65536
         (demo_event\<lparr>ev_consumed := 0\<rparr>) q = Inr (- ENODEV, [], q) \<and> queue_stopping q"
proof -
  obtain q where r: "queue_reach (slot_uring 1) linux_abi (loop_tgt_ops (slot_uring 1) linux_abi)
      loop_request 65536 1 {#} q" and d: "ublk_queue_is_done (slot_uring 1) q" by (rule demo_done)
  have p: "ublk_process_io (slot_uring 1) linux_abi (loop_tgt_ops (slot_uring 1) linux_abi) 65536
         (demo_event\<lparr>ev_consumed := 0\<rparr>) q = Inr (- ENODEV, [], q)"
    using d by (simp add: ublk_process_io_def)
  have ev: "event_ok (slot_uring 1) linux_abi loop_request {#} q (demo_event\<lparr>ev_consumed := 0\<rparr>)"
    by (simp add: event_ok_def demo_event_def reaped_def ETIME_def)
  from loop_exit_clean [OF uring_ok_slot abi_ok_linux r p ev] p show ?thesis by blast
qed

text \<open>
  C11. Orderly shutdown: when no target request is outstanding and the driver takes everything
  that was submitted and aborts every command, the thread leaves its loop in the next round,
  with nothing outstanding.
\<close>

theorem loop_shutdown_terminates:
  assumes "uring_ok U n" and "abi_ok A"
    and "queue_reach U A (loop_tgt_ops U A) loop_request sz n K q"
    and "io_inflight q = 0" and "outstanding U K q \<noteq> {#}"
    and "ev_consumed ev = length (sq_view U (ring q))" and "reaped ev = outstanding U K q"
    and "\<forall>c \<in> set (ev_cqes ev). cqe_res c = abi_res_abort A"
  shows "\<exists>q'. io_loop U A (loop_tgt_ops U A) sz [ev, ev'] q = Inr (Exited q') \<and> outstanding U {#} q' = {#}"
proof -
  have "queue_inv U K {} 0 q" using loop.reach_inv [OF assms(1-3)] by (simp add: loop_inv_def)
  from shutdown_exits [OF assms(1,2) this assms(4-8)] show ?thesis .
qed

theorem loop_shutdown_terminates_witness:
  "\<exists>q ud q'. io_loop (slot_uring 1) linux_abi (loop_tgt_ops (slot_uring 1) linux_abi) 65536
      [demo_event\<lparr>ev_consumed := 0, ev_cqes := [demo_cqe ud (word_of_int (- 19))]\<rparr>, demo_event] q
     = Inr (Exited q')"
proof -
  obtain q ud where r: "queue_reach (slot_uring 1) linux_abi (loop_tgt_ops (slot_uring 1) linux_abi)
      loop_request 65536 1 {#ud#} q"
    and v: "sq_view (slot_uring 1) (ring q) = []" and io: "io_inflight q = 0"
    by (rule demo_reach [OF loop.ublk_target_axioms])
  have out: "outstanding (slot_uring 1) {#ud#} q = {#ud#}" using v by (simp add: outstanding_def)
  show ?thesis
    using loop_shutdown_terminates [OF uring_ok_slot abi_ok_linux r io,
        of "demo_event\<lparr>ev_consumed := 0, ev_cqes := [demo_cqe ud (word_of_int (- 19))]\<rparr>" demo_event]
      v out by (auto simp: reaped_def)
qed

text \<open>
  C14. A queue whose commands fail waits for ever: from any reachable state that is not stopping and
  has no request at the backing file, when every outstanding command comes back with an error other
  than abort, the tags are freed without the stopping flag; after that nothing is outstanding, none of
  the events that are possible then carries a completion, and over any number of them the thread is
  still waiting in its loop.
\<close>

theorem failed_queue_waits_forever:
  assumes "uring_ok U n" and "abi_ok A" and "queue_reach U A (loop_tgt_ops U A) loop_request sz n K q"
    and "\<not> queue_stopping q" and "io_inflight q = 0"
    and "events_ok U A (loop_tgt_ops U A) loop_request sz K q (ev # evs)"
    and "reaped ev = outstanding U K q" and "\<forall>c \<in> set (ev_cqes ev). cqe_res c \<notin> {abi_res_ok A, abi_res_abort A}"
  shows "\<exists>q'. io_loop U A (loop_tgt_ops U A) sz (ev # evs) q = Inr (Waiting q')
    \<and> outstanding U {#} q' = {#} \<and> (\<forall>e \<in> set evs. ev_cqes e = [])"
proof -
  have ev: "event_ok U A loop_request K q ev" using assms(6) by simp
  have bad: "\<forall>c \<in> set (ev_cqes ev). cqe_res c \<noteq> abi_res_ok A \<and> cqe_res c \<noteq> abi_res_abort A" using assms(8) by simp
  obtain advice q1 where p: "ublk_process_io U A (loop_tgt_ops U A) sz ev q = Inr (int (length (ev_cqes ev)), advice, q1)"
    and K: "K + taken U ev q - reaped ev = {#}" and q1: "sq_view U (ring q1) = []" "\<not> queue_stopping q1"
    by (rule loop.failure_round [OF assms(1,2) loop.reach_inv [OF assms(1-3)] assms(4) ev assms(7,5) bad])
  have "events_ok U A (loop_tgt_ops U A) loop_request sz {#} q1 evs" using assms(6) p K by simp
  from io_loop_starves [OF assms(1) q1(2,1) this] show ?thesis using p by simp
qed

theorem failed_queue_waits_forever_witness:
  "\<exists>q ud. \<not> is_target_io ud \<and> queue_reach (slot_uring 1) linux_abi (loop_tgt_ops (slot_uring 1) linux_abi) loop_request 65536 1 {#ud#} q
     \<and> (\<forall>m. \<exists>q'. io_loop (slot_uring 1) linux_abi (loop_tgt_ops (slot_uring 1) linux_abi) 65536
         (demo_event\<lparr>ev_consumed := 0, ev_cqes := [demo_cqe ud (- 5)]\<rparr> # replicate m (demo_event\<lparr>ev_consumed := 0\<rparr>)) q = Inr (Waiting q'))"
proof -
  obtain q ud where r: "queue_reach (slot_uring 1) linux_abi (loop_tgt_ops (slot_uring 1) linux_abi) loop_request 65536 1 {#ud#} q"
    and v: "sq_view (slot_uring 1) (ring q) = []" and s: "\<not> queue_stopping q" and io: "io_inflight q = 0" and ud: "\<not> is_target_io ud"
    by (rule demo_reach [OF loop.ublk_target_axioms])
  let ?ev = "demo_event\<lparr>ev_consumed := 0, ev_cqes := [demo_cqe ud (- 5)]\<rparr>" and ?idle = "demo_event\<lparr>ev_consumed := 0\<rparr>"
  have "event_ok (slot_uring 1) linux_abi loop_request {#ud#} q ?ev"
    by (simp add: event_ok_def demo_event_def reaped_def ETIME_def)
  moreover have "events_ok (slot_uring 1) linux_abi (loop_tgt_ops (slot_uring 1) linux_abi) loop_request 65536 K q1 (replicate m ?idle)"
    for K q1 m by (rule quiet_events_ok) (simp add: demo_event_def ETIME_def)
  ultimately have ok: "events_ok (slot_uring 1) linux_abi (loop_tgt_ops (slot_uring 1) linux_abi) loop_request 65536 {#ud#} q (?ev # replicate m ?idle)"
    for m by (simp split: sum.split)
  have all: "reaped ?ev = outstanding (slot_uring 1) {#ud#} q" using v by (simp add: outstanding_def reaped_def)
  have bad: "\<forall>c \<in> set (ev_cqes ?ev). cqe_res c \<notin> {abi_res_ok linux_abi, abi_res_abort linux_abi}" by simp
  from failed_queue_waits_forever [OF uring_ok_slot abi_ok_linux r s io ok all bad] show ?thesis using r ud by blast
qed

section \<open>What reaches the driver and the backing file\<close>

text \<open>
  The null target answers a request in full: the completion of a fetch command queues one
  commit for the same tag whose result is the request's size in bytes, 512 times the number
  of sectors; for requests below 2 GiB this is the value the driver reads as a signed integer.
\<close>

theorem null_commits_size:
  assumes "uring_ok U n" and "abi_ok A"
    and "queue_reach U A (null_tgt_ops U A) any_request sz n K q"
    and "cqe_user_data c \<in># K" and "cqe_res c = abi_res_ok A"
  shows "\<exists>q' s. ublk_handle_cqe A (null_tgt_ops U A) iods c q = Inr q'
    \<and> sq_view U (ring q') = sq_view U (ring q) @ [s]
    \<and> sqe_off s = ucast (abi_commit_and_fetch_req A)
    \<and> cmd_tag (sqe_cmd s) = word_of_nat (utag (cqe_user_data c))
    \<and> (let nr = iod_nr_sectors (iods (utag (cqe_user_data c))) in
         cmd_result (sqe_cmd s) = 512 * nr \<and>
         (unat nr < 2 ^ 22 \<longrightarrow> sint (cmd_result (sqe_cmd s)) = 512 * int (unat nr)))"
proof -
  let ?t = "utag (cqe_user_data c)"
  let ?nr = "iod_nr_sectors (iods ?t)"
  have inv: "loop_inv U (null_tgt_ops U A) n K q" by (rule null.reach_inv [OF assms(1-3)])
  have qi: "queue_inv U K {} 0 q" and n: "q_depth q \<le> n" using inv by (simp_all add: loop_inv_def)
  have cmd: "\<not> is_target_io (cqe_user_data c)"
    using loop_inv_no_target [OF inv _ assms(4)] by simp
  obtain q2 where h0: "ublk_handle_cqe A (null_tgt_ops U A) iods c q =
       (if cqe_res c = abi_res_ok A then seq (queue_io (null_tgt_ops U A) iods ?t q2) (\<lambda>(_, q3). Inr q3)
        else with_io ?t (\<lambda>io. io\<lparr>io_flags := UBLKSRV_IO_FREE\<rparr>) q2)"
    and q2: "queue_inv U (K - {#cqe_user_data c#}) {?t} 0 q2" "io_flags (ios q2 ! ?t) = 0"
      "q_depth q2 = q_depth q" "ring q2 = ring q"
    by (rule command_completion [OF qi assms(4) cmd, of A "null_tgt_ops U A" iods])
  have h: "ublk_handle_cqe A (null_tgt_ops U A) iods c q =
       seq (ublk_null_queue_io U A iods ?t q2) (\<lambda>(_, q3). Inr q3)"
    using h0 assms(5) by (simp add: null_tgt_ops_def)
  have n2: "q_depth q2 \<le> n" using n q2(3) by simp
  obtain q' s where q': "ublk_complete_io U A ?t (push_bit 9 ?nr) q2 = Inr (1, q')"
    and s: "sq_view U (ring q') = sq_view U (ring q2) @ [s]"
      "sqe_off s = ucast (abi_commit_and_fetch_req A)" "cmd_result (sqe_cmd s) = push_bit 9 ?nr"
      "cmd_tag (sqe_cmd s) = word_of_nat ?t"
    by (rule ublk_complete_io_inv [OF assms(1,2) q2(1) n2 singletonI q2(2) zero_le, where res = "push_bit 9 ?nr"])
  have mul: "push_bit 9 ?nr = 512 * ?nr" by (simp add: push_bit_eq_mult mult.commute)
  have "sint (512 * ?nr) = 512 * int (unat ?nr)" if "unat ?nr < 2 ^ 22"
    using sint_sectors_to_bytes [OF that] .
  then show ?thesis
    using h q' s(1,2,4) q2(4) unfolding mul s(3)
    by (intro exI [of _ q'] exI [of _ s]) (simp add: ublk_null_queue_io_def ublk_get_iod_def Let_def s(3) mul)
qed

theorem null_commits_size_witness:
  "\<exists>q ud q' s. ublk_handle_cqe linux_abi (null_tgt_ops (slot_uring 1) linux_abi) (ev_iods demo_event)
       (demo_cqe ud 0) q = Inr q'
     \<and> sq_view (slot_uring 1) (ring q') = [s] \<and> sint (cmd_result (sqe_cmd s)) = 4096"
proof -
  obtain q ud where r: "queue_reach (slot_uring 1) linux_abi (null_tgt_ops (slot_uring 1) linux_abi)
      any_request 65536 1 {#ud#} q" and v: "sq_view (slot_uring 1) (ring q) = []"
    by (rule demo_reach [OF null.ublk_target_axioms])
  have nr: "iod_nr_sectors (ev_iods demo_event t) = 8" for t by (simp add: demo_event_def)
  show ?thesis
    using null_commits_size [OF uring_ok_slot abi_ok_linux r, of "demo_cqe ud 0" "ev_iods demo_event"] v
    unfolding nr by (auto simp: Let_def)
qed

text \<open>
  The loop target translates a read or write into one request for fixed file 1 of the same
  tag: the driver's buffer, byte offset 512 times the start sector and length 512 times the
  number of sectors; the tag is handed to the target.
\<close>

theorem loop_submits_bytes:
  assumes "uring_ok U n" and "abi_ok A"
    and "queue_reach U A (loop_tgt_ops U A) loop_request sz n K q"
    and "cqe_user_data c \<in># K" and "cqe_res c = abi_res_ok A" and "\<not> is_target_io (cqe_user_data c)"
    and "iods (utag (cqe_user_data c)) = d"
    and "abi_get_op A (iod_op_flags d) \<in> {abi_op_read A, abi_op_write A}"
  shows "\<exists>q' s. ublk_handle_cqe A (loop_tgt_ops U A) iods c q = Inr q'
    \<and> sq_view U (ring q') = sq_view U (ring q) @ [s]
    \<and> sqe_opcode s = (if abi_get_op A (iod_op_flags d) = abi_op_read A then Op_Read else Op_Write)
    \<and> sqe_fd s = 1 \<and> sqe_fixed_file s \<and> sqe_addr s = iod_addr d
    \<and> sqe_len s = 512 * iod_nr_sectors d \<and> sqe_off s = 512 * iod_start_sector d
    \<and> is_target_io (sqe_user_data s) \<and> utag (sqe_user_data s) = utag (cqe_user_data c)"
proof -
  let ?t = "utag (cqe_user_data c)"
  have inv: "loop_inv U (loop_tgt_ops U A) n K q" by (rule loop.reach_inv [OF assms(1-3)])
  have qi: "queue_inv U K {} 0 q" and n: "q_depth q \<le> n" using inv by (simp_all add: loop_inv_def)
  obtain q2 where h0: "ublk_handle_cqe A (loop_tgt_ops U A) iods c q =
       (if cqe_res c = abi_res_ok A then seq (queue_io (loop_tgt_ops U A) iods ?t q2) (\<lambda>(_, q3). Inr q3)
        else with_io ?t (\<lambda>io. io\<lparr>io_flags := UBLKSRV_IO_FREE\<rparr>) q2)"
    and q2: "queue_inv U (K - {#cqe_user_data c#}) {?t} 0 q2" "q_depth q2 = q_depth q" "ring q2 = ring q"
    by (rule command_completion [OF qi assms(4) assms(6), of A "loop_tgt_ops U A" iods])
  have h: "ublk_handle_cqe A (loop_tgt_ops U A) iods c q =
       seq (ublk_loop_queue_io U A iods ?t q2) (\<lambda>(_, q3). Inr q3)"
    using h0 assms(5) by (simp add: loop_tgt_ops_def)
  have n2: "q_depth q2 \<le> n" using n q2(2) by simp
  have req: "loop_request A (iods ?t)" using assms(7,8) by (auto simp: loop_request_def)
  obtain q' prep s ud where q': "ublk_loop_queue_io U A iods ?t q2 = Inr (0, q')"
    and p: "loop_prep U A (iods ?t) = Inr prep"
    and v: "sq_view U (ring q') = sq_view U (ring q2) @ [(prep s)\<lparr>sqe_user_data := ud\<rparr>]"
    and ud: "utag ud = ?t" "is_target_io ud"
    by (rule loop_queue_io_serves [OF assms(1,2) q2(1) n2, where iods = iods, OF req])
  have "prep s = (prep_rw U (if abi_get_op A (iod_op_flags d) = abi_op_read A then Op_Read else Op_Write) 1
      (iod_addr d) (push_bit 9 (iod_nr_sectors d)) (push_bit 9 (iod_start_sector d)) s)\<lparr>sqe_fixed_file := True\<rparr>"
    by (rule loop_prep_rw [OF assms(2,8)]) (use p assms(7) in simp)
  moreover have "push_bit 9 (iod_nr_sectors d) = 512 * iod_nr_sectors d"
    "push_bit 9 (iod_start_sector d) = 512 * iod_start_sector d"
    by (simp_all add: push_bit_eq_mult mult.commute)
  ultimately show ?thesis
    using h q' v ud q2(3) by (auto simp: uring_prep [OF assms(1)])
qed

theorem loop_submits_bytes_witness:
  "\<exists>q ud q' s. ublk_handle_cqe linux_abi (loop_tgt_ops (slot_uring 1) linux_abi) (ev_iods demo_event)
       (demo_cqe ud 0) q = Inr q'
     \<and> sq_view (slot_uring 1) (ring q') = [s] \<and> sqe_opcode s = Op_Read
     \<and> sqe_len s = 4096 \<and> sqe_off s = 8192"
proof -
  obtain q ud where r: "queue_reach (slot_uring 1) linux_abi (loop_tgt_ops (slot_uring 1) linux_abi)
      loop_request 65536 1 {#ud#} q" and v: "sq_view (slot_uring 1) (ring q) = []"
    and ud: "\<not> is_target_io ud"
    by (rule demo_reach [OF loop.ublk_target_axioms])
  let ?d = "\<lparr>iod_op_flags = 0, iod_nr_sectors = 8, iod_start_sector = 16, iod_addr = 8192\<rparr>"
  have d: "ev_iods demo_event t = ?d" for t by (simp add: demo_event_def)
  have op: "abi_get_op linux_abi (iod_op_flags ?d) = abi_op_read linux_abi" by (simp add: linux_abi_def)
  show ?thesis
    using loop_submits_bytes [OF uring_ok_slot abi_ok_linux r, of "demo_cqe ud 0" "ev_iods demo_event" ?d]
      ud v op by (auto simp: d)
qed

text \<open>
  The result of the backing file is passed on unchanged: the completion of a target request
  queues exactly one commit for its tag whose result is the result of that request, an error
  number included, and \<open>io_inflight\<close> goes down by one.
\<close>

theorem loop_forwards_result:
  assumes "uring_ok U n" and "abi_ok A"
    and "queue_reach U A (loop_tgt_ops U A) loop_request sz n K q"
    and "cqe_user_data c \<in># K" and "is_target_io (cqe_user_data c)"
  shows "\<exists>q' s. ublk_handle_cqe A (loop_tgt_ops U A) iods c q = Inr q'
    \<and> sq_view U (ring q') = sq_view U (ring q) @ [s]
    \<and> sqe_off s = ucast (abi_commit_and_fetch_req A)
    \<and> utag (sqe_user_data s) = utag (cqe_user_data c) \<and> cmd_result (sqe_cmd s) = cqe_res c
    \<and> io_inflight q' = io_inflight q - 1 \<and> q_state q' = q_state q"
proof -
  have inv: "loop_inv U (loop_tgt_ops U A) n K q" by (rule loop.reach_inv [OF assms(1-3)])
  have qi: "queue_inv U K {} 0 q" and n: "q_depth q \<le> n" using inv by (simp_all add: loop_inv_def)
  have c: "queue_inv U (K - {#cqe_user_data c#}) {utag (cqe_user_data c)} 1 q"
    "io_flags (ios q ! utag (cqe_user_data c)) = 0"
    using queue_inv_completed [OF qi assms(4), of q 1] assms(5) by simp_all
  obtain q' s where "ublk_loop_io_done U A (utag (cqe_user_data c)) c q = Inr q'"
    and "served U (utag (cqe_user_data c)) False q q'" and "io_inflight q' = io_inflight q - 1"
    and "sq_view U (ring q') = sq_view U (ring q) @ [s]" and "cmd_result (sqe_cmd s) = cqe_res c"
    and "utag (sqe_user_data s) = utag (cqe_user_data c)"
    and "sqe_off s = ucast (abi_commit_and_fetch_req A)"
    by (rule loop_io_done_serves [OF assms(1,2) n c])
  then show ?thesis
    using assms(5) by (auto simp: ublk_handle_cqe_def ublksrv_handle_tgt_cqe_def served_def)
qed

theorem loop_forwards_result_witness:
  "\<exists>q ud q' s. ublk_handle_cqe linux_abi (loop_tgt_ops (slot_uring 1) linux_abi) (ev_iods demo_event)
       (demo_cqe ud (word_of_int (- EINVAL))) q = Inr q'
     \<and> sq_view (slot_uring 1) (ring q') = sq_view (slot_uring 1) (ring q) @ [s]
     \<and> sint (cmd_result (sqe_cmd s)) = - EINVAL \<and> io_inflight q' = io_inflight q - 1"
proof -
  obtain q ud where r: "queue_reach (slot_uring 1) linux_abi (loop_tgt_ops (slot_uring 1) linux_abi)
      loop_request 65536 1 {#ud#} q" and ud: "is_target_io ud"
    by (rule demo_reach_target)
  let ?e = "word_of_int (- EINVAL) :: s32"
  have e: "sint ?e = - EINVAL" by (simp add: EINVAL_def)
  have c: "cqe_user_data (demo_cqe ud ?e) \<in># {#ud#}" "is_target_io (cqe_user_data (demo_cqe ud ?e))"
    using ud by simp_all
  obtain q' s where "ublk_handle_cqe linux_abi (loop_tgt_ops (slot_uring 1) linux_abi) (ev_iods demo_event)
       (demo_cqe ud ?e) q = Inr q'"
    and "sq_view (slot_uring 1) (ring q') = sq_view (slot_uring 1) (ring q) @ [s]"
    and "cmd_result (sqe_cmd s) = ?e" and "io_inflight q' = io_inflight q - 1"
    using loop_forwards_result [OF uring_ok_slot abi_ok_linux r c, of "ev_iods demo_event"]
    unfolding demo_cqe_simps by blast
  then show ?thesis using e by metis
qed

section \<open>The cookie\<close>

text \<open>
  C13. \<open>build_user_data\<close> passes its assertion exactly for the arguments within its limits, and
  then the three accessors give back the tag, the operation and the target mark.
\<close>

theorem cookie_roundtrip:
  "case build_user_data tag op tgt_data is_tgt of
     Inl e \<Rightarrow> e = Assert_Failed \<and> \<not> (unat tag < 2 ^ 16 \<and> unat op < 2 ^ 8 \<and> unat tgt_data < 2 ^ 16)
   | Inr ud \<Rightarrow> unat tag < 2 ^ 16 \<and> unat op < 2 ^ 8 \<and> unat tgt_data < 2 ^ 16
       \<and> user_data_to_tag ud = tag \<and> user_data_to_op ud = op \<and> is_target_io ud = odd is_tgt"
proof (cases "build_user_data tag op tgt_data is_tgt")
  case (Inl e)
  then show ?thesis
    using build_user_data_Inr_iff [of tag op tgt_data is_tgt] by (auto simp: build_user_data_def split: if_splits)
next
  case (Inr ud)
  then have "unat tag < 2 ^ 16 \<and> unat op < 2 ^ 8 \<and> unat tgt_data < 2 ^ 16"
    using build_user_data_Inr_iff by blast
  then show ?thesis
    using Inr user_data_to_tag_build [OF Inr] user_data_to_op_build [OF Inr] is_target_io_build [OF Inr]
    by (simp add: bit_0)
qed

text \<open>
  The assertion lets 16 bits of target data through, but the shift by 24 in 32 bits keeps only
  the low 8: cookies that differ only in the upper half of the target data are equal.
\<close>

theorem cookie_truncates_target_data:
  assumes "unat tgt_data < 2 ^ 16"
  shows "build_user_data tag op tgt_data is_tgt = build_user_data tag op (tgt_data AND 0xff) is_tgt"
proof -
  have m: "(0xff :: u32) = mask 8" by (simp add: mask_eq_exp_minus_1)
  have low: "push_bit 24 (tgt_data AND 0xff) = push_bit 24 tgt_data"
    unfolding m by (rule bit_word_eqI) (auto simp: bit_push_bit_iff bit_and_iff bit_mask_iff dest: bit_imp_le_length)
  have "drop_bit 16 tgt_data = 0" using assms by (simp add: drop_bit_eq_zero_iff_less)
  moreover have "drop_bit 16 (tgt_data AND 0xff) = 0"
    unfolding m by (rule bit_word_eqI) (simp add: bit_drop_bit_eq bit_and_iff bit_mask_iff)
  ultimately show ?thesis using \<open>drop_bit 16 tgt_data = 0\<close> by (simp only: build_user_data_def low)
qed

theorem cookie_truncates_target_data_witness:
  "build_user_data 3 0 0x100 1 = build_user_data 3 0 0 1"
  using cookie_truncates_target_data [of "0x100" 3 0 1] by simp

section \<open>Requests the loop target refuses\<close>

text \<open>
  A request the loop target does not support (discard, write zeroes, an unknown operation)
  is completed with the matching error, but the entry taken for it stays in the submission
  queue with whatever its slot held before: two entries are submitted for one request.
\<close>

theorem refused_leaves_stale_entry:
  assumes "uring_ok U n" and "abi_ok A"
    and "queue_reach U A (loop_tgt_ops U A) loop_request sz n K q"
    and "cqe_user_data c \<in># K" and "cqe_res c = abi_res_ok A" and "\<not> is_target_io (cqe_user_data c)"
    and "\<not> loop_request A (iods (utag (cqe_user_data c)))"
    and "length (sq_view U (ring q)) + 1 < n"
  shows "\<exists>q' r stale s. ublk_handle_cqe A (loop_tgt_ops U A) iods c q = Inr q'
    \<and> get_sqe U (ring q) = Some r \<and> sq_view U r = sq_view U (ring q) @ [stale]
    \<and> sq_view U (ring q') = sq_view U (ring q) @ [stale, s]
    \<and> cmd_result (sqe_cmd s) \<in> {word_of_int (- ENOTSUP), word_of_int (- EINVAL)}
    \<and> utag (sqe_user_data s) = utag (cqe_user_data c) \<and> io_inflight q' = io_inflight q"
proof -
  let ?t = "utag (cqe_user_data c)"
  have inv: "loop_inv U (loop_tgt_ops U A) n K q" by (rule loop.reach_inv [OF assms(1-3)])
  have qi: "queue_inv U K {} 0 q" using inv by (simp_all add: loop_inv_def)
  obtain q2 where h0: "ublk_handle_cqe A (loop_tgt_ops U A) iods c q =
       (if cqe_res c = abi_res_ok A then seq (queue_io (loop_tgt_ops U A) iods ?t q2) (\<lambda>(_, q3). Inr q3)
        else with_io ?t (\<lambda>io. io\<lparr>io_flags := UBLKSRV_IO_FREE\<rparr>) q2)"
    and q2: "queue_inv U (K - {#cqe_user_data c#}) {?t} 0 q2" "io_flags (ios q2 ! ?t) = 0"
      "io_inflight q2 = io_inflight q" "ring q2 = ring q" "ios q2 = ios q" "?t < q_depth q"
    by (rule command_completion [OF qi assms(4,6), of A "loop_tgt_ops U A" iods])
  have tl: "?t < length (ios q2)" "?t < UBLK_QUEUE_DEPTH"
    using queue_inv_depth [OF qi q2(6)] queue_invD(1) [OF qi] q2(5) by simp_all
  obtain r where r: "get_sqe U (ring q) = Some r"
    using uring_get_None [OF assms(1), of "ring q"] assms(8) by fastforce
  obtain stale where stale: "sq_view U r = sq_view U (ring q) @ [stale]"
    by (rule uring_get_Some [OF assms(1) r])
  obtain e where e: "loop_prep U A (iods ?t) = Inl e" "e = - ENOTSUP \<or> e = - EINVAL"
    by (rule loop_prep_refused [OF assms(7)])
  let ?q3 = "q2\<lparr>ring := r\<rparr>"
  have room: "length (sq_view U (ring ?q3)) < n" using stale assms(8) by simp
  have t3: "?t < length (ios ?q3)" "io_flags (ios ?q3 ! ?t) = 0" using tl q2(2) by simp_all
  obtain q' s where c: "ublk_complete_io U A ?t (word_of_int e) ?q3 = Inr (1, q')"
    and v: "sq_view U (ring q') = sq_view U (ring ?q3) @ [s]" "cmd_result (sqe_cmd s) = word_of_int e"
      "utag (sqe_user_data s) = ?t"
    by (rule ublk_complete_io_commits [OF assms(1,2) t3(1) tl(2) t3(2) room])
  have neg: "e < 0" using e(2) by (auto simp: ENOTSUP_def EINVAL_def)
  have "io_inflight q' = io_inflight q2"
    using c by (auto simp: ublk_complete_io_def with_io_def ublk_queue_io_cmd_def Let_def
        split: if_splits option.splits elim!: seq_InrE)
  moreover have "ublk_handle_cqe A (loop_tgt_ops U A) iods c q = Inr q'"
    using h0 assms(5) r e(1) neg c q2(4)
    by (simp add: loop_tgt_ops_def ublk_loop_queue_io_def loop_queue_tgt_io_def ublk_get_iod_def)
  ultimately show ?thesis using r stale v e(2) q2(3) by fastforce
qed

theorem refused_leaves_stale_entry_witness:
  "\<exists>q ud q'. ublk_handle_cqe linux_abi (loop_tgt_ops (slot_uring 2) linux_abi)
       (\<lambda>_. \<lparr>iod_op_flags = 3, iod_nr_sectors = 8, iod_start_sector = 16, iod_addr = 8192\<rparr>)
       (demo_cqe ud 0) q = Inr q' \<and> length (sq_view (slot_uring 2) (ring q')) = 2"
proof -
  let ?iods = "\<lambda>_::nat. \<lparr>iod_op_flags = 3, iod_nr_sectors = 8, iod_start_sector = 16, iod_addr = 8192\<rparr>"
  obtain q ud where r: "queue_reach (slot_uring 2) linux_abi (loop_tgt_ops (slot_uring 2) linux_abi)
      loop_request 65536 2 {#ud#} q"
    and v: "sq_view (slot_uring 2) (ring q) = []" and ud: "\<not> is_target_io ud"
    by (rule demo_reach_in [OF loop.ublk_target_axioms zero_less_numeral])
  have req: "\<not> loop_request linux_abi (?iods (utag (cqe_user_data (demo_cqe ud 0))))"
    by (simp add: loop_request_def linux_abi_def)
  have c: "cqe_user_data (demo_cqe ud 0) \<in># {#ud#}" "cqe_res (demo_cqe ud 0) = abi_res_ok linux_abi"
    "\<not> is_target_io (cqe_user_data (demo_cqe ud 0))"
    using ud by (simp_all add: linux_abi_def)
  have room: "length (sq_view (slot_uring 2) (ring q)) + 1 < 2" using v by simp
  obtain q' where "ublk_handle_cqe linux_abi (loop_tgt_ops (slot_uring 2) linux_abi) ?iods (demo_cqe ud 0) q = Inr q'"
    and "length (sq_view (slot_uring 2) (ring q')) = 2"
    using refused_leaves_stale_entry [where iods = ?iods, OF uring_ok_slot abi_ok_linux r c req room] v by auto
  then show ?thesis by (intro exI [of _ q] exI [of _ ud] exI [of _ q']) simp
qed

end
