(* ===== verification/Ublk_Resources.thy ===== *)
theory Ublk_Resources
  imports Ublk_Loop
begin

text \<open>
  The life of a queue thread: \<open>ublk_queue_init\<close>, \<open>ublk_queue_deinit\<close> and
  \<open>ublk_io_handler_fn\<close> of \<open>miniublk.c\<close>, with a trace of what is acquired and released, the
  sizes and offsets of the shared descriptor buffers, and the proof that a thread gives back
  what it took.
\<close>

section \<open>Sizes\<close>

definition round_up :: "u32 \<Rightarrow> u32 \<Rightarrow> u32" where
  "round_up val rnd = (val + (rnd - 1)) AND NOT (rnd - 1)"

text \<open>\<open>page\<close> is the result of \<open>getpagesize()\<close>.\<close>

definition ublk_queue_cmd_buf_sz_of :: "abi \<Rightarrow> u32 \<Rightarrow> nat \<Rightarrow> u32" where
  "ublk_queue_cmd_buf_sz_of A page depth = round_up (word_of_nat (depth * abi_iod_size A)) page"

definition ublk_queue_max_cmd_buf_sz :: "abi \<Rightarrow> u32 \<Rightarrow> u32" where
  "ublk_queue_max_cmd_buf_sz A page = ublk_queue_cmd_buf_sz_of A page (abi_max_queue_depth A)"

definition ublk_queue_cmd_buf_sz :: "abi \<Rightarrow> u32 \<Rightarrow> 'r ublk_queue \<Rightarrow> u32" where
  "ublk_queue_cmd_buf_sz A page q = ublk_queue_cmd_buf_sz_of A page (q_depth q)"

text \<open>The file offset of the descriptor buffer of queue \<open>q_id\<close>; the product is an \<open>int\<close>.\<close>

definition cmd_buf_off :: "abi \<Rightarrow> u32 \<Rightarrow> nat \<Rightarrow> u64" where
  "cmd_buf_off A page qid =
     word_of_nat (abi_cmd_buf_offset A) + scast (word_of_nat qid * ublk_queue_max_cmd_buf_sz A page)"

text \<open>With a power of two for \<open>rnd\<close>, \<open>round_up\<close> is the next multiple of it.\<close>

lemma unat_round_up:
  assumes "k < 32" and "unat val + 2 ^ k \<le> 2 ^ 32"
  shows "unat (round_up val (2 ^ k)) = (unat val + 2 ^ k - 1) div 2 ^ k * 2 ^ k"
proof -
  have m: "(2 ^ k :: u32) - 1 = mask k" by (simp add: mask_eq_exp_minus_1)
  have um: "unat (mask k :: u32) = 2 ^ k - 1"
    using assms(1) by (simp add: unat_exp_minus_1 flip: m)
  have pos: "(0::nat) < 2 ^ k" by simp
  have lt: "unat val + unat (mask k :: u32) < 2 ^ LENGTH(32)" using assms(2) pos um by simp
  have "unat (val + mask k) = unat val + (2 ^ k - 1)"
    using unat_add_lem [THEN iffD1, OF lt] um by simp
  then show ?thesis using pos by (simp add: round_up_def m unat_and_not_mask)
qed

lemma round_up_bounds:
  assumes "k < 32" and "unat val + 2 ^ k \<le> 2 ^ 32"
  shows "unat val \<le> unat (round_up val (2 ^ k))" and "unat (round_up val (2 ^ k)) < unat val + 2 ^ k"
    and "2 ^ k dvd unat (round_up val (2 ^ k))"
proof -
  let ?n = "unat val + 2 ^ k - 1"
  have pos: "(0::nat) < 2 ^ k" by simp
  have "?n div 2 ^ k * 2 ^ k = ?n - ?n mod 2 ^ k" by (simp add: minus_mod_eq_div_mult)
  moreover have "?n mod 2 ^ k < 2 ^ k" by simp
  ultimately show "unat val \<le> unat (round_up val (2 ^ k))" "unat (round_up val (2 ^ k)) < unat val + 2 ^ k"
    using pos unfolding unat_round_up [OF assms] by linarith+
  show "2 ^ k dvd unat (round_up val (2 ^ k))" by (simp add: unat_round_up [OF assms])
qed

section \<open>Effects\<close>

datatype q_effect =
    Mapped u64 u32 u64
  | Unmapped u64 u32
  | Allocated u64
  | Freed u64
  | Ring_Opened int ring_setup
  | Ring_Closed int
  | Ring_Fd_Registered
  | Ring_Fd_Unregistered
  | Files_Registered
  | Files_Unregistered

text \<open>
  The answers of the system to one \<open>ublk_queue_init\<close>: the page size, the address \<open>mmap\<close>
  returns (\<open>None\<close> for \<open>MAP_FAILED\<close>), the memory \<open>posix_memalign\<close> returns for each index (\<open>None\<close> for an
  error), the result of \<open>io_uring_queue_init_params\<close> with the ring and the descriptor it leaves
  in \<open>q->ring\<close>, and the result of \<open>io_uring_register_files\<close>.
\<close>

record 'r queue_env =
  env_page :: u32
  env_mmap :: "u64 option"
  env_alloc :: "nat \<Rightarrow> u64 option"
  env_ring_ret :: int
  env_ring_fd :: int
  env_ring :: 'r
  env_files :: int

definition MAP_FAILED :: u64 where "MAP_FAILED = - 1"

section \<open>Operations\<close>

fun free_ios :: "nat list \<Rightarrow> 'r ublk_queue \<Rightarrow> fault + q_effect list" where
  "free_ios [] q = Inr []"
| "free_ios (i # is) q =
     (if i < length (ios q) then seq (free_ios is q) (\<lambda>tr. Inr (Freed (buf_addr (ios q ! i)) # tr))
      else Inl Out_Of_Bounds)"

definition ublk_queue_deinit ::
  "abi \<Rightarrow> u32 \<Rightarrow> 'r ublk_queue \<Rightarrow> fault + ('r ublk_queue \<times> q_effect list)" where
  "ublk_queue_deinit A page q =
     (let (closed, q1) =
            (if 0 < ring_fd q
             then ([Files_Unregistered, Ring_Closed (ring_fd q)], q\<lparr>ring_fd := - 1\<rparr>) else ([], q));
          unmapped = (if io_cmd_buf q1 \<noteq> 0
                      then [Unmapped (io_cmd_buf q1) (ublk_queue_cmd_buf_sz A page q1)] else [])
      in seq (free_ios [0..<q_depth q1] q1) (\<lambda>freed.
           Inr (q1, Ring_Fd_Unregistered # closed @ unmapped @ freed)))"

text \<open>The allocation loop: it stops at the first index that \<open>posix_memalign\<close> refuses.\<close>

fun alloc_ios ::
  "(nat \<Rightarrow> u64 option) \<Rightarrow> nat list \<Rightarrow> 'r ublk_queue \<Rightarrow> fault + (bool \<times> 'r ublk_queue \<times> q_effect list)" where
  "alloc_ios alloc [] q = Inr (True, q, [])"
| "alloc_ios alloc (i # is) q =
     seq (with_io i (\<lambda>io. io\<lparr>buf_addr := 0\<rparr>) q) (\<lambda>q1.
       case alloc i of
         None \<Rightarrow> Inr (False, q1, [])
       | Some p \<Rightarrow>
           seq (with_io i (\<lambda>io. io\<lparr>buf_addr := p, io_flags := UBLKSRV_NEED_FETCH_RQ OR UBLKSRV_IO_FREE\<rparr>) q1)
             (\<lambda>q2. seq (alloc_ios alloc is q2) (\<lambda>(ok, q3, tr). Inr (ok, q3, Allocated p # tr))))"

definition queue_init_fail ::
  "abi \<Rightarrow> u32 \<Rightarrow> q_effect list \<Rightarrow> 'r ublk_queue \<Rightarrow> fault + (int \<times> 'r ublk_queue \<times> q_effect list)" where
  "queue_init_fail A page tr q =
     seq (ublk_queue_deinit A page q) (\<lambda>(q', tr'). Inr (- ENOMEM, q', tr @ tr'))"

text \<open>The ring of a queue: as many completions as entries, one for each tag.\<close>

definition queue_ring :: "nat \<Rightarrow> ring_setup" where
  "queue_ring depth =
     ublk_setup_ring (word_of_nat depth) (word_of_nat depth) (IORING_SETUP_SQE128 OR IORING_SETUP_COOP_TASKRUN)"

definition ublk_queue_init ::
  "abi \<Rightarrow> 'r queue_env \<Rightarrow> nat \<Rightarrow> 'r ublk_queue \<Rightarrow> fault + (int \<times> 'r ublk_queue \<times> q_effect list)" where
  "ublk_queue_init A env depth q =
     (let q0 = q\<lparr>q_state := 0, q_depth := depth, cmd_inflight := 0\<rparr>;
          cmd_buf_size = ublk_queue_cmd_buf_sz A (env_page env) q0;
          off = cmd_buf_off A (env_page env) (q_id q0) in
      case env_mmap env of
        None \<Rightarrow> queue_init_fail A (env_page env) [] (q0\<lparr>io_cmd_buf := MAP_FAILED\<rparr>)
      | Some buf \<Rightarrow>
          seq (alloc_ios (env_alloc env) [0..<depth] (q0\<lparr>io_cmd_buf := buf\<rparr>)) (\<lambda>(ok, q1, allocs).
            let tr1 = Mapped buf cmd_buf_size off # allocs in
            if \<not> ok then queue_init_fail A (env_page env) tr1 q1
            else let q2 = q1\<lparr>ring := env_ring env, ring_fd := env_ring_fd env\<rparr> in
              if env_ring_ret env < 0 then queue_init_fail A (env_page env) tr1 q2
              else let tr2 = tr1 @ [Ring_Opened (env_ring_fd env) (queue_ring depth), Ring_Fd_Registered] in
                if env_files env \<noteq> 0 then queue_init_fail A (env_page env) tr2 q2
                else Inr (0, q2, tr2 @ [Files_Registered])))"

text \<open>
  The thread function. Without a fault it has returned (with the trace of the whole thread), or
  it is still in its loop when the events are used up.
\<close>

definition ublk_io_handler_fn ::
  "'r uring \<Rightarrow> abi \<Rightarrow> 'r tgt_ops \<Rightarrow> u32 \<Rightarrow> nat \<Rightarrow> 'r queue_env \<Rightarrow> event list \<Rightarrow> 'r ublk_queue
   \<Rightarrow> fault + ('r loop_result \<times> q_effect list)" where
  "ublk_io_handler_fn U A ops io_buf_size depth env evs q =
     seq (ublk_queue_init A env depth q) (\<lambda>(ret, q1, tr1).
       if ret \<noteq> 0 then Inr (Exited q1, tr1)
       else seq (ublk_submit_fetch_commands U A q1) (\<lambda>q2.
         seq (io_loop U A ops io_buf_size evs q2) (\<lambda>res.
           case res of
             Waiting q3 \<Rightarrow> Inr (Waiting q3, tr1)
           | Exited q3 \<Rightarrow> seq (ublk_queue_deinit A (env_page env) q3)
                            (\<lambda>(q4, tr2). Inr (Exited q4, tr1 @ tr2)))))"

section \<open>What a trace holds\<close>

datatype resource = Buf u64 | Map u64 u32 | Fd int

fun acquired1 :: "q_effect \<Rightarrow> resource multiset" where
  "acquired1 (Mapped a s off) = {#Map a s#}"
| "acquired1 (Allocated p) = {#Buf p#}"
| "acquired1 (Ring_Opened fd s) = {#Fd fd#}"
| "acquired1 e = {#}"

text \<open>\<open>free(NULL)\<close> releases nothing.\<close>

fun released1 :: "q_effect \<Rightarrow> resource multiset" where
  "released1 (Unmapped a s) = {#Map a s#}"
| "released1 (Freed p) = (if p = 0 then {#} else {#Buf p#})"
| "released1 (Ring_Closed fd) = {#Fd fd#}"
| "released1 e = {#}"

definition acquired :: "q_effect list \<Rightarrow> resource multiset" where
  "acquired tr = sum_list (map acquired1 tr)"

definition released :: "q_effect list \<Rightarrow> resource multiset" where
  "released tr = sum_list (map released1 tr)"

lemma effect_sums [simp]:
  "acquired [] = {#}" "released [] = {#}"
  "acquired (e # tr) = acquired1 e + acquired tr" "released (e # tr) = released1 e + released tr"
  "acquired (tr @ tr') = acquired tr + acquired tr'" "released (tr @ tr') = released tr + released tr'"
  by (simp_all add: acquired_def released_def)

text \<open>What a queue holds, as its fields show it.\<close>

definition buffers :: "'r ublk_queue \<Rightarrow> nat list \<Rightarrow> resource multiset" where
  "buffers q is = mset (map Buf (filter (\<lambda>p. p \<noteq> 0) (map (\<lambda>i. buf_addr (ios q ! i)) is)))"

definition holdings :: "abi \<Rightarrow> u32 \<Rightarrow> 'r ublk_queue \<Rightarrow> resource multiset" where
  "holdings A page q =
     (if 0 < ring_fd q then {#Fd (ring_fd q)#} else {#}) +
     (if io_cmd_buf q \<noteq> 0 then {#Map (io_cmd_buf q) (ublk_queue_cmd_buf_sz A page q)#} else {#}) +
     buffers q [0..<q_depth q]"

text \<open>
  The environment keeps its promises: memory is not at address 0 and \<open>mmap\<close> does not answer
  0, a ring descriptor is positive when there is one and not otherwise.
\<close>

definition env_ok :: "'r uring \<Rightarrow> nat \<Rightarrow> 'r queue_env \<Rightarrow> bool" where
  "env_ok U depth env \<longleftrightarrow>
     env_mmap env \<noteq> Some 0 \<and> (\<forall>i < depth. env_alloc env i \<noteq> Some 0) \<and>
     (0 < env_ring_fd env \<longleftrightarrow> 0 \<le> env_ring_ret env) \<and>
     (0 \<le> env_ring_ret env \<longrightarrow> sq_view U (env_ring env) = [])"

text \<open>A queue of a device just allocated with \<open>calloc\<close>.\<close>

definition queue_zeroed :: "'r ublk_queue \<Rightarrow> bool" where
  "queue_zeroed q \<longleftrightarrow>
     length (ios q) = UBLK_QUEUE_DEPTH \<and> (\<forall>io \<in> set (ios q). buf_addr io = 0) \<and>
     ring_fd q = 0 \<and> io_inflight q = 0"

lemma buffers_simps [simp]:
  "buffers q [] = {#}"
  "buffers q (i # is) =
     (if buf_addr (ios q ! i) = 0 then {#} else {#Buf (buf_addr (ios q ! i))#}) + buffers q is"
  by (simp_all add: buffers_def)

lemma buffers_cong:
  "\<forall>i \<in> set is. buf_addr (ios q ! i) = buf_addr (ios q' ! i) \<Longrightarrow> buffers q is = buffers q' is"
  by (induction "is") simp_all

lemma buffers_zero: "\<forall>i \<in> set is. buf_addr (ios q ! i) = 0 \<Longrightarrow> buffers q is = {#}"
  by (induction "is") simp_all

section \<open>Deinit releases the holdings\<close>

lemma free_ios_buffers:
  "\<forall>i \<in> set is. i < length (ios q) \<Longrightarrow>
   \<exists>tr. free_ios is q = Inr tr \<and> released tr = buffers q is \<and> acquired tr = {#}"
proof (induction "is")
  case Nil
  then show ?case by simp
next
  case (Cons i js)
  then obtain tr where "free_ios js q = Inr tr" "released tr = buffers q js" "acquired tr = {#}" by auto
  then show ?case using Cons.prems by simp
qed

lemma queue_deinit_releases:
  assumes "q_depth q \<le> length (ios q)"
  obtains q' tr where "ublk_queue_deinit A page q = Inr (q', tr)"
    and "released tr = holdings A page q" and "acquired tr = {#}"
    and "\<not> 0 < ring_fd q'" and "ios q' = ios q"
proof -
  let ?q1 = "if 0 < ring_fd q then q\<lparr>ring_fd := - 1\<rparr> else q"
  have same: "ios ?q1 = ios q" "q_depth ?q1 = q_depth q" "io_cmd_buf ?q1 = io_cmd_buf q" by simp_all
  have ids: "\<forall>i \<in> set [0..<q_depth q]. i < length (ios ?q1)" using assms by simp
  obtain tr where tr: "free_ios [0..<q_depth q] ?q1 = Inr tr"
    "released tr = buffers ?q1 [0..<q_depth q]" "acquired tr = {#}"
    using free_ios_buffers [OF ids] by blast
  have bufs: "buffers ?q1 [0..<q_depth q] = buffers q [0..<q_depth q]"
    by (rule buffers_cong) simp
  let ?closed = "if 0 < ring_fd q then [Files_Unregistered, Ring_Closed (ring_fd q)] else []"
  let ?unmapped = "if io_cmd_buf q \<noteq> 0 then [Unmapped (io_cmd_buf q) (ublk_queue_cmd_buf_sz A page q)] else []"
  have "ublk_queue_deinit A page q = Inr (?q1, Ring_Fd_Unregistered # ?closed @ ?unmapped @ tr)"
    using tr(1) same by (simp add: ublk_queue_deinit_def ublk_queue_cmd_buf_sz_def split: if_splits)
  then show thesis
    by (rule that) (use tr(2,3) bufs in \<open>simp_all add: holdings_def\<close>)
qed

section \<open>Init acquires them\<close>

text \<open>
  What the allocation loop has done: it got and recorded every buffer of its indices up to
  the first refusal and changed nothing else.
\<close>

definition alloc_outcome ::
  "(nat \<Rightarrow> u64 option) \<Rightarrow> nat list \<Rightarrow> 'r ublk_queue \<Rightarrow> bool \<Rightarrow> 'r ublk_queue \<Rightarrow> q_effect list \<Rightarrow> bool" where
  "alloc_outcome alloc is q ok q' tr \<longleftrightarrow>
     acquired tr = buffers q' is \<and> released tr = {#} \<and>
     q' = q\<lparr>ios := ios q'\<rparr> \<and> length (ios q') = length (ios q) \<and>
     (\<forall>i. i \<notin> set is \<longrightarrow> ios q' ! i = ios q ! i) \<and>
     (ok \<longleftrightarrow> (\<forall>i \<in> set is. alloc i \<noteq> None)) \<and>
     (ok \<longrightarrow> (\<forall>i \<in> set is. io_flags (ios q' ! i) = UBLKSRV_NEED_FETCH_RQ OR UBLKSRV_IO_FREE))"

lemma alloc_outcome_refused:
  assumes "i < length (ios q)" and "\<forall>j \<in> set is. buf_addr (ios q ! j) = 0" and "alloc i = None"
    and "q' = q\<lparr>ios := (ios q)[i := (ios q ! i)\<lparr>buf_addr := 0\<rparr>]\<rparr>"
  shows "alloc_outcome alloc (i # is) q False q' []"
proof -
  have "\<forall>j \<in> set is. buf_addr (ios q' ! j) = 0"
    using assms(1,2) by (auto simp: assms(4) nth_list_update)
  then have "buffers q' (i # is) = {#}"
    using assms(1) by (simp add: buffers_zero assms(4))
  then show ?thesis using assms by (auto simp: alloc_outcome_def simp del: buffers_simps)
qed

lemma alloc_outcome_granted:
  assumes i: "i < length (ios q)" "i \<notin> set is" and p: "alloc i = Some p" "p \<noteq> 0"
    and io: "io = (ios q ! i)\<lparr>buf_addr := p, io_flags := UBLKSRV_NEED_FETCH_RQ OR UBLKSRV_IO_FREE\<rparr>"
    and rest: "alloc_outcome alloc is (q\<lparr>ios := (ios q)[i := io]\<rparr>) ok q' tr"
  shows "alloc_outcome alloc (i # is) q ok q' (Allocated p # tr)"
proof -
  have q: "q' = q\<lparr>ios := ios q'\<rparr>" using rest by (simp add: alloc_outcome_def)
  have io': "ios q' ! i = io" using rest i by (simp add: alloc_outcome_def)
  have "acquired (Allocated p # tr) = buffers q' (i # is)"
    using rest p io io' by (simp add: alloc_outcome_def)
  moreover have "\<forall>j. j \<notin> set (i # is) \<longrightarrow> ios q' ! j = ios q ! j"
    using rest by (simp add: alloc_outcome_def)
  moreover have "ok \<longleftrightarrow> (\<forall>j \<in> set (i # is). alloc j \<noteq> None)"
    using rest p by (simp add: alloc_outcome_def)
  moreover have "ok \<longrightarrow> (\<forall>j \<in> set (i # is). io_flags (ios q' ! j) = UBLKSRV_NEED_FETCH_RQ OR UBLKSRV_IO_FREE)"
    using rest io io' by (simp add: alloc_outcome_def)
  moreover have "length (ios q') = length (ios q)" "released (Allocated p # tr) = {#}"
    using rest by (simp_all add: alloc_outcome_def)
  ultimately show ?thesis using q unfolding alloc_outcome_def by blast
qed

lemma alloc_ios_result:
  assumes "\<forall>i \<in> set is. i < length (ios q) \<and> alloc i \<noteq> Some 0" and "distinct is"
    and "\<forall>i \<in> set is. buf_addr (ios q ! i) = 0"
  shows "\<exists>ok q' tr. alloc_ios alloc is q = Inr (ok, q', tr) \<and> alloc_outcome alloc is q ok q' tr"
  using assms
proof (induction "is" arbitrary: q)
  case Nil
  then show ?case by (auto simp: alloc_outcome_def)
next
  case (Cons i js)
  have i: "i < length (ios q)" "alloc i \<noteq> Some 0" "i \<notin> set js" "distinct js" using Cons.prems by auto
  show ?case
  proof (cases "alloc i")
    case None
    let ?q' = "q\<lparr>ios := (ios q)[i := (ios q ! i)\<lparr>buf_addr := 0\<rparr>]\<rparr>"
    have "alloc_ios alloc (i # js) q = Inr (False, ?q', [])" using None i by (simp add: with_io_def)
    moreover have "alloc_outcome alloc (i # js) q False ?q' []"
      by (rule alloc_outcome_refused) (use Cons.prems None i in simp_all)
    ultimately show ?thesis by blast
  next
    case (Some p)
    let ?io = "(ios q ! i)\<lparr>buf_addr := p, io_flags := UBLKSRV_NEED_FETCH_RQ OR UBLKSRV_IO_FREE\<rparr>"
    let ?q2 = "q\<lparr>ios := (ios q)[i := ?io]\<rparr>"
    have pre: "\<forall>j \<in> set js. j < length (ios ?q2) \<and> alloc j \<noteq> Some 0"
      "\<forall>j \<in> set js. buf_addr (ios ?q2 ! j) = 0"
      using Cons.prems i by (auto simp: nth_list_update)
    obtain ok q' tr where r: "alloc_ios alloc js ?q2 = Inr (ok, q', tr)" "alloc_outcome alloc js ?q2 ok q' tr"
      using Cons.IH [OF pre(1) i(4) pre(2)] by blast
    have "alloc_ios alloc (i # js) q = Inr (ok, q', Allocated p # tr)"
      using Some i r(1) by (simp add: with_io_def)
    moreover have "alloc_outcome alloc (i # js) q ok q' (Allocated p # tr)"
      by (rule alloc_outcome_granted [OF i(1,3) Some _ refl r(2)]) (use Some i(2) in simp)
    ultimately show ?thesis by blast
  qed
qed

text \<open>The failure label: everything the queue holds is released, and -ENOMEM returned.\<close>

lemma queue_init_fail_releases:
  assumes "q_depth q \<le> length (ios q)"
  obtains q' tr' where "queue_init_fail A page tr q = Inr (- ENOMEM, q', tr @ tr')"
    and "released tr' = holdings A page q" and "acquired tr' = {#}"
proof -
  obtain q' tr' where "ublk_queue_deinit A page q = Inr (q', tr')"
    and "released tr' = holdings A page q" and "acquired tr' = {#}"
    by (rule queue_deinit_releases [OF assms])
  then show thesis by (intro that) (simp_all add: queue_init_fail_def)
qed

lemma queue_init_result:
  assumes zero: "queue_zeroed q" and env: "env_ok U depth env" and depth: "depth \<le> UBLK_QUEUE_DEPTH"
  obtains (ready) q' tr where "ublk_queue_init A env depth q = Inr (0, q', tr)"
      and "queue_fresh U q'" and "q_depth q' = depth" and "released tr = {#}"
      and "acquired tr = holdings A (env_page env) q'" and "env_mmap env \<noteq> None"
      and "\<exists>fd. Ring_Opened fd (queue_ring depth) \<in> set tr"
    | (failed) q' tr where "ublk_queue_init A env depth q = Inr (- ENOMEM, q', tr)"
      and "released tr = acquired tr + (if env_mmap env = None
             then {#Map MAP_FAILED (ublk_queue_cmd_buf_sz_of A (env_page env) depth)#} else {#})"
proof -
  let ?page = "env_page env"
  let ?q0 = "q\<lparr>q_state := 0, q_depth := depth, cmd_inflight := 0\<rparr>"
  have q: "length (ios q) = UBLK_QUEUE_DEPTH" "ring_fd q = 0" "io_inflight q = 0"
    and zaddr: "\<forall>i < UBLK_QUEUE_DEPTH. buf_addr (ios q ! i) = 0"
    using zero by (auto simp: queue_zeroed_def)
  note init = ublk_queue_init_def [of A env depth q]
  show thesis
  proof (cases "env_mmap env")
    case None
    let ?qm = "?q0\<lparr>io_cmd_buf := MAP_FAILED\<rparr>"
    have d: "q_depth ?qm \<le> length (ios ?qm)" using q depth by simp
    obtain q' tr where r: "queue_init_fail A ?page [] ?qm = Inr (- ENOMEM, q', [] @ tr)"
      and tr: "released tr = holdings A ?page ?qm" "acquired tr = {#}"
      by (rule queue_init_fail_releases [OF d])
    have "buffers ?qm [0..<depth] = {#}" using zaddr depth by (intro buffers_zero) simp
    then have "released tr = {#Map MAP_FAILED (ublk_queue_cmd_buf_sz_of A ?page depth)#}"
      using q tr(1) by (simp add: holdings_def MAP_FAILED_def ublk_queue_cmd_buf_sz_def)
    then show thesis
      using None r by (intro failed [of q' tr]) (simp_all add: init tr(2))
  next
    case (Some buf)
    then have buf: "buf \<noteq> 0" using env by (auto simp: env_ok_def)
    let ?q1 = "?q0\<lparr>io_cmd_buf := buf\<rparr>"
    have pre: "\<forall>i \<in> set [0..<depth]. i < length (ios ?q1) \<and> env_alloc env i \<noteq> Some 0"
      "\<forall>i \<in> set [0..<depth]. buf_addr (ios ?q1 ! i) = 0"
      using env q depth zaddr by (auto simp: env_ok_def)
    obtain ok q2 al where al: "alloc_ios (env_alloc env) [0..<depth] ?q1 = Inr (ok, q2, al)"
      and out: "alloc_outcome (env_alloc env) [0..<depth] ?q1 ok q2 al"
      using alloc_ios_result [OF pre(1) distinct_upt pre(2)] by blast
    let ?size = "ublk_queue_cmd_buf_sz A ?page ?q0" and ?off = "cmd_buf_off A ?page (q_id ?q0)"
    let ?tr1 = "Mapped buf ?size ?off # al"
    let ?q3 = "q2\<lparr>ring := env_ring env, ring_fd := env_ring_fd env\<rparr>"
    have q2: "q2 = ?q1\<lparr>ios := ios q2\<rparr>" "length (ios q2) = UBLK_QUEUE_DEPTH"
      "acquired al = buffers q2 [0..<depth]" "released al = {#}"
      using out q by (auto simp: alloc_outcome_def)
    have f2: "q_depth q2 = depth" "ring_fd q2 = 0" "io_cmd_buf q2 = buf" "q_state q2 = 0"
      "cmd_inflight q2 = 0" "io_inflight q2 = 0" using q by (subst q2(1); simp)+
    have tr1: "released ?tr1 = {#}" "acquired ?tr1 = {#Map buf ?size#} + buffers q2 [0..<depth]"
      using q2 by simp_all
    have b3: "buffers ?q3 [0..<depth] = buffers q2 [0..<depth]" by (rule buffers_cong) simp
    have size: "?size = ublk_queue_cmd_buf_sz_of A ?page depth" by (simp add: ublk_queue_cmd_buf_sz_def)
    have h2: "holdings A ?page q2 = acquired ?tr1"
      using f2 buf tr1 size by (simp add: holdings_def ublk_queue_cmd_buf_sz_def)
    have h3: "holdings A ?page ?q3 =
        (if 0 < env_ring_fd env then {#Fd (env_ring_fd env)#} else {#}) + acquired ?tr1"
      using f2 buf tr1 b3 size by (simp add: holdings_def ublk_queue_cmd_buf_sz_def)
    have d2: "q_depth q2 \<le> length (ios q2)" "q_depth ?q3 \<le> length (ios ?q3)"
      using f2 q2(2) depth by simp_all
    let ?tr2 = "?tr1 @ [Ring_Opened (env_ring_fd env) (queue_ring depth), Ring_Fd_Registered]"
    consider (refused) "\<not> ok" | (no_ring) "ok" "env_ring_ret env < 0"
      | (no_files) "ok" "0 \<le> env_ring_ret env" "env_files env \<noteq> 0"
      | (all_done) "ok" "0 \<le> env_ring_ret env" "env_files env = 0" by linarith
    then show thesis
    proof cases
      case refused
      obtain q' tr where "queue_init_fail A ?page ?tr1 q2 = Inr (- ENOMEM, q', ?tr1 @ tr)"
        "released tr = holdings A ?page q2" "acquired tr = {#}"
        by (rule queue_init_fail_releases [OF d2(1)])
      then show thesis using refused Some al h2 tr1(1) by (intro failed [of q' "?tr1 @ tr"]) (simp_all add: init Let_def)
    next
      case no_ring
      obtain q' tr where "queue_init_fail A ?page ?tr1 ?q3 = Inr (- ENOMEM, q', ?tr1 @ tr)"
        "released tr = holdings A ?page ?q3" "acquired tr = {#}"
        by (rule queue_init_fail_releases [OF d2(2)])
      moreover have "\<not> 0 < env_ring_fd env" using env no_ring by (simp add: env_ok_def)
      ultimately show thesis using no_ring Some al h3 tr1(1) by (intro failed [of q' "?tr1 @ tr"]) (simp_all add: init Let_def)
    next
      case no_files
      obtain q' tr where "queue_init_fail A ?page ?tr2 ?q3 = Inr (- ENOMEM, q', ?tr2 @ tr)"
        "released tr = holdings A ?page ?q3" "acquired tr = {#}"
        by (rule queue_init_fail_releases [OF d2(2)])
      moreover have "0 < env_ring_fd env" using env no_files by (simp add: env_ok_def)
      ultimately show thesis using no_files Some al h3 tr1(1) by (intro failed [of q' "?tr2 @ tr"]) (simp_all add: init Let_def)
    next
      case all_done
      have "queue_fresh U ?q3"
        using all_done out env f2 q2(2) depth by (auto simp: queue_fresh_def alloc_outcome_def env_ok_def)
      moreover have "0 < env_ring_fd env" using env all_done by (simp add: env_ok_def)
      ultimately show thesis
        using all_done Some al h3 tr1(1) f2 by (intro ready [of ?q3 "?tr2 @ [Files_Registered]"]) (auto simp: init Let_def)
    qed
  qed
qed

end
