(* ===== verification/Ublk_Thread.thy ===== *)
theory Ublk_Thread
  imports Ublk_Resources
begin

text \<open>
  The event loop does not touch what a queue holds, so the thread function gives back what its
  initialisation took; the shared descriptor buffers of the queues of a device do not overlap.
\<close>

section \<open>The resources of a queue\<close>

definition resources :: "'r ublk_queue \<Rightarrow> int \<times> u64 \<times> nat \<times> u64 list" where
  "resources q = (ring_fd q, io_cmd_buf q, q_depth q, map buf_addr (ios q))"

lemma resources_eqD:
  assumes "resources q' = resources q"
  shows "ring_fd q' = ring_fd q" and "io_cmd_buf q' = io_cmd_buf q" and "q_depth q' = q_depth q"
    and "length (ios q') = length (ios q)"
    and "i < length (ios q) \<Longrightarrow> buf_addr (ios q' ! i) = buf_addr (ios q ! i)"
proof -
  have m: "map buf_addr (ios q') = map buf_addr (ios q)" using assms by (simp add: resources_def)
  then show l: "length (ios q') = length (ios q)" by (metis length_map)
  show "i < length (ios q) \<Longrightarrow> buf_addr (ios q' ! i) = buf_addr (ios q ! i)"
    using m l by (metis nth_map)
qed (use assms in \<open>simp_all add: resources_def\<close>)

lemma holdings_resources:
  assumes "resources q' = resources q" and "q_depth q \<le> length (ios q)"
  shows "holdings A page q' = holdings A page q"
proof -
  have "buffers q' [0..<q_depth q] = buffers q [0..<q_depth q]"
    by (rule buffers_cong) (use resources_eqD(5) [OF assms(1)] assms(2) in simp)
  then show ?thesis
    using resources_eqD(1-3) [OF assms(1)] by (simp add: holdings_def ublk_queue_cmd_buf_sz_def)
qed

section \<open>The operations keep them\<close>

lemma map_list_update_same: "i < length xs \<Longrightarrow> f y = f (xs ! i) \<Longrightarrow> map f (xs[i := y]) = map f xs"
  by (simp add: map_update list_update_same_conv)

lemma with_io_resources:
  assumes "with_io t f q = Inr q'" and "\<forall>io. buf_addr (f io) = buf_addr io"
  shows "resources q' = resources q"
  using assms by (auto simp: with_io_def resources_def map_list_update_same split: if_splits)

lemma queue_io_cmd_resources:
  assumes "ublk_queue_io_cmd U A tag q = Inr (r, q')"
  shows "resources q' = resources q"
  using assms unfolding ublk_queue_io_cmd_def
  by (auto simp: resources_def map_list_update_same Let_def split: if_splits option.splits elim!: seq_InrE)

lemma complete_io_resources:
  assumes "ublk_complete_io U A tag res q = Inr (r, q')"
  shows "resources q' = resources q"
proof -
  obtain q1 where "with_io tag (ublk_mark_io_done res) q = Inr q1" and "ublk_queue_io_cmd U A tag q1 = Inr (r, q')"
    using assms unfolding ublk_complete_io_def by (rule seq_InrE)
  then show ?thesis
    using with_io_resources [of tag "ublk_mark_io_done res" q q1]
      queue_io_cmd_resources [of U A tag q1 r q']
    by (simp add: ublk_mark_io_done_def)
qed

lemma submit_fetch_resources:
  "submit_fetch_from U A is q = Inr q' \<Longrightarrow> resources q' = resources q"
proof (induction "is" arbitrary: q)
  case (Cons i js)
  then show ?case by (auto elim!: seq_InrE dest: queue_io_cmd_resources)
qed simp

section \<open>Targets that keep them\<close>

locale steady_target = ublk_target ops request
  for ops :: "'r uring \<Rightarrow> abi \<Rightarrow> 'r tgt_ops" and request :: "abi \<Rightarrow> iod \<Rightarrow> bool" +
  assumes queue_io_steady: "queue_io (ops U A) iods t q = Inr (r, q') \<Longrightarrow> resources q' = resources q"
    and io_done_steady: "\<lbrakk>tgt_io_done (ops U A) = Some f; f t c q = Inr q'\<rbrakk> \<Longrightarrow> resources q' = resources q"
begin

lemma handle_cqe_steady:
  assumes "ublk_handle_cqe A (ops U A) iods c q = Inr q'"
  shows "resources q' = resources q"
proof (cases "is_target_io (cqe_user_data c)")
  case True
  then show ?thesis
    using assms io_done_steady
    by (auto simp: ublk_handle_cqe_def ublksrv_handle_tgt_cqe_def Let_def split: option.splits if_splits)
next
  case False
  let ?q1 = "q\<lparr>cmd_inflight := cmd_inflight q - 1\<rparr>"
  have r1: "resources ?q1 = resources q" by (simp add: resources_def)
  have r2: "resources (?q1\<lparr>q_state := s\<rparr>) = resources q" for s by (simp add: resources_def)
  obtain q2 where "resources q2 = resources q" and
    "(if cqe_res c = abi_res_ok A
      then if utag (cqe_user_data c) < q_depth q2
           then seq (queue_io (ops U A) iods (utag (cqe_user_data c)) q2) (\<lambda>(_, q3). Inr q3)
           else Inl Assert_Failed
      else with_io (utag (cqe_user_data c)) (\<lambda>io. io\<lparr>io_flags := UBLKSRV_IO_FREE\<rparr>) q2) = Inr q'"
    using assms False r1 r2 unfolding ublk_handle_cqe_def Let_def
    by (auto elim!: seq_InrE split: if_splits dest!: with_io_resources)
  then show ?thesis
    by (auto elim!: seq_InrE split: if_splits dest: queue_io_steady dest!: with_io_resources)
qed

lemma reap_cqes_steady: "reap_cqes A (ops U A) iods cs q = Inr q' \<Longrightarrow> resources q' = resources q"
proof (induction cs arbitrary: q)
  case (Cons c cs)
  then show ?case by (auto elim!: seq_InrE dest: handle_cqe_steady)
qed simp

lemma process_io_steady:
  assumes "ublk_process_io U A (ops U A) sz ev q = Inr (ret, advice, q')"
  shows "resources q' = resources q"
proof -
  have idle: "resources (ublk_queue_idle_exit q2) = resources q2"
    "resources (snd (ublk_queue_idle_enter sz q2)) = resources q2" for q2 :: "'r ublk_queue"
    by (simp_all add: ublk_queue_idle_exit_def ublk_queue_idle_enter_def resources_def)
  let ?q1 = "q\<lparr>ring := consume U (ev_consumed ev) (ring q)\<rparr>"
  have r1: "resources ?q1 = resources q" by (simp add: resources_def)
  show ?thesis
  proof (cases "ublk_queue_is_done U q")
    case True
    then show ?thesis using assms by (simp add: ublk_process_io_def)
  next
    case False
    then obtain reaped q2 where q2: "ublk_reap_events_uring A (ops U A) (ev_iods ev) (ev_cqes ev) ?q1 = Inr (reaped, q2)"
      and out: "q' = q2 \<or> q' = ublk_queue_idle_exit q2 \<or> q' = snd (ublk_queue_idle_enter sz q2)"
      using assms unfolding ublk_process_io_def
      by (auto elim!: seq_InrE split: if_splits prod.splits simp: Let_def)
    have "resources q2 = resources ?q1"
      using q2 by (auto simp: ublk_reap_events_uring_def elim!: seq_InrE dest: reap_cqes_steady)
    then show ?thesis using out idle r1 by auto
  qed
qed

lemma io_loop_steady:
  "io_loop U A (ops U A) sz evs q = Inr (Exited q') \<Longrightarrow> resources q' = resources q"
proof (induction evs arbitrary: q)
  case (Cons ev evs)
  then show ?case by (auto elim!: seq_InrE split: if_splits prod.splits dest: process_io_steady)
qed simp

text \<open>A thread that has returned has released what it acquired.\<close>

lemma handler_releases:
  assumes zero: "queue_zeroed q" and env: "env_ok U depth env" and depth: "depth \<le> UBLK_QUEUE_DEPTH"
    and run: "ublk_io_handler_fn U A (ops U A) sz depth env evs q = Inr (Exited q', tr)"
  shows "released tr = acquired tr + (if env_mmap env = None
    then {#Map MAP_FAILED (ublk_queue_cmd_buf_sz_of A (env_page env) depth)#} else {#})"
  using zero env depth
proof (cases rule: queue_init_result [where A = A])
  case (failed qf trf)
  then show ?thesis using run by (simp add: ublk_io_handler_fn_def ENOMEM_def)
next
  case (ready q1 tr1)
  from run ready(1) obtain q2 q3 tr2 where q2: "ublk_submit_fetch_commands U A q1 = Inr q2"
    and q3: "io_loop U A (ops U A) sz evs q2 = Inr (Exited q3)"
    and d: "ublk_queue_deinit A (env_page env) q3 = Inr (q', tr2)" and tr: "tr = tr1 @ tr2"
    by (auto simp: ublk_io_handler_fn_def elim!: seq_InrE split: loop_result.splits)
  have same: "resources q3 = resources q1"
    using io_loop_steady [OF q3] submit_fetch_resources q2 by (simp add: ublk_submit_fetch_commands_def)
  have len: "q_depth q1 \<le> length (ios q1)" using ready(2) by (simp add: queue_fresh_def)
  have len3: "q_depth q3 \<le> length (ios q3)" using resources_eqD(3,4) [OF same] len by simp
  have "released tr2 = holdings A (env_page env) q3" "acquired tr2 = {#}"
    by (rule queue_deinit_releases [OF len3, of A "env_page env"], use d in simp)+
  moreover have "env_mmap env \<noteq> None" by (rule ready(6))
  ultimately show ?thesis
    using ready(4,5) tr holdings_resources [OF same len] by simp
qed

text \<open>
  A thread can be ended: a driver that takes the fetch commands and aborts them all makes it
  return after one more round.
\<close>

lemma handler_exits:
  assumes ring: "uring_ok U n" and abi: "abi_ok A" and zero: "queue_zeroed q" and env: "env_ok U depth env"
    and depth: "0 < depth" "depth \<le> UBLK_QUEUE_DEPTH" "depth \<le> n"
  shows "\<exists>evs q' tr. ublk_io_handler_fn U A (ops U A) sz depth env evs q = Inr (Exited q', tr)"
  using zero env depth(2)
proof (cases rule: queue_init_result [where A = A])
  case (failed qf trf)
  then show ?thesis by (auto simp: ublk_io_handler_fn_def ENOMEM_def)
next
  case (ready q1 tr1)
  have n: "q_depth q1 \<le> n" using ready(3) depth by simp
  obtain q2 where q2: "ublk_submit_fetch_commands U A q1 = Inr q2" and inv: "queue_inv U {#} {} 0 q2"
    and tags: "map (utag \<circ> sqe_user_data) (sq_view U (ring q2)) = [0..<q_depth q1]"
    and io: "io_inflight q2 = 0"
    by (rule submit_fetch_fresh [OF ring abi ready(2) n])
  let ?cs = "map (\<lambda>s. \<lparr>cqe_user_data = sqe_user_data s, cqe_res = abi_res_abort A\<rparr>) (sq_view U (ring q2))"
  let ?ev = "\<lparr>ev_ret = 0, ev_consumed = length (sq_view U (ring q2)), ev_cqes = ?cs, ev_iods = iods0\<rparr>"
  have "length (sq_view U (ring q2)) = depth" using tags ready(3) by (metis length_map length_upt diff_zero)
  then have ne: "sq_view U (ring q2) \<noteq> []" using depth(1) by auto
  have reaped: "reaped ?ev = outstanding U {#} q2" by (simp add: reaped_def outstanding_def comp_def)
  have out: "outstanding U {#} q2 \<noteq> {#}" using ne by (simp add: outstanding_def)
  obtain q3 where q3: "io_loop U A (ops U A) sz [?ev, ?ev] q2 = Inr (Exited q3)"
    using shutdown_exits [OF ring abi inv io out, where ev = ?ev and ev' = ?ev] reaped by auto
  have same: "resources q3 = resources q1"
    using io_loop_steady [OF q3] submit_fetch_resources q2 by (simp add: ublk_submit_fetch_commands_def)
  have "q_depth q3 \<le> length (ios q3)"
    using resources_eqD(3,4) [OF same] ready(2) by (simp add: queue_fresh_def)
  then obtain q4 tr2 where "ublk_queue_deinit A (env_page env) q3 = Inr (q4, tr2)"
    by (rule queue_deinit_releases)
  then have "ublk_io_handler_fn U A (ops U A) sz depth env [?ev, ?ev] q = Inr (Exited q4, tr1 @ tr2)"
    using ready(1) q2 q3 by (simp add: ublk_io_handler_fn_def)
  then show ?thesis by blast
qed

end

lemma null_queue_steady: "ublk_null_queue_io U A iods t q = Inr (r, q') \<Longrightarrow> resources q' = resources q"
  by (auto simp: ublk_null_queue_io_def Let_def elim!: seq_InrE dest: complete_io_resources)

interpretation null_steady: steady_target null_tgt_ops any_request
  by unfold_locales (auto dest: null_queue_steady simp: null_tgt_ops_def)

lemma loop_queue_steady: "ublk_loop_queue_io U A iods t q = Inr (r, q') \<Longrightarrow> resources q' = resources q"
proof -
  assume "ublk_loop_queue_io U A iods t q = Inr (r, q')"
  then obtain k q1 where q1: "loop_queue_tgt_io U A iods t q = Inr (k, q1)"
    and q': "(if k < 0 then seq (ublk_complete_io U A t (word_of_int k) q1) (\<lambda>(_, q''). Inr (0, q''))
              else Inr (0, q1)) = Inr (r, q')"
    by (auto simp: ublk_loop_queue_io_def elim!: seq_InrE)
  have "resources q1 = resources q"
    using q1 by (auto simp: loop_queue_tgt_io_def resources_def Let_def
        split: option.splits sum.splits elim!: seq_InrE)
  then show ?thesis using q' by (auto split: if_splits elim!: seq_InrE dest: complete_io_resources)
qed

lemma loop_done_steady: "ublk_loop_io_done U A t c q = Inr q' \<Longrightarrow> resources q' = resources q"
  by (auto simp: ublk_loop_io_done_def resources_def split: if_splits elim!: seq_InrE
      dest!: complete_io_resources)

interpretation loop_steady: steady_target loop_tgt_ops loop_request
  by unfold_locales (auto dest: loop_queue_steady loop_done_steady simp: loop_tgt_ops_def)

section \<open>What the thread guarantees\<close>

text \<open>
  C8. For every answer of the system \<open>ublk_queue_init\<close> runs without a fault on a queue of at
  most \<open>UBLK_QUEUE_DEPTH\<close> tags. It returns 0 with a queue in which every tag is ready to be
  fetched and whose trace has released nothing, or it returns -ENOMEM and has released
  exactly what it acquired; only when \<open>mmap\<close> fails it releases one thing more, the address
  \<open>MAP_FAILED\<close>, which it unmaps.
\<close>

theorem queue_init_all_or_nothing:
  assumes "queue_zeroed q" and "env_ok U depth env" and "depth \<le> UBLK_QUEUE_DEPTH"
  shows "\<exists>ret q' tr. ublk_queue_init A env depth q = Inr (ret, q', tr) \<and>
    (if ret = 0
     then queue_fresh U q' \<and> q_depth q' = depth \<and> released tr = {#} \<and> acquired tr = holdings A (env_page env) q'
     else ret = - ENOMEM \<and> released tr = acquired tr + (if env_mmap env = None
       then {#Map MAP_FAILED (ublk_queue_cmd_buf_sz_of A (env_page env) depth)#} else {#}))"
  using assms by (cases rule: queue_init_result [where A = A]) (simp_all add: ENOMEM_def)

definition demo_env :: "u64 option \<Rightarrow> (sqe list \<times> sqe list) queue_env" where
  "demo_env p = \<lparr>env_page = 4096, env_mmap = Some 65536, env_alloc = (\<lambda>i. if i = 0 then Some 8192 else p),
     env_ring_ret = 0, env_ring_fd = 7, env_ring = ([], []), env_files = 0\<rparr>"

definition demo_zeroed :: "(sqe list \<times> sqe list) ublk_queue" where
  "demo_zeroed = \<lparr>q_id = 1, q_depth = 0, cmd_inflight = 0, io_inflight = 0, io_cmd_buf = 0,
     ring = ([], []), ring_fd = 0,
     ios = replicate UBLK_QUEUE_DEPTH \<lparr>buf_addr = 0, io_flags = 0, io_result = 0\<rparr>, q_state = 0\<rparr>"

lemma demo_zeroed_ok [simp]: "queue_zeroed demo_zeroed"
  by (simp add: queue_zeroed_def demo_zeroed_def)

lemma demo_env_ok [simp]: "p \<noteq> Some 0 \<Longrightarrow> env_ok (slot_uring n) depth (demo_env p)"
  by (simp add: env_ok_def demo_env_def)

theorem queue_init_all_or_nothing_witness:
  "\<exists>ret q' tr. ublk_queue_init linux_abi (demo_env None) 2 demo_zeroed = Inr (ret, q', tr)
     \<and> ret = - ENOMEM \<and> released tr = {#Map 65536 4096, Buf 8192#}"
proof -
  have fail: "\<exists>q' tr. ublk_queue_init linux_abi (demo_env None) 2 demo_zeroed = Inr (- ENOMEM, q', tr)
      \<and> acquired tr = {#Map 65536 4096, Buf 8192#}"
    by (simp add: ublk_queue_init_def demo_env_def demo_zeroed_def with_io_def UBLK_QUEUE_DEPTH_def
        queue_init_fail_def ublk_queue_deinit_def ublk_queue_cmd_buf_sz_def ublk_queue_cmd_buf_sz_of_def
        round_up_def linux_abi_def upt_rec numeral_2_eq_2)
  have ok: "env_ok (slot_uring 2) 2 (demo_env None)" by simp
  have d: "2 \<le> UBLK_QUEUE_DEPTH" by (simp add: UBLK_QUEUE_DEPTH_def)
  have m: "env_mmap (demo_env None) \<noteq> None" by (simp add: demo_env_def)
  show ?thesis
    using queue_init_all_or_nothing [OF demo_zeroed_ok ok d, of linux_abi] fail m
    by (auto simp: ENOMEM_def)
qed

text \<open>
  A loop-target queue thread that has returned has given back every buffer, its mapping
  and its ring exactly once, whatever happened in its event loop.
\<close>

theorem loop_thread_releases:
  assumes "queue_zeroed q" and "env_ok U depth env" and "depth \<le> UBLK_QUEUE_DEPTH"
    and "env_mmap env \<noteq> None"
    and "ublk_io_handler_fn U A (loop_tgt_ops U A) sz depth env evs q = Inr (Exited q', tr)"
  shows "released tr = acquired tr"
  using loop_steady.handler_releases [OF assms(1-3,5)] assms(4) by simp

theorem loop_thread_releases_witness:
  "\<exists>evs q' tr. ublk_io_handler_fn (slot_uring 1) linux_abi (loop_tgt_ops (slot_uring 1) linux_abi) 65536 1
       (demo_env None) evs demo_zeroed = Inr (Exited q', tr) \<and> released tr = acquired tr"
proof -
  have m: "env_mmap (demo_env None) \<noteq> None" by (simp add: demo_env_def)
  have ok: "env_ok (slot_uring 1) 1 (demo_env None)" by simp
  have d: "1 \<le> UBLK_QUEUE_DEPTH" by (simp add: UBLK_QUEUE_DEPTH_def)
  obtain evs q' tr where run: "ublk_io_handler_fn (slot_uring 1) linux_abi (loop_tgt_ops (slot_uring 1) linux_abi)
      65536 1 (demo_env None) evs demo_zeroed = Inr (Exited q', tr)"
    using loop_steady.handler_exits [OF uring_ok_slot abi_ok_linux demo_zeroed_ok ok _ d order_refl] by fastforce
  show ?thesis using loop_thread_releases [OF demo_zeroed_ok ok d m run] run by blast
qed

lemma cmd_buf_sz_bounds:
  assumes page: "page = 2 ^ k" "k < 32"
    and abi: "4 * (abi_max_queue_depth A * abi_iod_size A + 2 ^ k) < 2 ^ 31"
    and d: "d \<le> abi_max_queue_depth A"
  shows "unat (ublk_queue_cmd_buf_sz_of A page d) = (d * abi_iod_size A + 2 ^ k - 1) div 2 ^ k * 2 ^ k"
    "d * abi_iod_size A \<le> unat (ublk_queue_cmd_buf_sz_of A page d)"
    "unat (ublk_queue_cmd_buf_sz_of A page d) < abi_max_queue_depth A * abi_iod_size A + 2 ^ k"
proof -
  let ?M = "abi_max_queue_depth A * abi_iod_size A"
  have abi31: "4 * ?M + 4 * 2 ^ k < 2147483648" using abi by simp
  have dM: "d * abi_iod_size A \<le> ?M" using d by (rule mult_le_mono1)
  have "d * abi_iod_size A < 2 ^ LENGTH(32)"
    by (rule le_less_trans [OF dM]) (use abi in simp)
  then have u: "unat (word_of_nat (d * abi_iod_size A) :: u32) = d * abi_iod_size A"
    by (rule unat_of_nat_small)
  have r: "unat (word_of_nat (d * abi_iod_size A) :: u32) + 2 ^ k \<le> 2 ^ 32"
  proof -
    have "d * abi_iod_size A + 2 ^ k \<le> 4294967296" using dM abi31 by linarith
    then show ?thesis unfolding u by simp
  qed
  note rr = unat_round_up [OF page(2) r] round_up_bounds [OF page(2) r]
  show "unat (ublk_queue_cmd_buf_sz_of A page d) = (d * abi_iod_size A + 2 ^ k - 1) div 2 ^ k * 2 ^ k"
    "d * abi_iod_size A \<le> unat (ublk_queue_cmd_buf_sz_of A page d)"
    using rr unfolding ublk_queue_cmd_buf_sz_of_def page(1) u by simp_all
  show "unat (ublk_queue_cmd_buf_sz_of A page d) < ?M + 2 ^ k"
    using rr dM unfolding ublk_queue_cmd_buf_sz_of_def page(1) u by linarith
qed

lemma cmd_buf_off_value:
  assumes page: "page = 2 ^ k" "k < 32"
    and abi: "4 * (abi_max_queue_depth A * abi_iod_size A + 2 ^ k) < 2 ^ 31"
      "abi_cmd_buf_offset A + 2 ^ 31 \<le> 2 ^ 64"
    and q: "q < UBLK_MAX_QUEUES"
  shows "unat (cmd_buf_off A page q) = abi_cmd_buf_offset A + q * unat (ublk_queue_max_cmd_buf_sz A page)"
proof -
  let ?max = "ublk_queue_max_cmd_buf_sz A page"
  let ?M = "abi_max_queue_depth A * abi_iod_size A"
  have q3: "q \<le> 3" using q by (simp add: UBLK_MAX_QUEUES_def)
  have "q * unat ?max \<le> 3 * (?M + 2 ^ k)"
    using q3 cmd_buf_sz_bounds(3) [OF page abi(1) order_refl]
    by (intro mult_le_mono) (simp_all add: ublk_queue_max_cmd_buf_sz_def)
  then have small: "q * unat ?max < 2 ^ 31" using abi(1) by simp
  have uq: "unat (word_of_nat q :: u32) = q" using q3 by (intro unat_of_nat_small) simp
  have prod: "unat (word_of_nat q * ?max) = q * unat ?max"
    using small by (simp add: unat_word_ariths(2) uq)
  have o: "unat (word_of_nat (abi_cmd_buf_offset A) :: u64) = abi_cmd_buf_offset A"
    using abi(2) by (intro unat_of_nat_small) simp
  have "unat (scast (word_of_nat q * ?max) :: u64) = q * unat ?max"
    using unat_scast_u32_small [of "word_of_nat q * ?max"] small prod by simp
  then show ?thesis using abi(2) small by (simp add: cmd_buf_off_def unat_word_ariths(1) o)
qed

text \<open>
  C10. The descriptor buffers of the queues of one device do not overlap in the file the driver
  offers, and each holds the descriptors of all tags of its queue: for a page size that is a
  power of two the mapping of queue \<open>i\<close> ends before that of queue \<open>j > i\<close> begins.
\<close>

theorem cmd_buffers_disjoint:
  assumes page: "page = 2 ^ k" "k < 32"
    and abi: "4 * (abi_max_queue_depth A * abi_iod_size A + 2 ^ k) < 2 ^ 31"
      "abi_cmd_buf_offset A + 2 ^ 31 \<le> 2 ^ 64"
    and depth: "depth \<le> abi_max_queue_depth A" and ij: "i < j" "j < UBLK_MAX_QUEUES"
  shows "unat (cmd_buf_off A page i) + unat (ublk_queue_cmd_buf_sz_of A page depth) \<le> unat (cmd_buf_off A page j)
    \<and> depth * abi_iod_size A \<le> unat (ublk_queue_cmd_buf_sz_of A page depth)"
proof -
  let ?max = "ublk_queue_max_cmd_buf_sz A page"
  note bounds = cmd_buf_sz_bounds [OF page abi(1)] and off = cmd_buf_off_value [OF page abi]
  have mono: "unat (ublk_queue_cmd_buf_sz_of A page depth) \<le> unat ?max"
    unfolding ublk_queue_max_cmd_buf_sz_def bounds(1) [OF depth] bounds(1) [OF order_refl]
    by (intro mult_le_mono1 div_le_mono diff_le_mono add_le_mono1 depth)
  have "i * unat ?max + unat ?max \<le> j * unat ?max"
    using mult_le_mono1 [of "Suc i" j "unat ?max"] ij(1) by simp
  then show ?thesis using mono bounds(2) [OF depth] off [of i] off [of j] ij by simp
qed

theorem cmd_buffers_disjoint_witness:
  "unat (cmd_buf_off linux_abi 4096 0) + unat (ublk_queue_cmd_buf_sz_of linux_abi 4096 128)
     \<le> unat (cmd_buf_off linux_abi 4096 1)"
  using cmd_buffers_disjoint [of 4096 12 linux_abi 128 0 1]
  by (simp add: linux_abi_def UBLK_MAX_QUEUES_def)

end
