(* ===== verification/Sys_Prog.thy ===== *)
theory Sys_Prog
  imports Ndt_Prelude
begin

text \<open>
  Programs that call the operating system: the state of the system is a type variable, every
  call may be logged as an event of the component, and a run ends with a value, with \<open>exit\<close> or
  with a fault. The calculus \<open>logs\<close> speaks about what a program adds to the log.
\<close>

record ('k, 'e) sys_world =
  kst :: 'k
  sys_log :: "'e list"

section \<open>Programs\<close>

text \<open>A run ends with a fault, with \<open>exit\<close>, or with a value and the state of the world.\<close>

datatype stop = Fault fault | Exit int

type_synonym ('k, 'e, 'a) sys_prog = "('k, 'e) sys_world \<Rightarrow> stop + ('a \<times> ('k, 'e) sys_world)"

definition returns :: "'a \<Rightarrow> ('k, 'e, 'a) sys_prog" where
  "returns x w = Inr (x, w)"

definition halt :: "stop \<Rightarrow> ('k, 'e, 'a) sys_prog" where
  "halt s w = Inl s"

definition andthen :: "('k, 'e, 'a) sys_prog \<Rightarrow> ('a \<Rightarrow> ('k, 'e, 'b) sys_prog) \<Rightarrow> ('k, 'e, 'b) sys_prog" where
  "andthen m f w = (case m w of Inl e \<Rightarrow> Inl e | Inr (x, w') \<Rightarrow> f x w')"

text \<open>A call of the system, logged with its result, and a call whose result is not used.\<close>

definition syscall :: "('k \<Rightarrow> 'a \<times> 'k) \<Rightarrow> ('a \<Rightarrow> 'e) \<Rightarrow> ('k, 'e, 'a) sys_prog" where
  "syscall f ev w = (case f (kst w) of (x, k) \<Rightarrow> Inr (x, w\<lparr>kst := k, sys_log := sys_log w @ [ev x]\<rparr>))"

definition emit :: "'e \<Rightarrow> ('k, 'e, unit) sys_prog" where
  "emit ev w = Inr ((), w\<lparr>sys_log := sys_log w @ [ev]\<rparr>)"

section \<open>What a program logs\<close>

text \<open>
  \<open>logs m P\<close>: whenever \<open>m\<close> ends with a value \<open>x\<close>, it has extended the log by some \<open>tr\<close> with
  \<open>P x tr\<close>.
\<close>

definition logs :: "('k, 'e, 'a) sys_prog \<Rightarrow> ('a \<Rightarrow> 'e list \<Rightarrow> bool) \<Rightarrow> bool" where
  "logs m P \<longleftrightarrow> (\<forall>w x w'. m w = Inr (x, w') \<longrightarrow> (\<exists>tr. sys_log w' = sys_log w @ tr \<and> P x tr))"

lemma logsD:
  assumes "logs m P" and "m w = Inr (x, w')"
  obtains tr where "sys_log w' = sys_log w @ tr" and "P x tr"
  using assms unfolding logs_def by blast

lemma logs_weaken: "logs m P \<Longrightarrow> (\<And>x tr. P x tr \<Longrightarrow> Q x tr) \<Longrightarrow> logs m Q"
  unfolding logs_def by meson

lemma logs_conj:
  assumes "logs m P" and "logs m Q"
  shows "logs m (\<lambda>x tr. P x tr \<and> Q x tr)"
  unfolding logs_def
proof (intro allI impI)
  fix w x w'
  assume run: "m w = Inr (x, w')"
  obtain tr where "sys_log w' = sys_log w @ tr" "P x tr" by (rule logsD [OF assms(1) run])
  moreover obtain tr' where "sys_log w' = sys_log w @ tr'" "Q x tr'" by (rule logsD [OF assms(2) run])
  ultimately show "\<exists>tr. sys_log w' = sys_log w @ tr \<and> P x tr \<and> Q x tr" by auto
qed

lemma logs_returns: "P x [] \<Longrightarrow> logs (returns x) P"
  by (simp add: logs_def returns_def)

lemma logs_halt: "logs (halt s) P"
  by (simp add: logs_def halt_def)

lemma logs_syscall: "(\<And>x. P x [ev x]) \<Longrightarrow> logs (syscall f ev) P"
  by (auto simp: logs_def syscall_def split: prod.splits)

lemma logs_emit: "P () [ev] \<Longrightarrow> logs (emit ev) P"
  by (simp add: logs_def emit_def)

lemma logs_andthen:
  assumes "logs m P" and "\<And>x tr. P x tr \<Longrightarrow> logs (f x) (\<lambda>y tr'. Q y (tr @ tr'))"
  shows "logs (andthen m f) Q"
  unfolding logs_def
proof (intro allI impI)
  fix w y w'
  assume "andthen m f w = Inr (y, w')"
  then obtain x w1 where m: "m w = Inr (x, w1)" and f: "f x w1 = Inr (y, w')"
    by (auto simp: andthen_def split: sum.splits)
  obtain tr where tr: "sys_log w1 = sys_log w @ tr" "P x tr" by (rule logsD [OF assms(1) m])
  obtain tr' where "sys_log w' = sys_log w1 @ tr'" "Q y (tr @ tr')"
    by (rule logsD [OF assms(2) [OF tr(2)] f])
  with tr show "\<exists>tr''. sys_log w' = sys_log w @ tr'' \<and> Q y tr''" by auto
qed

lemma logs_syscall_then:
  assumes "\<And>x. logs (f x) (\<lambda>y tr. Q y (ev x # tr))"
  shows "logs (andthen (syscall g ev) f) Q"
  by (rule logs_andthen [OF logs_syscall [where P = "\<lambda>x tr. tr = [ev x]"]]) (use assms in simp_all)

text \<open>The same when what follows needs to know that the result is one the system can give.\<close>

lemma logs_call_then:
  assumes "\<And>k x k'. g k = (x, k') \<Longrightarrow> logs (f x) (\<lambda>y tr. Q y (ev x # tr))"
  shows "logs (andthen (syscall g ev) f) Q"
  unfolding logs_def
proof (intro allI impI)
  fix w y w'
  assume run: "andthen (syscall g ev) f w = Inr (y, w')"
  obtain x k' where g: "g (kst w) = (x, k')" by (cases "g (kst w)") simp
  have "f x (w\<lparr>kst := k', sys_log := sys_log w @ [ev x]\<rparr>) = Inr (y, w')" using run by (simp add: andthen_def syscall_def g)
  from logsD [OF assms [OF g] this] show "\<exists>tr. sys_log w' = sys_log w @ tr \<and> Q y tr" by auto
qed

lemma logs_emit_then:
  assumes "logs m (\<lambda>y tr. Q y (ev # tr))"
  shows "logs (andthen (emit ev) (\<lambda>_. m)) Q"
  by (rule logs_andthen [OF logs_emit [where P = "\<lambda>_ tr. tr = [ev]"]]) (use assms in simp_all)

lemma logs_if: "(c \<Longrightarrow> logs m P) \<Longrightarrow> (\<not> c \<Longrightarrow> logs m' P) \<Longrightarrow> logs (if c then m else m') P"
  by simp

text \<open>Every event a program logs satisfies \<open>P\<close>.\<close>

definition logs_all :: "('e \<Rightarrow> bool) \<Rightarrow> ('k, 'e, 'a) sys_prog \<Rightarrow> bool" where
  "logs_all P m \<longleftrightarrow> logs m (\<lambda>_ tr. \<forall>e \<in> set tr. P e)"

named_theorems logs_all_rules "what every event of a program satisfies"

lemma logs_all_returns [logs_all_rules]: "logs_all P (returns x)"
  unfolding logs_all_def by (rule logs_returns) simp

lemma logs_all_halt [logs_all_rules]: "logs_all P (halt s)"
  unfolding logs_all_def by (rule logs_halt)

lemma logs_all_syscall [logs_all_rules]: "(\<And>x. P (ev x)) \<Longrightarrow> logs_all P (syscall f ev)"
  unfolding logs_all_def by (rule logs_syscall) simp

lemma logs_all_emit [logs_all_rules]: "P ev \<Longrightarrow> logs_all P (emit ev)"
  unfolding logs_all_def by (rule logs_emit) simp

lemma logs_all_andthen [logs_all_rules]:
  assumes "logs_all P m" and "\<And>x. logs_all P (f x)"
  shows "logs_all P (andthen m f)"
  unfolding logs_all_def
  by (rule logs_andthen [OF assms(1) [unfolded logs_all_def]]) (rule logs_weaken [OF assms(2) [unfolded logs_all_def]], auto)

lemma logs_all_if [logs_all_rules]: "(c \<Longrightarrow> logs_all P m) \<Longrightarrow> (\<not> c \<Longrightarrow> logs_all P m') \<Longrightarrow> logs_all P (if c then m else m')"
  by simp

lemma logs_all_case_prod [logs_all_rules]: "(\<And>x y. p = (x, y) \<Longrightarrow> logs_all P (f x y)) \<Longrightarrow> logs_all P (case p of (x, y) \<Rightarrow> f x y)"
  by (cases p) simp

lemma logs_all_run:
  assumes "logs_all P m" and "m w = Inr (x, w')"
  obtains tr where "sys_log w' = sys_log w @ tr" and "\<forall>e \<in> set tr. P e"
  using logsD [OF assms(1) [unfolded logs_all_def] assms(2)] by blast

section \<open>Runs without faults\<close>

text \<open>\<open>safe m Q\<close>: \<open>m\<close> never ends with a fault, and a value it ends with satisfies \<open>Q\<close>.\<close>

definition safe :: "('k, 'e, 'a) sys_prog \<Rightarrow> ('a \<Rightarrow> bool) \<Rightarrow> bool" where
  "safe m Q \<longleftrightarrow> (\<forall>w. case m w of Inl (Fault f) \<Rightarrow> False | Inl (Exit c) \<Rightarrow> True | Inr (x, w') \<Rightarrow> Q x)"

lemma safe_no_fault: "safe m Q \<Longrightarrow> m w \<noteq> Inl (Fault f)"
  by (auto simp: safe_def dest!: spec [of _ w])

lemma safe_returns: "Q x \<Longrightarrow> safe (returns x) Q"
  by (simp add: safe_def returns_def)

lemma safe_exit: "safe (halt (Exit c)) Q"
  by (simp add: safe_def halt_def)

lemma safe_syscall: "(\<And>x. Q x) \<Longrightarrow> safe (syscall f ev) Q"
  by (simp add: safe_def syscall_def split: prod.splits)

lemma safe_emit: "Q () \<Longrightarrow> safe (emit ev) Q"
  by (simp add: safe_def emit_def)

lemma safe_andthen:
  assumes "safe m P" and "\<And>x. P x \<Longrightarrow> safe (f x) Q"
  shows "safe (andthen m f) Q"
  unfolding safe_def
proof
  fix w
  show "case andthen m f w of Inl (Fault f) \<Rightarrow> False | Inl (Exit c) \<Rightarrow> True | Inr (x, w') \<Rightarrow> Q x"
  proof (cases "m w")
    case (Inl e)
    then show ?thesis using assms(1) by (auto simp: safe_def andthen_def split: stop.splits dest!: spec [of _ w])
  next
    case (Inr p)
    then obtain x w' where m: "m w = Inr (x, w')" by (cases p) simp
    have "P x" using assms(1) m by (auto simp: safe_def dest!: spec [of _ w])
    then show ?thesis using assms(2) m by (simp add: safe_def andthen_def)
  qed
qed

lemma safe_weaken: "safe m P \<Longrightarrow> (\<And>x. P x \<Longrightarrow> Q x) \<Longrightarrow> safe m Q"
  unfolding safe_def by (auto split: sum.splits stop.splits)

text \<open>How a program can stop without a value.\<close>

definition stops :: "stop set \<Rightarrow> ('k, 'e, 'a) sys_prog \<Rightarrow> bool" where
  "stops E m \<longleftrightarrow> (\<forall>w s. m w = Inl s \<longrightarrow> s \<in> E)"

named_theorems stops_rules "how programs can stop without a value"

lemma stops_returns [stops_rules]: "stops E (returns x)"
  by (simp add: stops_def returns_def)

lemma stops_halt [stops_rules]: "s \<in> E \<Longrightarrow> stops E (halt s)"
  by (simp add: stops_def halt_def)

lemma stops_syscall [stops_rules]: "stops E (syscall f ev)"
  by (simp add: stops_def syscall_def split: prod.splits)

lemma stops_emit [stops_rules]: "stops E (emit e)"
  by (simp add: stops_def emit_def)

lemma stops_andthen [stops_rules]: "stops E m \<Longrightarrow> (\<And>x. stops E (f x)) \<Longrightarrow> stops E (andthen m f)"
  by (auto simp: stops_def andthen_def split: sum.splits)

lemma stops_if [stops_rules]: "(c \<Longrightarrow> stops E m) \<Longrightarrow> (\<not> c \<Longrightarrow> stops E m') \<Longrightarrow> stops E (if c then m else m')"
  by simp

lemma stops_case_prod [stops_rules]: "(\<And>x y. p = (x, y) \<Longrightarrow> stops E (f x y)) \<Longrightarrow> stops E (case p of (x, y) \<Rightarrow> f x y)"
  by (cases p) simp

text \<open>The steps of a run, for proofs that follow one path.\<close>

lemma andthen_value: "m w = Inr (x, w') \<Longrightarrow> andthen m f w = f x w'"
  by (simp add: andthen_def)

lemma andthen_assoc: "andthen (andthen m f) g = andthen m (\<lambda>x. andthen (f x) g)"
  by (rule ext) (auto simp: andthen_def split: sum.splits)

lemma returns_then: "andthen (returns x) f = f x"
  by (rule ext) (simp add: andthen_def returns_def)

lemma andthen_InrE:
  assumes "andthen m f w = Inr r"
  obtains x w' where "m w = Inr (x, w')" and "f x w' = Inr r"
  using assms by (auto simp: andthen_def split: sum.splits)

lemma returns_run: "returns x w = Inr (x, w)"
  by (simp add: returns_def)

lemma halt_run: "halt s w = Inl s"
  by (simp add: halt_def)

end
