(* ===== verification/Ublk_Sys.thy ===== *)
theory Ublk_Sys
  imports Ublk_Queue Sys_Prog
begin

text \<open>
  The ground of the control plane of \<open>miniublk.c\<close>: the data exchanged with the control device,
  the operating system as a parameter, and the events its calls are logged as.
\<close>

section \<open>Data of the control device\<close>

text \<open>
  \<open>struct ublksrv_ctrl_dev_info\<close> and \<open>struct ublk_params\<close> come from the Linux header; the fields
  the program uses are modelled, with the widths they have there.
\<close>

datatype dev_state = DEV_DEAD | DEV_LIVE | DEV_QUIESCED | DEV_OTHER nat

record dev_info =
  di_nr_hw_queues :: u16
  di_queue_depth :: u16
  di_state :: dev_state
  di_max_io_buf_bytes :: u32
  di_dev_id :: u32
  di_ublksrv_pid :: s32
  di_user_recovery :: bool

record ublk_params =
  p_len_set :: bool
  p_basic :: bool
  p_logical_bs_shift :: u8
  p_physical_bs_shift :: u8
  p_io_opt_shift :: u8
  p_io_min_shift :: u8
  p_max_sectors :: u32
  p_dev_sectors :: u64

definition no_params :: ublk_params where
  "no_params = \<lparr>p_len_set = False, p_basic = False, p_logical_bs_shift = 0, p_physical_bs_shift = 0,
     p_io_opt_shift = 0, p_io_min_shift = 0, p_max_sectors = 0, p_dev_sectors = 0\<rparr>"

datatype ctrl_op =
    ADD_DEV | DEL_DEV | START_DEV | STOP_DEV | GET_DEV_INFO | SET_PARAMS | GET_PARAMS
  | START_USER_RECOVERY | END_USER_RECOVERY

text \<open>The buffer a command points to, by its content.\<close>

datatype ctrl_buf = No_Buf | Info_Buf dev_info | Params_Buf ublk_params

text \<open>\<open>struct ublk_ctrl_cmd_data\<close>: the two flags, \<open>data[0]\<close>, and address and length as the buffer.\<close>

record ctrl_cmd_data =
  cd_op :: ctrl_op
  cd_has_data :: bool
  cd_has_buf :: bool
  cd_data0 :: u64
  cd_buf :: ctrl_buf

text \<open>The submission entry of a control command with its \<open>struct ublksrv_ctrl_cmd\<close>.\<close>

record ctrl_sqe =
  cs_fd :: int
  cs_op :: ctrl_op
  cs_dev_id :: u32
  cs_queue_id :: u16
  cs_data0 :: u64
  cs_buf :: ctrl_buf

section \<open>The operating system\<close>

datatype path = Ctrl_Dev | Ublkc_Dev int | Backing_File string

datatype file_kind = Block_Device | Regular_File | Other_File

record stat =
  st_kind :: file_kind
  st_size :: u64
  st_blksize :: u32

text \<open>
  The calls the control plane makes, on an abstract system state. A failed \<open>fstat\<close> or \<open>ioctl\<close> is
  \<open>None\<close>; \<open>os_direct\<close> tells whether \<open>fcntl(fd, F_SETFL, O_DIRECT)\<close> succeeded; \<open>os_get_sqe\<close> is
  \<open>io_uring_get_sqe\<close> and gives the old content of the slot; \<open>os_wait\<close> gives the result of
  \<open>io_uring_wait_cqe\<close>, the result of the command and what the command left in the buffer.
\<close>

record 'k os =
  os_open :: "path \<Rightarrow> 'k \<Rightarrow> int \<times> 'k"
  os_fstat :: "int \<Rightarrow> 'k \<Rightarrow> stat option \<times> 'k"
  os_blkgetsize64 :: "int \<Rightarrow> 'k \<Rightarrow> u64 option \<times> 'k"
  os_blksszget :: "int \<Rightarrow> 'k \<Rightarrow> u32 option \<times> 'k"
  os_blkpbszget :: "int \<Rightarrow> 'k \<Rightarrow> u32 option \<times> 'k"
  os_direct :: "int \<Rightarrow> 'k \<Rightarrow> bool \<times> 'k"
  os_setup_ring :: "ring_setup \<Rightarrow> 'k \<Rightarrow> int \<times> 'k"
  os_get_sqe :: "'k \<Rightarrow> ctrl_sqe option \<times> 'k"
  os_submit :: "ctrl_sqe \<Rightarrow> 'k \<Rightarrow> int \<times> 'k"
  os_wait :: "ctrl_buf \<Rightarrow> 'k \<Rightarrow> (int \<times> int \<times> ctrl_buf) \<times> 'k"
  os_kill :: "int \<Rightarrow> 'k \<Rightarrow> int \<times> 'k"

datatype sys_event =
    Ev_Open path int
  | Ev_Close int
  | Ev_Fsync int
  | Ev_Query int
  | Ev_Setup_Ring ring_setup int
  | Ev_Sqe bool
  | Ev_Submit ctrl_sqe int
  | Ev_Done ctrl_op int ctrl_buf
  | Ev_Daemon
  | Ev_Create nat
  | Ev_Join nat
  | Ev_Kill int int
  | Ev_Usleep
  | Ev_Free

text \<open>Programs of the control plane.\<close>

type_synonym 'k world = "('k, sys_event) sys_world"
type_synonym ('k, 'a) prog = "('k, sys_event, 'a) sys_prog"

end
