(* ===== verification/Ublk_Ctrl.thy ===== *)
theory Ublk_Ctrl
  imports Ublk_Sys
begin

text \<open>
  The control commands of \<open>miniublk.c\<close>, the control side of the two targets, and the daemon
  that creates the queue threads.
\<close>

section \<open>The device\<close>

text \<open>
  \<open>struct ublk_dev\<close> without the queues, which the threads own, and without the ring. The argument
  vector kept in \<open>tgt\<close> is represented by what the loop target looks for in it, the
  argument of the last \<open>-f\<close>.
\<close>

record ublk_dev =
  dev_info :: dev_info
  tgt_size :: u64
  tgt_params :: ublk_params
  tgt_file :: "string option"
  fd0 :: int
  fd1 :: int
  nr_fds :: nat
  ctrl_fd :: int

record 'k tgt_ctl =
  tc_name :: string
  init_tgt :: "('k os \<Rightarrow> ublk_dev \<Rightarrow> ('k, int \<times> ublk_dev) prog) option"
  deinit_tgt :: "(ublk_dev \<Rightarrow> ('k, unit) prog) option"
  recover_tgt :: "('k os \<Rightarrow> ublk_dev \<Rightarrow> ('k, int \<times> ublk_dev) prog) option"

section \<open>Control commands\<close>

definition ublk_ctrl_init_cmd :: "ublk_dev \<Rightarrow> ctrl_cmd_data \<Rightarrow> ctrl_sqe \<Rightarrow> ctrl_sqe" where
  "ublk_ctrl_init_cmd dev data sqe =
     (let s1 = sqe\<lparr>cs_fd := ctrl_fd dev\<rparr>;
          s2 = (if cd_has_buf data then s1\<lparr>cs_buf := cd_buf data\<rparr> else s1);
          s3 = (if cd_has_data data then s2\<lparr>cs_data0 := cd_data0 data\<rparr> else s2)
      in s3\<lparr>cs_dev_id := di_dev_id (dev_info dev), cs_queue_id := - 1, cs_op := cd_op data\<rparr>)"

text \<open>
  The result is the return value and what the command has written to the buffer (\<open>No_Buf\<close> when
  it did not complete).
\<close>

definition ublk_ctrl_cmd :: "'k os \<Rightarrow> ublk_dev \<Rightarrow> ctrl_cmd_data \<Rightarrow> ('k, int \<times> ctrl_buf) prog" where
  "ublk_ctrl_cmd S dev data =
     andthen (syscall (os_get_sqe S) (\<lambda>s. Ev_Sqe (s \<noteq> None))) (\<lambda>s. case s of
       None \<Rightarrow> returns (- EINVAL, No_Buf)
     | Some slot \<Rightarrow> let sqe = ublk_ctrl_init_cmd dev data slot in
         andthen (syscall (os_submit S sqe) (Ev_Submit sqe)) (\<lambda>ret.
           if ret < 0 then returns (ret, No_Buf)
           else andthen (syscall (os_wait S (cs_buf sqe))
                  (\<lambda>(ret, res, buf). if ret < 0 then Ev_Done (cd_op data) ret No_Buf else Ev_Done (cd_op data) res buf))
             (\<lambda>(ret, res, buf). if ret < 0 then returns (ret, No_Buf) else returns (res, buf))))"

definition plain_cmd :: "ctrl_op \<Rightarrow> ctrl_cmd_data" where
  "plain_cmd op = \<lparr>cd_op = op, cd_has_data = False, cd_has_buf = False, cd_data0 = 0, cd_buf = No_Buf\<rparr>"

definition data_cmd :: "ctrl_op \<Rightarrow> int \<Rightarrow> ctrl_cmd_data" where
  "data_cmd op x = (plain_cmd op)\<lparr>cd_has_data := True, cd_data0 := word_of_int x\<rparr>"

definition buf_cmd :: "ctrl_op \<Rightarrow> ctrl_buf \<Rightarrow> ctrl_cmd_data" where
  "buf_cmd op b = (plain_cmd op)\<lparr>cd_has_buf := True, cd_buf := b\<rparr>"

definition store_info :: "ctrl_buf \<Rightarrow> ublk_dev \<Rightarrow> ublk_dev" where
  "store_info b dev = (case b of Info_Buf i \<Rightarrow> dev\<lparr>dev_info := i\<rparr> | _ \<Rightarrow> dev)"

definition store_params :: "ctrl_buf \<Rightarrow> ublk_params \<Rightarrow> ublk_params" where
  "store_params b p = (case b of Params_Buf p' \<Rightarrow> p' | _ \<Rightarrow> p)"

definition ublk_ctrl_stop_dev :: "'k os \<Rightarrow> ublk_dev \<Rightarrow> ('k, int) prog" where
  "ublk_ctrl_stop_dev S dev =
     andthen (ublk_ctrl_cmd S dev (plain_cmd STOP_DEV)) (\<lambda>(ret, _). returns ret)"

definition set_pid :: "int \<Rightarrow> ublk_dev \<Rightarrow> ublk_dev" where
  "set_pid pid dev = dev\<lparr>dev_info := (dev_info dev)\<lparr>di_ublksrv_pid := word_of_int pid\<rparr>\<rparr>"

definition ublk_ctrl_start_dev :: "'k os \<Rightarrow> ublk_dev \<Rightarrow> int \<Rightarrow> ('k, int \<times> ublk_dev) prog" where
  "ublk_ctrl_start_dev S dev daemon_pid =
     (let dev' = set_pid daemon_pid dev in
      andthen (ublk_ctrl_cmd S dev' (data_cmd START_DEV daemon_pid)) (\<lambda>(ret, _). returns (ret, dev')))"

definition ublk_ctrl_add_dev :: "'k os \<Rightarrow> ublk_dev \<Rightarrow> ('k, int \<times> ublk_dev) prog" where
  "ublk_ctrl_add_dev S dev =
     andthen (ublk_ctrl_cmd S dev (buf_cmd ADD_DEV (Info_Buf (dev_info dev))))
       (\<lambda>(ret, b). returns (ret, store_info b dev))"

definition ublk_ctrl_del_dev :: "'k os \<Rightarrow> ublk_dev \<Rightarrow> ('k, int) prog" where
  "ublk_ctrl_del_dev S dev =
     andthen (ublk_ctrl_cmd S dev (plain_cmd DEL_DEV)) (\<lambda>(ret, _). returns ret)"

definition ublk_ctrl_get_info :: "'k os \<Rightarrow> ublk_dev \<Rightarrow> ('k, int \<times> ublk_dev) prog" where
  "ublk_ctrl_get_info S dev =
     andthen (ublk_ctrl_cmd S dev (buf_cmd GET_DEV_INFO (Info_Buf (dev_info dev))))
       (\<lambda>(ret, b). returns (ret, store_info b dev))"

definition ublk_ctrl_set_params :: "'k os \<Rightarrow> ublk_dev \<Rightarrow> ublk_params \<Rightarrow> ('k, int \<times> ublk_params) prog" where
  "ublk_ctrl_set_params S dev p =
     (let p' = p\<lparr>p_len_set := True\<rparr> in
      andthen (ublk_ctrl_cmd S dev (buf_cmd SET_PARAMS (Params_Buf p')))
        (\<lambda>(ret, b). returns (ret, store_params b p')))"

definition ublk_ctrl_get_params :: "'k os \<Rightarrow> ublk_dev \<Rightarrow> ublk_params \<Rightarrow> ('k, int \<times> ublk_params) prog" where
  "ublk_ctrl_get_params S dev p =
     (let p' = p\<lparr>p_len_set := True\<rparr> in
      andthen (ublk_ctrl_cmd S dev (buf_cmd GET_PARAMS (Params_Buf p')))
        (\<lambda>(ret, b). returns (ret, store_params b p')))"

definition ublk_ctrl_start_user_recover :: "'k os \<Rightarrow> ublk_dev \<Rightarrow> ('k, int) prog" where
  "ublk_ctrl_start_user_recover S dev =
     andthen (ublk_ctrl_cmd S dev (plain_cmd START_USER_RECOVERY)) (\<lambda>(ret, _). returns ret)"

definition ublk_ctrl_end_user_recover :: "'k os \<Rightarrow> ublk_dev \<Rightarrow> int \<Rightarrow> ('k, int \<times> ublk_dev) prog" where
  "ublk_ctrl_end_user_recover S dev daemon_pid =
     (let dev' = set_pid daemon_pid dev in
      andthen (ublk_ctrl_cmd S dev' (data_cmd END_USER_RECOVERY daemon_pid))
        (\<lambda>(ret, _). returns (ret, dev')))"

text \<open>
  \<open>ublk_ctrl_dump\<close>: fetches the parameters into a local structure and prints; with \<open>show_queue\<close>
  it reads \<open>dev->q[i]\<close> for every hardware queue.
\<close>

definition ublk_ctrl_dump :: "'k os \<Rightarrow> ublk_dev \<Rightarrow> bool \<Rightarrow> ('k, unit) prog" where
  "ublk_ctrl_dump S dev show_queue =
     andthen (ublk_ctrl_get_params S dev no_params) (\<lambda>(ret, p).
       if ret < 0 then returns ()
       else if show_queue \<and> UBLK_MAX_QUEUES < unat (di_nr_hw_queues (dev_info dev))
       then halt (Fault Out_Of_Bounds) else returns ())"

definition ublk_dev_state_desc :: "ublk_dev \<Rightarrow> string" where
  "ublk_dev_state_desc dev = (case di_state (dev_info dev) of
     DEV_DEAD \<Rightarrow> ''DEAD'' | DEV_LIVE \<Rightarrow> ''LIVE'' | DEV_QUIESCED \<Rightarrow> ''QUIESCED'' | _ \<Rightarrow> ''UNKNOWN'')"

definition zero_dev :: ublk_dev where
  "zero_dev = \<lparr>dev_info = \<lparr>di_nr_hw_queues = 0, di_queue_depth = 0, di_state = DEV_DEAD,
       di_max_io_buf_bytes = 0, di_dev_id = 0, di_ublksrv_pid = 0, di_user_recovery = False\<rparr>,
     tgt_size = 0, tgt_params = no_params, tgt_file = None, fd0 = 0, fd1 = 0, nr_fds = 0, ctrl_fd = 0\<rparr>"

definition UBLK_CTRL_RING_DEPTH :: u32 where "UBLK_CTRL_RING_DEPTH = 32"

definition ctrl_ring :: ring_setup where
  "ctrl_ring = ublk_setup_ring UBLK_CTRL_RING_DEPTH UBLK_CTRL_RING_DEPTH IORING_SETUP_SQE128"

definition ublk_ctrl_init :: "'k os \<Rightarrow> ('k, ublk_dev option) prog" where
  "ublk_ctrl_init S =
     andthen (syscall (os_open S Ctrl_Dev) (Ev_Open Ctrl_Dev)) (\<lambda>fd.
       if fd < 0 then halt (Exit fd)
       else let dev = zero_dev\<lparr>ctrl_fd := fd,
                  dev_info := (dev_info zero_dev)\<lparr>di_max_io_buf_bytes := UBLK_IO_MAX_BYTES\<rparr>\<rparr> in
         andthen (syscall (os_setup_ring S ctrl_ring) (Ev_Setup_Ring ctrl_ring)) (\<lambda>ret.
           if ret < 0 then andthen (emit Ev_Free) (\<lambda>_. returns None)
           else returns (Some (dev\<lparr>nr_fds := 1\<rparr>))))"

text \<open>The argument of \<open>ublk_ctrl_deinit\<close> may be NULL; it is dereferenced.\<close>

definition ublk_ctrl_deinit :: "ublk_dev option \<Rightarrow> ('k, unit) prog" where
  "ublk_ctrl_deinit d = (case d of
     None \<Rightarrow> halt (Fault Null_Deref)
   | Some dev \<Rightarrow> andthen (emit (Ev_Close (ctrl_fd dev))) (\<lambda>_. emit Ev_Free))"

end
