(* ===== verification/Ublk_Daemon.thy ===== *)
theory Ublk_Daemon
  imports Ublk_Ctrl
begin

text \<open>
  The control side of the null and the loop target (size and parameters of a new or a recovered
  device) and the daemon: preparation of the device, creation of the queue threads, start,
  and clean-up.
\<close>

section \<open>The null target\<close>

fun ilog2_nat :: "nat \<Rightarrow> nat" where
  "ilog2_nat n = (if n \<le> 1 then 0 else Suc (ilog2_nat (n div 2)))"

declare ilog2_nat.simps [simp del]

text \<open>\<open>31 - __builtin_clz(x)\<close>; the builtin is undefined for 0, for which 0 is taken.\<close>

definition ilog2 :: "u32 \<Rightarrow> u32" where
  "ilog2 x = word_of_nat (ilog2_nat (unat x))"

definition basic_params :: "u32 \<Rightarrow> u64 \<Rightarrow> ublk_params" where
  "basic_params max_io_buf_bytes sectors =
     no_params\<lparr>p_basic := True, p_logical_bs_shift := 9, p_physical_bs_shift := 12, p_io_opt_shift := 12,
       p_io_min_shift := 9, p_max_sectors := drop_bit 9 max_io_buf_bytes, p_dev_sectors := sectors\<rparr>"

definition ublk_null_tgt_init :: "'k os \<Rightarrow> ublk_dev \<Rightarrow> ('k, int \<times> ublk_dev) prog" where
  "ublk_null_tgt_init S dev =
     (let dev_size = push_bit 30 250 in
      returns (0, dev\<lparr>tgt_size := dev_size,
        tgt_params := basic_params (di_max_io_buf_bytes (dev_info dev)) (drop_bit 9 dev_size)\<rparr>))"

definition ublk_null_tgt_recover :: "'k os \<Rightarrow> ublk_dev \<Rightarrow> ('k, int \<times> ublk_dev) prog" where
  "ublk_null_tgt_recover S dev =
     returns (0, dev\<lparr>tgt_size := push_bit 9 (p_dev_sectors (tgt_params dev))\<rparr>)"

definition null_tgt_ctl :: "'k tgt_ctl" where
  "null_tgt_ctl = \<lparr>tc_name = ''null'', init_tgt = Some ublk_null_tgt_init, deinit_tgt = None,
     recover_tgt = Some ublk_null_tgt_recover\<rparr>"

section \<open>The loop target\<close>

definition ublk_loop_tgt_deinit :: "ublk_dev \<Rightarrow> ('k, unit) prog" where
  "ublk_loop_tgt_deinit dev = andthen (emit (Ev_Fsync (fd1 dev))) (\<lambda>_. emit (Ev_Close (fd1 dev)))"

text \<open>
  What \<open>fstat\<close> and the ioctls tell about the backing file: its size and block sizes, or the
  value the function returns. Only a failed \<open>fstat\<close> closes the file. The block sizes are \<open>None\<close>
  for a file that is neither a block device nor regular.
\<close>

datatype file_facts = Facts u64 "(u32 \<times> u32) option" | Give_Up int

definition query :: "(int \<Rightarrow> 'k \<Rightarrow> 'a option \<times> 'k) \<Rightarrow> int \<Rightarrow> ('k, 'a option) prog" where
  "query f fd = syscall (f fd) (\<lambda>_. Ev_Query fd)"

definition backing_file_facts :: "'k os \<Rightarrow> int \<Rightarrow> ('k, file_facts) prog" where
  "backing_file_facts S fd =
     andthen (query (os_fstat S) fd) (\<lambda>st. case st of
       None \<Rightarrow> andthen (emit (Ev_Close fd)) (\<lambda>_. returns (Give_Up (- EBADF)))
     | Some st \<Rightarrow> (case st_kind st of
         Block_Device \<Rightarrow>
           andthen (query (os_blkgetsize64 S) fd) (\<lambda>bytes. case bytes of
             None \<Rightarrow> returns (Give_Up (- EBADF))
           | Some bytes \<Rightarrow> andthen (query (os_blksszget S) fd) (\<lambda>bs. case bs of
               None \<Rightarrow> returns (Give_Up (- 1))
             | Some bs \<Rightarrow> andthen (query (os_blkpbszget S) fd) (\<lambda>pbs. case pbs of
                 None \<Rightarrow> returns (Give_Up (- 1))
               | Some pbs \<Rightarrow> returns (Facts bytes (Some (bs, pbs))))))
       | Regular_File \<Rightarrow> returns (Facts (st_size st) (Some (st_blksize st, st_blksize st)))
       | Other_File \<Rightarrow> returns (Facts 0 None)))"

definition open_backing_file ::
  "'k os \<Rightarrow> ublk_dev \<Rightarrow> (int \<Rightarrow> u64 \<Rightarrow> (u32 \<times> u32) option \<Rightarrow> ('k, int \<times> ublk_dev) prog)
   \<Rightarrow> ('k, int \<times> ublk_dev) prog" where
  "open_backing_file S dev cont =
     (case tgt_file dev of
        None \<Rightarrow> returns (- EINVAL, dev)
      | Some file \<Rightarrow>
          andthen (syscall (os_open S (Backing_File file)) (Ev_Open (Backing_File file))) (\<lambda>fd.
            if fd < 0 then returns (- EBADF, dev)
            else andthen (backing_file_facts S fd) (\<lambda>f. case f of
              Give_Up r \<Rightarrow> returns (r, dev)
            | Facts bytes bss \<Rightarrow> cont fd bytes bss)))"

definition loop_init_params :: "u32 \<Rightarrow> u64 \<Rightarrow> (u32 \<times> u32) option \<Rightarrow> bool \<Rightarrow> ublk_params" where
  "loop_init_params max_io_buf_bytes bytes bss direct =
     (let p = basic_params max_io_buf_bytes (drop_bit 9 bytes) in
      case bss of
        Some (bs, pbs) \<Rightarrow>
          (if direct then p\<lparr>p_logical_bs_shift := ucast (ilog2 bs), p_physical_bs_shift := ucast (ilog2 pbs)\<rparr>
           else p)
      | None \<Rightarrow> p)"

definition ublk_loop_tgt_init :: "'k os \<Rightarrow> ublk_dev \<Rightarrow> ('k, int \<times> ublk_dev) prog" where
  "ublk_loop_tgt_init S dev =
     open_backing_file S dev (\<lambda>fd bytes bss.
       andthen (syscall (os_direct S fd) (\<lambda>_. Ev_Query fd)) (\<lambda>direct.
         returns (0, dev\<lparr>tgt_size := bytes, fd1 := fd, nr_fds := nr_fds dev + 1,
           tgt_params := loop_init_params (di_max_io_buf_bytes (dev_info dev)) bytes bss direct\<rparr>)))"

text \<open>
  The checks of \<open>ublk_loop_tgt_recover\<close>: with direct I/O the block sizes must be those of the
  recovered parameters (512 and 4096 stand for a file without block sizes), and the recovered
  size must be the size of the file.
\<close>

definition recover_blocks_ok :: "ublk_params \<Rightarrow> (u32 \<times> u32) option \<Rightarrow> bool" where
  "recover_blocks_ok p bss =
     (let (bs, pbs) = (case bss of None \<Rightarrow> (512, 4096) | Some x \<Rightarrow> x) in
      ucast (p_logical_bs_shift p) = ilog2 bs \<and> ucast (p_physical_bs_shift p) = ilog2 pbs)"

definition ublk_loop_tgt_recover :: "'k os \<Rightarrow> ublk_dev \<Rightarrow> ('k, int \<times> ublk_dev) prog" where
  "ublk_loop_tgt_recover S dev =
     open_backing_file S dev (\<lambda>fd bytes bss.
       andthen (syscall (os_direct S fd) (\<lambda>_. Ev_Query fd)) (\<lambda>direct.
         if direct \<and> \<not> recover_blocks_ok (tgt_params dev) bss then returns (- 1, dev)
         else if push_bit 9 (p_dev_sectors (tgt_params dev)) \<noteq> bytes then returns (- 1, dev)
         else returns (0, dev\<lparr>tgt_size := bytes, fd1 := fd, nr_fds := nr_fds dev + 1\<rparr>)))"

definition loop_tgt_ctl :: "'k tgt_ctl" where
  "loop_tgt_ctl = \<lparr>tc_name = ''loop'', init_tgt = Some ublk_loop_tgt_init,
     deinit_tgt = Some ublk_loop_tgt_deinit, recover_tgt = Some ublk_loop_tgt_recover\<rparr>"

definition tgt_ctl_list :: "'k tgt_ctl list" where
  "tgt_ctl_list = [null_tgt_ctl, loop_tgt_ctl]"

section \<open>The daemon\<close>

definition ublk_dev_prep :: "'k os \<Rightarrow> 'k tgt_ctl \<Rightarrow> ublk_dev \<Rightarrow> ('k, int \<times> ublk_dev) prog" where
  "ublk_dev_prep S T dev =
     (let p = Ublkc_Dev (sint (di_dev_id (dev_info dev))) in
      andthen (syscall (os_open S p) (Ev_Open p)) (\<lambda>fd.
        let dev' = dev\<lparr>fd0 := fd\<rparr> in
        if fd < 0 then andthen (emit (Ev_Close fd)) (\<lambda>_. returns (- EBADF, dev'))
        else if di_state (dev_info dev) \<noteq> DEV_QUIESCED
        then (case init_tgt T of Some f \<Rightarrow> f S dev' | None \<Rightarrow> returns (0, dev'))
        else (case recover_tgt T of Some f \<Rightarrow> f S dev' | None \<Rightarrow> returns (0, dev'))))"

definition ublk_dev_unprep :: "'k tgt_ctl \<Rightarrow> ublk_dev \<Rightarrow> ('k, unit) prog" where
  "ublk_dev_unprep T dev =
     andthen (case deinit_tgt T of Some f \<Rightarrow> f dev | None \<Rightarrow> returns ()) (\<lambda>_. emit (Ev_Close (fd0 dev)))"

text \<open>A loop over \<open>dev->q[i]\<close> that logs one event for each queue; the array has \<open>UBLK_MAX_QUEUES\<close> elements.\<close>

fun for_queues :: "(nat \<Rightarrow> sys_event) \<Rightarrow> nat list \<Rightarrow> ('k, unit) prog" where
  "for_queues ev [] = returns ()"
| "for_queues ev (i # is) =
     (if i < UBLK_MAX_QUEUES then andthen (emit (ev i)) (\<lambda>_. for_queues ev is)
      else halt (Fault Out_Of_Bounds))"

definition queue_ids :: "ublk_dev \<Rightarrow> nat list" where
  "queue_ids dev = [0..<unat (di_nr_hw_queues (dev_info dev))]"

definition ublk_set_parameters :: "'k os \<Rightarrow> ublk_dev \<Rightarrow> ('k, ublk_dev) prog" where
  "ublk_set_parameters S dev =
     andthen (ublk_ctrl_set_params S dev (tgt_params dev)) (\<lambda>(_, p). returns (dev\<lparr>tgt_params := p\<rparr>))"

definition daemon_start :: "'k os \<Rightarrow> int \<Rightarrow> bool \<Rightarrow> ublk_dev \<Rightarrow> ('k, int \<times> ublk_dev) prog" where
  "daemon_start S pid recovery dev =
     (if recovery then ublk_ctrl_end_user_recover S dev pid
      else andthen (ublk_set_parameters S dev) (\<lambda>dev'. ublk_ctrl_start_dev S dev' pid))"

text \<open>\<open>pid\<close> is the process id of the daemon, the process that \<open>daemon(1, 1)\<close> leaves running.\<close>

definition ublk_start_daemon :: "'k os \<Rightarrow> int \<Rightarrow> 'k tgt_ctl \<Rightarrow> ublk_dev \<Rightarrow> bool \<Rightarrow> ('k, int \<times> ublk_dev) prog" where
  "ublk_start_daemon S pid T dev recovery =
     andthen (emit Ev_Daemon) (\<lambda>_. andthen (ublk_dev_prep S T dev) (\<lambda>(ret, dev1).
       if ret \<noteq> 0 then returns (ret, dev1)
       else andthen (for_queues Ev_Create (queue_ids dev1)) (\<lambda>_.
         andthen (daemon_start S pid recovery dev1) (\<lambda>(ret, dev2).
           if ret < 0 then andthen (ublk_dev_unprep T dev2) (\<lambda>_. returns (ret, dev2))
           else andthen (ublk_ctrl_get_info S dev2) (\<lambda>(_, dev3).
             andthen (ublk_ctrl_dump S dev3 True) (\<lambda>_.
               andthen (for_queues Ev_Join (queue_ids dev3)) (\<lambda>_.
                 andthen (ublk_dev_unprep T dev3) (\<lambda>_. returns (ret, dev3)))))))))"

end
