(* ===== verification/C_Lib.thy ===== *)
theory C_Lib
  imports Ndt_Prelude
begin

text \<open>
  What the programs use of the C library to read numbers: \<open>strtol\<close> and \<open>strtoul\<close> on character
  lists, for the bases 10, 16 and 0 (decided by the prefix), with saturation at the limits of
  a 64-bit \<open>long\<close>.
\<close>

definition char_code :: "char \<Rightarrow> nat" where
  "char_code c = of_char c"

definition is_space :: "char \<Rightarrow> bool" where
  "is_space c \<longleftrightarrow> char_code c = 32 \<or> (9 \<le> char_code c \<and> char_code c \<le> 13)"

text \<open>The value of a digit; 99 for a character that is none in any base.\<close>

definition digit_value :: "char \<Rightarrow> nat" where
  "digit_value c =
     (let n = char_code c in
      if 48 \<le> n \<and> n \<le> 57 then n - 48
      else if 97 \<le> n \<and> n \<le> 122 then n - 87
      else if 65 \<le> n \<and> n \<le> 90 then n - 55 else 99)"

fun digits_value :: "nat \<Rightarrow> nat \<Rightarrow> string \<Rightarrow> nat" where
  "digits_value base acc [] = acc"
| "digits_value base acc (c # cs) =
     (if digit_value c < base then digits_value base (acc * base + digit_value c) cs else acc)"

fun strip_sign :: "string \<Rightarrow> bool \<times> string" where
  "strip_sign (c # cs) =
     (if c = CHR ''-'' then (True, cs) else if c = CHR ''+'' then (False, cs) else (False, c # cs))"
| "strip_sign [] = (False, [])"

definition hex_prefix :: "string \<Rightarrow> bool" where
  "hex_prefix s \<longleftrightarrow> (case s of
     a # b # c # _ \<Rightarrow> a = CHR ''0'' \<and> (b = CHR ''x'' \<or> b = CHR ''X'') \<and> digit_value c < 16 | _ \<Rightarrow> False)"

definition magnitude :: "nat \<Rightarrow> string \<Rightarrow> nat" where
  "magnitude base s =
     (if (base = 0 \<or> base = 16) \<and> hex_prefix s then digits_value 16 0 (drop 2 s)
      else if base = 0 then digits_value (if take 1 s = ''0'' then 8 else 10) 0 s
      else digits_value base 0 s)"

definition strtol :: "nat \<Rightarrow> string \<Rightarrow> int" where
  "strtol base s =
     (let (neg, t) = strip_sign (dropWhile is_space s);
          v = (if neg then - int (magnitude base t) else int (magnitude base t))
      in max (- (2 ^ 63)) (min (2 ^ 63 - 1) v))"

text \<open>\<open>strtoul\<close> negates modulo \<open>2 ^ 64\<close> and saturates at the largest value.\<close>

definition strtoul :: "nat \<Rightarrow> string \<Rightarrow> u64" where
  "strtoul base s =
     (let (neg, t) = strip_sign (dropWhile is_space s); n = magnitude base t in
      if 2 ^ 64 \<le> n then - 1 else if neg then - word_of_nat n else word_of_nat n)"

text \<open>Where \<open>strtoull\<close> with base 0 stops: at the first character that is no digit, or at the start.\<close>

definition strtoull_end :: "string \<Rightarrow> string" where
  "strtoull_end s =
     (let t = snd (strip_sign (dropWhile is_space s)); base = (if take 1 t = ''0'' then 8 else 10) in
      if hex_prefix t then dropWhile (\<lambda>c. digit_value c < 16) (drop 2 t)
      else if t \<noteq> [] \<and> digit_value (hd t) < base then dropWhile (\<lambda>c. digit_value c < base) t
      else s)"

text \<open>The number of a string that is one as a whole and fits: neither \<open>errno\<close> nor a rest.\<close>

definition strtoull_whole :: "string \<Rightarrow> u64 option" where
  "strtoull_whole s =
     (if 2 ^ 64 \<le> magnitude 0 (snd (strip_sign (dropWhile is_space s))) \<or> strtoull_end s \<noteq> [] then None else Some (strtoul 0 s))"

text \<open>\<open>atoi\<close> is \<open>strtol\<close> stored in an \<open>int\<close>.\<close>

definition atoi :: "string \<Rightarrow> int" where
  "atoi s = as_int (strtol 10 s)"

text \<open>The decimal digits of a number, as \<open>%u\<close> prints them.\<close>

function decimal :: "nat \<Rightarrow> string" where
  "decimal n = (if n < 10 then [char_of (48 + n)] else decimal (n div 10) @ [char_of (48 + n mod 10)])"
  by auto
termination by (relation "measure id") auto

declare decimal.simps [simp del]

lemma strtol_range: "- (2 ^ 63) \<le> strtol base s" "strtol base s < 2 ^ 63"
  by (auto simp: strtol_def Let_def min_def max_def split: prod.splits)

lemma strtol_examples: "strtol 10 ''  -12x'' = - 12" "strtol 16 ''0xff'' = 255" "strtol 10 ''abc'' = 0"
  by code_simp+

end
