(* ===== verification/Ublk_Cli.thy ===== *)
theory Ublk_Cli
  imports Ublk_Daemon C_Lib
begin

text \<open>
  The command line of \<open>miniublk.c\<close>: \<open>add\<close>, \<open>recover\<close>, \<open>del\<close>, \<open>list\<close> and \<open>help\<close>. The options are those
  \<open>getopt_long\<close> delivers, in order.
\<close>

section \<open>Finding the target\<close>

text \<open>
  The loop of \<open>ublk_find_tgt\<close>: its condition is the constant \<open>sizeof(tgt_ops_list) / sizeof(*ops)\<close>,
  so it only ends when a name matches; past the end of the array it reads what is not there.
\<close>

function find_tgt_from :: "'k tgt_ctl list \<Rightarrow> nat \<Rightarrow> string \<Rightarrow> fault + 'k tgt_ctl" where
  "find_tgt_from ops i name =
     (if i < length ops
      then (if tc_name (ops ! i) = name then Inr (ops ! i) else find_tgt_from ops (i + 1) name)
      else Inl Out_Of_Bounds)"
  by auto
termination by (relation "measure (\<lambda>(ops, i, _). length ops - i)") auto

declare find_tgt_from.simps [simp del]

definition ublk_find_tgt :: "string option \<Rightarrow> ('k, 'k tgt_ctl option) prog" where
  "ublk_find_tgt name = (case name of
     None \<Rightarrow> returns None
   | Some n \<Rightarrow> (case find_tgt_from tgt_ctl_list 0 n of
                 Inl e \<Rightarrow> halt (Fault e) | Inr T \<Rightarrow> returns (Some T)))"

section \<open>Options\<close>

datatype cli_opt =
    Opt_t string | Opt_n string | Opt_q string | Opt_d string | Opt_r | Opt_a | Opt_f string
  | Opt_debug_mask string | Opt_quiet | Opt_other

record cli_args =
  a_type :: "string option"
  a_dev_id :: s32
  a_queues :: u32
  a_depth :: u32
  a_recovery :: bool

definition add_defaults :: cli_args where
  "add_defaults = \<lparr>a_type = None, a_dev_id = - 1, a_queues = 2, a_depth = word_of_nat UBLK_QUEUE_DEPTH,
     a_recovery = False\<rparr>"

fun add_opt :: "cli_opt \<Rightarrow> cli_args \<Rightarrow> cli_args" where
  "add_opt (Opt_n s) a = a\<lparr>a_dev_id := word_of_int (strtol 10 s)\<rparr>"
| "add_opt (Opt_t s) a = a\<lparr>a_type := Some s\<rparr>"
| "add_opt (Opt_q s) a = a\<lparr>a_queues := word_of_int (strtol 10 s)\<rparr>"
| "add_opt (Opt_d s) a = a\<lparr>a_depth := word_of_int (strtol 10 s)\<rparr>"
| "add_opt Opt_r a = a\<lparr>a_recovery := True\<rparr>"
| "add_opt _ a = a"

text \<open>\<open>cmd_dev_recover\<close> has cases for \<open>-n\<close> and \<open>-t\<close> only.\<close>

fun recover_opt :: "cli_opt \<Rightarrow> cli_args \<Rightarrow> cli_args" where
  "recover_opt (Opt_n s) a = a\<lparr>a_dev_id := word_of_int (strtol 10 s)\<rparr>"
| "recover_opt (Opt_t s) a = a\<lparr>a_type := Some s\<rparr>"
| "recover_opt _ a = a"

text \<open>The argument of the last \<open>-f\<close>, which the loop target finds when it parses the vector again.\<close>

fun file_opt :: "cli_opt list \<Rightarrow> string option \<Rightarrow> string option" where
  "file_opt [] f = f"
| "file_opt (x # xs) f = file_opt xs (case x of Opt_f s \<Rightarrow> Some s | _ \<Rightarrow> f)"

section \<open>Add and recover\<close>

text \<open>The labels \<open>fail_del\<close> and \<open>fail\<close>, which the successful path runs through as well.\<close>

definition fail_del :: "'k os \<Rightarrow> ublk_dev \<Rightarrow> int \<Rightarrow> ('k, int) prog" where
  "fail_del S dev ret =
     andthen (ublk_ctrl_del_dev S dev) (\<lambda>_. andthen (ublk_ctrl_deinit (Some dev)) (\<lambda>_. returns ret))"

definition fail :: "ublk_dev \<Rightarrow> int \<Rightarrow> ('k, int) prog" where
  "fail dev ret = andthen (ublk_ctrl_deinit (Some dev)) (\<lambda>_. returns ret)"

definition add_info :: "cli_args \<Rightarrow> ublk_dev \<Rightarrow> ublk_dev" where
  "add_info a dev = dev\<lparr>dev_info := (dev_info dev)\<lparr>di_dev_id := a_dev_id a,
     di_nr_hw_queues := ucast (a_queues a), di_queue_depth := ucast (a_depth a),
     di_user_recovery := di_user_recovery (dev_info dev) \<or> a_recovery a\<rparr>\<rparr>"

text \<open>From the add command on.\<close>

definition add_device :: "'k os \<Rightarrow> int \<Rightarrow> 'k tgt_ctl \<Rightarrow> ublk_dev \<Rightarrow> ('k, int) prog" where
  "add_device S pid T dev =
     andthen (ublk_ctrl_add_dev S dev) (\<lambda>(ret, dev1).
       if ret < 0 then fail dev1 ret
       else andthen (ublk_start_daemon S pid T dev1 False) (\<lambda>(ret, dev2). fail_del S dev2 ret))"

definition cmd_dev_add :: "'k os \<Rightarrow> int \<Rightarrow> cli_opt list \<Rightarrow> ('k, int) prog" where
  "cmd_dev_add S pid opts =
     (let a = fold add_opt opts add_defaults in
      andthen (ublk_find_tgt (a_type a)) (\<lambda>ops. case ops of
        None \<Rightarrow> returns (- ENODEV)
      | Some T \<Rightarrow>
          if word_of_nat UBLK_MAX_QUEUES < a_queues a \<or> word_of_nat UBLK_QUEUE_DEPTH < a_depth a
          then returns (- EINVAL)
          else andthen (ublk_ctrl_init S) (\<lambda>d. case d of
            None \<Rightarrow> returns (- ENOMEM)
          | Some dev0 \<Rightarrow> add_device S pid T ((add_info a dev0)\<lparr>tgt_file := file_opt opts None\<rparr>))))"

text \<open>From the recovery command on.\<close>

definition recover_device :: "'k os \<Rightarrow> int \<Rightarrow> 'k tgt_ctl \<Rightarrow> ublk_dev \<Rightarrow> ('k, int) prog" where
  "recover_device S pid T dev =
     andthen (ublk_ctrl_start_user_recover S dev) (\<lambda>ret.
       if ret < 0 then fail dev ret
       else andthen (ublk_start_daemon S pid T dev True) (\<lambda>(ret, dev'). fail_del S dev' ret))"

definition cmd_dev_recover :: "'k os \<Rightarrow> int \<Rightarrow> cli_opt list \<Rightarrow> ('k, int) prog" where
  "cmd_dev_recover S pid opts =
     (let a = fold recover_opt opts add_defaults in
      andthen (ublk_find_tgt (a_type a)) (\<lambda>ops. case ops of
        None \<Rightarrow> returns (- ENODEV)
      | Some T \<Rightarrow> andthen (ublk_ctrl_init S) (\<lambda>d. case d of
          None \<Rightarrow> returns (- ENOMEM)
        | Some dev0 \<Rightarrow>
            let dev = dev0\<lparr>dev_info := (dev_info dev0)\<lparr>di_dev_id := a_dev_id a\<rparr>\<rparr> in
            andthen (ublk_ctrl_get_info S dev) (\<lambda>(ret, dev1).
              if ret < 0 then fail dev1 ret
              else andthen (ublk_ctrl_get_params S dev1 (tgt_params dev1)) (\<lambda>(ret, p).
                let dev2 = dev1\<lparr>tgt_params := p\<rparr> in
                if ret \<noteq> 0 then fail dev2 ret
                else recover_device S pid T (dev2\<lparr>tgt_file := file_opt opts None\<rparr>))))))"

section \<open>Delete and list\<close>

text \<open>
  The polling loop of \<open>ublk_stop_io_daemon\<close>, with \<open>k\<close> rounds left before \<open>cnt\<close> reaches 6; the
  value is the last result of \<open>kill(daemon_pid, 0)\<close>.
\<close>

fun poll_daemon :: "'k os \<Rightarrow> int \<Rightarrow> nat \<Rightarrow> ('k, int) prog" where
  "poll_daemon S pid 0 = returns 0"
| "poll_daemon S pid (Suc k) =
     andthen (syscall (os_kill S pid) (Ev_Kill pid)) (\<lambda>ret.
       if ret \<noteq> 0 then returns ret
       else andthen (emit Ev_Usleep) (\<lambda>_. poll_daemon S pid k))"

definition ublk_stop_io_daemon :: "'k os \<Rightarrow> ublk_dev \<Rightarrow> ('k, int) prog" where
  "ublk_stop_io_daemon S dev =
     (let daemon_pid = sint (di_ublksrv_pid (dev_info dev)) in
      if daemon_pid = - 1 then returns 0
      else andthen (poll_daemon S daemon_pid 6) (\<lambda>ret. returns (if ret \<noteq> 0 then 0 else - 1)))"

definition dev_of :: "int \<Rightarrow> ublk_dev \<Rightarrow> ublk_dev" where
  "dev_of number dev = dev\<lparr>dev_info := (dev_info dev)\<lparr>di_dev_id := word_of_int number\<rparr>\<rparr>"

definition cmd_dev_del_one :: "'k os \<Rightarrow> int \<Rightarrow> ('k, int) prog" where
  "cmd_dev_del_one S number =
     andthen (ublk_ctrl_init S) (\<lambda>d. case d of
       None \<Rightarrow> andthen (ublk_ctrl_deinit None) (\<lambda>_. returns (- ENODEV))
     | Some dev0 \<Rightarrow>
         andthen (ublk_ctrl_get_info S (dev_of number dev0)) (\<lambda>(ret, dev).
           if ret < 0 then fail dev ret
           else andthen (ublk_ctrl_stop_dev S dev) (\<lambda>ret.
             if ret < 0 then fail dev ret
             else andthen (ublk_stop_io_daemon S dev) (\<lambda>ret. fail_del S dev ret))))"

fun for_numbers :: "(int \<Rightarrow> ('k, int) prog) \<Rightarrow> int list \<Rightarrow> ('k, unit) prog" where
  "for_numbers f [] = returns ()"
| "for_numbers f (i # is) = andthen (f i) (\<lambda>_. for_numbers f is)"

fun del_opt :: "cli_opt \<Rightarrow> int \<Rightarrow> int" where
  "del_opt Opt_a number = - 1"
| "del_opt (Opt_n s) number = sint (word_of_int (strtol 10 s) :: s32)"
| "del_opt _ number = number"

definition cmd_dev_del :: "'k os \<Rightarrow> cli_opt list \<Rightarrow> ('k, int) prog" where
  "cmd_dev_del S opts =
     (let number = fold del_opt opts (- 2) in
      if 0 \<le> number then cmd_dev_del_one S number
      else if number \<noteq> - 1 then returns (- EINVAL)
      else andthen (for_numbers (cmd_dev_del_one S) (map int [0..<255])) (\<lambda>_. returns 0))"

definition cmd_dev_list_one :: "'k os \<Rightarrow> int \<Rightarrow> ('k, int) prog" where
  "cmd_dev_list_one S number =
     andthen (ublk_ctrl_init S) (\<lambda>d. case d of
       None \<Rightarrow> returns (- ENODEV)
     | Some dev0 \<Rightarrow>
         andthen (ublk_ctrl_get_info S (dev_of number dev0)) (\<lambda>(ret, dev).
           andthen (if ret < 0 then returns () else ublk_ctrl_dump S dev False) (\<lambda>_. fail dev ret)))"

fun list_opt :: "cli_opt \<Rightarrow> int \<Rightarrow> int" where
  "list_opt (Opt_n s) number = sint (word_of_int (strtol 10 s) :: s32)"
| "list_opt _ number = number"

definition cmd_dev_list :: "'k os \<Rightarrow> cli_opt list \<Rightarrow> ('k, int) prog" where
  "cmd_dev_list S opts =
     (let number = fold list_opt opts (- 1) in
      if 0 \<le> number then cmd_dev_list_one S number
      else andthen (for_numbers (cmd_dev_list_one S) (map int [0..<255])) (\<lambda>_. returns 0))"

section \<open>The program\<close>

text \<open>\<open>main\<close>, with \<open>argv[1]\<close> if there is one; \<open>cmd_dev_help\<close> only prints and returns 0.\<close>

definition ublk_main :: "'k os \<Rightarrow> int \<Rightarrow> string option \<Rightarrow> cli_opt list \<Rightarrow> ('k, int) prog" where
  "ublk_main S pid cmd opts =
     (case cmd of
        None \<Rightarrow> returns (- EINVAL)
      | Some c \<Rightarrow>
          if c = ''add'' then cmd_dev_add S pid opts
          else if c = ''del'' then cmd_dev_del S opts
          else if c = ''list'' then cmd_dev_list S opts
          else if c = ''help'' then returns 0
          else if c = ''recover'' then cmd_dev_recover S pid opts
          else returns (- EINVAL))"

end
