(* ===== verification/Ublk_Ctl_Logs.thy ===== *)
theory Ublk_Ctl_Logs
  imports Ublk_Cli
begin

text \<open>
  What the operations of the control plane log: one lemma per operation, composed with the
  rules for \<open>logs\<close> the way the code composes the operations.
\<close>

section \<open>The steps of a log\<close>

text \<open>
  What matters of a log, in order: the control commands with their return values, the queue threads
  created and joined, the polls of a daemon and the pauses between them. A command that could not be
  submitted has the error of the submission; any other has the result it completed with.
\<close>

datatype ctl_step = Cmd ctrl_op int | Created nat | Joined nat | Polled int int | Paused

fun step_of :: "sys_event \<Rightarrow> ctl_step list" where
  "step_of (Ev_Submit s r) = (if r < 0 then [Cmd (cs_op s) r] else [])"
| "step_of (Ev_Done op r b) = [Cmd op r]"
| "step_of (Ev_Create i) = [Created i]"
| "step_of (Ev_Join i) = [Joined i]"
| "step_of (Ev_Kill pid r) = [Polled pid r]"
| "step_of Ev_Usleep = [Paused]"
| "step_of e = []"

definition steps :: "sys_event list \<Rightarrow> ctl_step list" where
  "steps tr = concat (map step_of tr)"

lemma steps_simps [simp]:
  "steps [] = []" "steps (e # tr) = step_of e @ steps tr" "steps (tr @ tr') = steps tr @ steps tr'"
  by (simp_all add: steps_def)

text \<open>Runs without any step and without a submission.\<close>

definition quiet :: "sys_event list \<Rightarrow> bool" where
  "quiet tr \<longleftrightarrow> (\<forall>e \<in> set tr. step_of e = [] \<and> (\<forall>s r. e \<noteq> Ev_Submit s r))"

lemma quiet_simps [simp]:
  "quiet []" "quiet (e # tr) \<longleftrightarrow> step_of e = [] \<and> (\<forall>s r. e \<noteq> Ev_Submit s r) \<and> quiet tr"
  "quiet (tr @ tr') \<longleftrightarrow> quiet tr \<and> quiet tr'"
  by (auto simp: quiet_def)

lemma quiet_steps: "quiet tr \<Longrightarrow> steps tr = []"
  by (induction tr) simp_all

section \<open>Control commands\<close>

text \<open>
  The program has at most eight commands in its ring of 32 and waits for each, so it always gets
  an entry.
\<close>

definition sqe_free :: "'k os \<Rightarrow> bool" where
  "sqe_free S \<longleftrightarrow> (\<forall>k. fst (os_get_sqe S k) \<noteq> None)"

lemma cs_op_init_cmd [simp]: "cs_op (ublk_ctrl_init_cmd dev data slot) = cd_op data"
  by (simp add: ublk_ctrl_init_cmd_def Let_def)

lemma cd_op_simps [simp]:
  "cd_op (plain_cmd op) = op" "cd_op (data_cmd op x) = op" "cd_op (buf_cmd op b) = op"
  by (simp_all add: plain_cmd_def data_cmd_def buf_cmd_def)

text \<open>A command is one step, with the value that \<open>ublk_ctrl_cmd\<close> returns.\<close>

lemma logs_ctrl_cmd:
  assumes "sqe_free S"
  shows "logs (ublk_ctrl_cmd S dev data) (\<lambda>x tr. steps tr = [Cmd (cd_op data) (fst x)])"
  unfolding logs_def
proof (intro allI impI)
  fix w x w'
  assume run: "ublk_ctrl_cmd S dev data w = Inr (x, w')"
  obtain s k where s: "os_get_sqe S (kst w) = (Some s, k)"
    using assms by (metis option.exhaust prod.collapse sqe_free_def)
  show "\<exists>tr. sys_log w' = sys_log w @ tr \<and> steps tr = [Cmd (cd_op data) (fst x)]"
    using run
    by (auto simp: ublk_ctrl_cmd_def andthen_def syscall_def returns_def s Let_def split: prod.splits if_splits)
qed

lemma logs_cmd_then:
  assumes "sqe_free S" and "\<And>x b tr. steps tr = [Cmd (cd_op data) x] \<Longrightarrow> logs (f (x, b)) (\<lambda>y tr'. Q y (tr @ tr'))"
  shows "logs (andthen (ublk_ctrl_cmd S dev data) f) Q"
  by (rule logs_andthen [OF logs_ctrl_cmd [OF assms(1)]]) (metis assms(2) prod.collapse)

named_theorems op_logs "the step of each control operation"

lemma logs_stop_dev [op_logs]: "sqe_free S \<Longrightarrow> logs (ublk_ctrl_stop_dev S dev) (\<lambda>r tr. steps tr = [Cmd STOP_DEV r])"
  unfolding ublk_ctrl_stop_dev_def
  by (rule logs_cmd_then) (auto intro!: logs_returns)

lemma logs_del_dev [op_logs]: "sqe_free S \<Longrightarrow> logs (ublk_ctrl_del_dev S dev) (\<lambda>r tr. steps tr = [Cmd DEL_DEV r])"
  unfolding ublk_ctrl_del_dev_def
  by (rule logs_cmd_then) (auto intro!: logs_returns)

lemma logs_start_recover [op_logs]:
  "sqe_free S \<Longrightarrow> logs (ublk_ctrl_start_user_recover S dev) (\<lambda>r tr. steps tr = [Cmd START_USER_RECOVERY r])"
  unfolding ublk_ctrl_start_user_recover_def
  by (rule logs_cmd_then) (auto intro!: logs_returns)

lemma logs_add_dev [op_logs]: "sqe_free S \<Longrightarrow> logs (ublk_ctrl_add_dev S dev) (\<lambda>x tr. steps tr = [Cmd ADD_DEV (fst x)])"
  unfolding ublk_ctrl_add_dev_def
  by (rule logs_cmd_then) (auto intro!: logs_returns)

lemma logs_get_info [op_logs]: "sqe_free S \<Longrightarrow> logs (ublk_ctrl_get_info S dev) (\<lambda>x tr. steps tr = [Cmd GET_DEV_INFO (fst x)])"
  unfolding ublk_ctrl_get_info_def
  by (rule logs_cmd_then) (auto intro!: logs_returns)

lemma logs_get_params [op_logs]: "sqe_free S \<Longrightarrow> logs (ublk_ctrl_get_params S dev p) (\<lambda>x tr. steps tr = [Cmd GET_PARAMS (fst x)])"
  unfolding ublk_ctrl_get_params_def Let_def
  by (rule logs_cmd_then) (auto intro!: logs_returns)

lemma logs_set_params [op_logs]: "sqe_free S \<Longrightarrow> logs (ublk_ctrl_set_params S dev p) (\<lambda>x tr. steps tr = [Cmd SET_PARAMS (fst x)])"
  unfolding ublk_ctrl_set_params_def Let_def
  by (rule logs_cmd_then) (auto intro!: logs_returns)

lemma logs_start_dev [op_logs]: "sqe_free S \<Longrightarrow> logs (ublk_ctrl_start_dev S dev pid) (\<lambda>x tr. steps tr = [Cmd START_DEV (fst x)])"
  unfolding ublk_ctrl_start_dev_def Let_def
  by (rule logs_cmd_then) (auto intro!: logs_returns)

lemma logs_end_recover [op_logs]:
  "sqe_free S \<Longrightarrow> logs (ublk_ctrl_end_user_recover S dev pid) (\<lambda>x tr. steps tr = [Cmd END_USER_RECOVERY (fst x)])"
  unfolding ublk_ctrl_end_user_recover_def Let_def
  by (rule logs_cmd_then) (auto intro!: logs_returns)

lemma logs_dump [op_logs]: "sqe_free S \<Longrightarrow> logs (ublk_ctrl_dump S dev q) (\<lambda>_ tr. \<exists>r. steps tr = [Cmd GET_PARAMS r])"
  unfolding ublk_ctrl_dump_def
  by (rule logs_andthen [OF logs_get_params])
    (auto intro!: logs_returns logs_halt)

lemma logs_ctrl_init [op_logs]: "logs (ublk_ctrl_init S) (\<lambda>_. quiet)"
  unfolding ublk_ctrl_init_def Let_def
  by (rule logs_syscall_then)
    (auto intro!: logs_halt logs_syscall_then logs_emit_then logs_returns)

lemma logs_deinit [op_logs]: "logs (ublk_ctrl_deinit d) (\<lambda>_. quiet)"
  unfolding ublk_ctrl_deinit_def
  by (auto intro!: logs_halt logs_emit_then logs_emit split: option.splits)

section \<open>Targets and daemon\<close>

lemma logs_facts: "logs (backing_file_facts S fd) (\<lambda>f tr. quiet tr \<and> (\<forall>r. f = Give_Up r \<longrightarrow> r < 0))"
  unfolding backing_file_facts_def query_def
  by (rule logs_syscall_then)
    (auto intro!: logs_syscall_then logs_emit_then logs_returns simp: EBADF_def
      split: option.splits file_kind.splits)

text \<open>A target's preparation logs nothing of interest and never returns a positive value.\<close>

definition prepares :: "('k, int \<times> ublk_dev) prog \<Rightarrow> bool" where
  "prepares m \<longleftrightarrow> logs m (\<lambda>y tr. quiet tr \<and> fst y \<le> 0)"

lemma prepares_open:
  assumes "\<And>fd bytes bss. prepares (cont fd bytes bss)"
  shows "prepares (open_backing_file S dev cont)"
proof (cases "tgt_file dev")
  case None
  then show ?thesis by (auto intro!: logs_returns simp: prepares_def open_backing_file_def EINVAL_def)
next
  case (Some name)
  have rest: "logs (case f of Facts bytes bss \<Rightarrow> cont fd bytes bss | Give_Up r \<Rightarrow> returns (r, dev))
      (\<lambda>y tr'. quiet tr' \<and> fst y \<le> 0)"
    if "\<forall>r. f = Give_Up r \<longrightarrow> r < 0" for f fd
    using that assms by (cases f) (auto intro!: logs_returns simp: prepares_def)
  show ?thesis
    unfolding prepares_def open_backing_file_def Some option.case
    by (rule logs_syscall_then)
      (auto intro!: logs_returns logs_andthen [OF logs_facts] rest simp: EBADF_def)
qed

lemma prepares_targets:
  "prepares (ublk_null_tgt_init S dev)" "prepares (ublk_null_tgt_recover S dev)"
  "prepares (ublk_loop_tgt_init S dev)" "prepares (ublk_loop_tgt_recover S dev)"
proof -
  show "prepares (ublk_null_tgt_init S dev)" "prepares (ublk_null_tgt_recover S dev)"
    by (auto intro!: logs_returns simp: prepares_def ublk_null_tgt_init_def ublk_null_tgt_recover_def Let_def)
  show "prepares (ublk_loop_tgt_init S dev)"
    unfolding ublk_loop_tgt_init_def
    by (rule prepares_open) (auto intro!: logs_syscall_then logs_returns simp: prepares_def)
  show "prepares (ublk_loop_tgt_recover S dev)"
    unfolding ublk_loop_tgt_recover_def
    by (rule prepares_open) (auto intro!: logs_syscall_then logs_returns simp: prepares_def)
qed

definition known_tgt :: "'k tgt_ctl \<Rightarrow> bool" where
  "known_tgt T \<longleftrightarrow> T = null_tgt_ctl \<or> T = loop_tgt_ctl"

lemma known_tgt_prepares:
  assumes "known_tgt T"
  shows "init_tgt T = Some f \<Longrightarrow> prepares (f S dev)" and "recover_tgt T = Some f \<Longrightarrow> prepares (f S dev)"
  using assms prepares_targets by (auto simp: known_tgt_def null_tgt_ctl_def loop_tgt_ctl_def)

lemma prepares_dev_prep:
  assumes "known_tgt T"
  shows "prepares (ublk_dev_prep S T dev)"
proof -
  let ?p = "Ublkc_Dev (sint (di_dev_id (dev_info dev)))"
  obtain f g where f: "init_tgt T = Some f" and g: "recover_tgt T = Some g"
    using assms by (auto simp: known_tgt_def null_tgt_ctl_def loop_tgt_ctl_def)
  note after = known_tgt_prepares(1) [OF assms f, unfolded prepares_def]
    known_tgt_prepares(2) [OF assms g, unfolded prepares_def]
  show ?thesis
    unfolding prepares_def ublk_dev_prep_def Let_def f g option.case
    by (rule logs_syscall_then)
      (auto intro!: logs_emit_then logs_returns after simp: EBADF_def)
qed

lemma logs_unprep [op_logs]:
  assumes "known_tgt T"
  shows "logs (ublk_dev_unprep T dev) (\<lambda>_. quiet)"
proof -
  have "logs (case deinit_tgt T of Some f \<Rightarrow> f dev | None \<Rightarrow> returns ()) (\<lambda>_. quiet)"
    using assms by (auto simp: known_tgt_def null_tgt_ctl_def loop_tgt_ctl_def ublk_loop_tgt_deinit_def
        intro!: logs_returns logs_emit_then logs_emit)
  then show ?thesis
    unfolding ublk_dev_unprep_def
    by (rule logs_andthen) (auto intro!: logs_emit)
qed

lemma logs_for_queues: "logs (for_queues ev is) (\<lambda>_ tr. tr = map ev is \<and> (\<forall>i \<in> set is. i < UBLK_MAX_QUEUES))"
proof (induction "is")
  case (Cons i js)
  then show ?case by (auto intro!: logs_emit_then logs_halt elim!: logs_weaken)
qed (simp add: logs_returns)

lemma steps_creates: "steps (map Ev_Create is) = map Created is"
  by (induction "is") simp_all

lemma steps_joins: "steps (map Ev_Join is) = map Joined is"
  by (induction "is") simp_all

text \<open>The loops over the queues of a device, of which there are at most \<open>UBLK_MAX_QUEUES\<close>.\<close>

definition queue_steps :: "(nat \<Rightarrow> ctl_step) \<Rightarrow> ctl_step list \<Rightarrow> bool" where
  "queue_steps f ss \<longleftrightarrow> (\<exists>n \<le> UBLK_MAX_QUEUES. ss = map f [0..<n])"

lemma queue_stepsI:
  assumes "\<forall>i \<in> set (queue_ids dev). i < UBLK_MAX_QUEUES"
  shows "queue_steps f (map f (queue_ids dev))"
proof -
  have "unat (di_nr_hw_queues (dev_info dev)) \<le> UBLK_MAX_QUEUES"
  proof (rule ccontr)
    assume "\<not> ?thesis"
    then have "UBLK_MAX_QUEUES \<in> set (queue_ids dev)" by (simp add: queue_ids_def)
    then show False using assms by blast
  qed
  then show ?thesis by (auto simp: queue_steps_def queue_ids_def)
qed

lemma logs_create_threads: "logs (for_queues Ev_Create (queue_ids dev)) (\<lambda>_ tr. queue_steps Created (steps tr))"
  by (rule logs_weaken [OF logs_for_queues]) (auto simp: steps_creates intro: queue_stepsI)

lemma logs_join_threads: "logs (for_queues Ev_Join (queue_ids dev)) (\<lambda>_ tr. queue_steps Joined (steps tr))"
  by (rule logs_weaken [OF logs_for_queues]) (auto simp: steps_joins intro: queue_stepsI)

section \<open>The daemon\<close>

text \<open>The commands that start a new device, or end a recovery, with \<open>r\<close> the result that counts.\<close>

inductive start_steps :: "bool \<Rightarrow> int \<Rightarrow> ctl_step list \<Rightarrow> bool" where
  new: "start_steps False r [Cmd SET_PARAMS p, Cmd START_DEV r]"
| recovered: "start_steps True r [Cmd END_USER_RECOVERY r]"

text \<open>
  The three ways \<open>ublk_start_daemon\<close> can go: the device is not ready; it is, but the start command
  fails and the threads, which have been created before, are left alone; everything runs, and after
  the start command the threads of the final queue count are joined.
\<close>

inductive daemon_steps :: "bool \<Rightarrow> int \<Rightarrow> ctl_step list \<Rightarrow> bool" where
  unprepared: "r < 0 \<Longrightarrow> daemon_steps rec r []"
| refused: "\<lbrakk>r < 0; queue_steps Created cs; start_steps rec r ss\<rbrakk> \<Longrightarrow> daemon_steps rec r (cs @ ss)"
| served: "\<lbrakk>0 \<le> r; queue_steps Created cs; start_steps rec r ss; queue_steps Joined js\<rbrakk>
    \<Longrightarrow> daemon_steps rec r (cs @ ss @ [Cmd GET_DEV_INFO i, Cmd GET_PARAMS g] @ js)"

inductive_cases start_stepsE: "start_steps rec r ss"
inductive_cases daemon_stepsE: "daemon_steps rec r ss"

lemma logs_daemon_start:
  assumes "sqe_free S"
  shows "logs (daemon_start S pid recovery dev) (\<lambda>x tr. start_steps recovery (fst x) (steps tr))"
proof (cases recovery)
  case True
  then show ?thesis
    by (auto simp: daemon_start_def intro: start_steps.recovered intro!: logs_weaken [OF logs_end_recover [OF assms]])
next
  case False
  have set: "logs (ublk_set_parameters S dev) (\<lambda>_ tr. \<exists>p. steps tr = [Cmd SET_PARAMS p])"
    unfolding ublk_set_parameters_def
    by (rule logs_andthen [OF logs_set_params [OF assms]]) (auto intro!: logs_returns)
  have "logs (andthen (ublk_set_parameters S dev) (\<lambda>dev'. ublk_ctrl_start_dev S dev' pid))
      (\<lambda>x tr. start_steps False (fst x) (steps tr))"
    by (rule logs_andthen [OF set])
      (auto intro!: logs_weaken [OF logs_start_dev [OF assms]] start_steps.new)
  then show ?thesis using False by (simp add: daemon_start_def)
qed

lemma logs_start_daemon:
  assumes S: "sqe_free S" and T: "known_tgt T"
  shows "logs (ublk_start_daemon S pid T dev recovery) (\<lambda>y tr. daemon_steps recovery (fst y) (steps tr))"
proof -
  have finish: "logs (andthen (ublk_dev_unprep T d) (\<lambda>_. returns (r, d'))) (\<lambda>y tr. fst y = r \<and> steps tr = [])"
    for r :: int and d d' :: ublk_dev
    by (rule logs_andthen [OF logs_unprep [OF T]]) (auto intro!: logs_returns quiet_steps)
  have running: "logs (andthen (ublk_ctrl_get_info S dev2) (\<lambda>(_, dev3).
        andthen (ublk_ctrl_dump S dev3 True) (\<lambda>_. andthen (for_queues Ev_Join (queue_ids dev3)) (\<lambda>_.
          andthen (ublk_dev_unprep T dev3) (\<lambda>_. returns (r, dev3))))))
      (\<lambda>y tr. fst y = r \<and> (\<exists>i g js. queue_steps Joined js \<and> steps tr = [Cmd GET_DEV_INFO i, Cmd GET_PARAMS g] @ js))"
    for r :: int and dev2
    by (rule logs_andthen [OF logs_get_info [OF S]], clarsimp, rule logs_andthen [OF logs_dump [OF S]], clarsimp,
        rule logs_andthen [OF logs_join_threads], rule logs_weaken [OF finish]) auto
  have started: "logs (andthen (daemon_start S pid recovery dev1) (\<lambda>(ret, dev2).
        if ret < 0 then andthen (ublk_dev_unprep T dev2) (\<lambda>_. returns (ret, dev2))
        else andthen (ublk_ctrl_get_info S dev2) (\<lambda>(_, dev3).
          andthen (ublk_ctrl_dump S dev3 True) (\<lambda>_. andthen (for_queues Ev_Join (queue_ids dev3)) (\<lambda>_.
            andthen (ublk_dev_unprep T dev3) (\<lambda>_. returns (ret, dev3)))))))
      (\<lambda>y tr. daemon_steps recovery (fst y) (cs @ steps tr))" if cs: "queue_steps Created cs" for dev1 cs
    by (rule logs_andthen [OF logs_daemon_start [OF S]], clarsimp, intro conjI impI;
        rule logs_weaken [OF finish] logs_weaken [OF running])
      (auto simp: not_less intro: daemon_steps.refused [OF _ cs] daemon_steps.served [OF _ cs, simplified])
  show ?thesis
    unfolding ublk_start_daemon_def
  proof (rule logs_emit_then, rule logs_andthen [OF prepares_dev_prep [OF T, unfolded prepares_def]], clarsimp,
      intro conjI impI)
    fix r :: int and dev1 :: ublk_dev and tr
    assume "quiet tr" and "r \<le> 0" and "r \<noteq> 0"
    then show "logs (returns (r, dev1)) (\<lambda>y tr'. daemon_steps recovery (fst y) (steps tr @ steps tr'))"
      by (auto intro!: logs_returns daemon_steps.unprepared simp: quiet_steps)
  next
    fix dev1 :: ublk_dev and tr
    assume tr: "quiet tr"
    show "logs (andthen (for_queues Ev_Create (queue_ids dev1)) (\<lambda>_.
         andthen (daemon_start S pid recovery dev1) (\<lambda>(ret, dev2).
           if ret < 0 then andthen (ublk_dev_unprep T dev2) (\<lambda>_. returns (ret, dev2))
           else andthen (ublk_ctrl_get_info S dev2) (\<lambda>(_, dev3).
             andthen (ublk_ctrl_dump S dev3 True) (\<lambda>_. andthen (for_queues Ev_Join (queue_ids dev3)) (\<lambda>_.
               andthen (ublk_dev_unprep T dev3) (\<lambda>_. returns (ret, dev3))))))))
        (\<lambda>y tr'. daemon_steps recovery (fst y) (steps tr @ steps tr'))"
      by (rule logs_andthen [OF logs_create_threads]) (use started tr in \<open>simp add: quiet_steps\<close>)
  qed
qed

end
