(* ===== verification/Ublk_Ctl_Props.thy ===== *)
theory Ublk_Ctl_Props
  imports Ublk_Ctl_Logs
begin

text \<open>
  What the control plane of \<open>miniublk.c\<close> guarantees: the order of the commands of every
  operation, the limits of what it asks for, the bounded wait for a daemon, and the sizes of
  the targets.
\<close>

section \<open>Finding a target\<close>

lemma find_tgt_result:
  "find_tgt_from tgt_ctl_list 0 name =
     (if name = ''null'' then Inr null_tgt_ctl else if name = ''loop'' then Inr loop_tgt_ctl else Inl Out_Of_Bounds)"
  by (simp add: tgt_ctl_list_def find_tgt_from.simps null_tgt_ctl_def loop_tgt_ctl_def)

text \<open>
  \<open>ublk_find_tgt\<close> finds exactly the two targets of the program. Without a name it returns NULL;
  for any other name it does not return NULL but runs past the end of the target table.
\<close>

theorem find_target_unknown_faults:
  "ublk_find_tgt name w =
     (case name of
        None \<Rightarrow> Inr (None, w)
      | Some n \<Rightarrow> if n = ''null'' then Inr (Some null_tgt_ctl, w)
                  else if n = ''loop'' then Inr (Some loop_tgt_ctl, w)
                  else Inl (Fault Out_Of_Bounds))"
  by (simp add: ublk_find_tgt_def find_tgt_result returns_def halt_def split: option.splits)

lemma logs_find: "logs (ublk_find_tgt name) (\<lambda>T tr. tr = [] \<and> (\<forall>t. T = Some t \<longrightarrow> known_tgt t))"
  by (auto simp: ublk_find_tgt_def find_tgt_result known_tgt_def intro!: logs_returns logs_halt
      split: option.splits)

section \<open>Add and recover\<close>

lemma logs_fail: "logs (fail dev ret) (\<lambda>r tr. r = ret \<and> quiet tr)"
  unfolding fail_def by (rule logs_andthen [OF logs_deinit]) (auto intro!: logs_returns)

lemma logs_fail_del:
  assumes "sqe_free S"
  shows "logs (fail_del S dev ret) (\<lambda>r tr. r = ret \<and> (\<exists>d. steps tr = [Cmd DEL_DEV d]))"
  unfolding fail_del_def
  by (rule logs_andthen [OF logs_del_dev [OF assms]], rule logs_andthen [OF logs_deinit])
    (auto intro!: logs_returns simp: quiet_steps)

lemma logs_daemon_then_del:
  assumes "sqe_free S" and "known_tgt T"
  shows "logs (andthen (ublk_start_daemon S pid T dev recovery) (\<lambda>(ret, dev'). fail_del S dev' ret))
    (\<lambda>r tr. \<exists>ss d. daemon_steps recovery r ss \<and> steps tr = ss @ [Cmd DEL_DEV d])"
  by (rule logs_andthen [OF logs_start_daemon [OF assms]], clarify, rule logs_weaken [OF logs_fail_del [OF assms(1)]]) auto

text \<open>
  The protocol of \<open>add\<close>: nothing is done; the add command fails; or it does not, and then a run of
  the daemon is followed by the deletion of the device.
\<close>

inductive add_steps :: "int \<Rightarrow> ctl_step list \<Rightarrow> bool" where
  rejected: "r < 0 \<Longrightarrow> add_steps r []"
| not_added: "r < 0 \<Longrightarrow> add_steps r [Cmd ADD_DEV r]"
| added: "\<lbrakk>0 \<le> a; daemon_steps False r ss\<rbrakk> \<Longrightarrow> add_steps r ([Cmd ADD_DEV a] @ ss @ [Cmd DEL_DEV d])"

inductive_cases add_stepsE: "add_steps r ss"

lemma logs_add_device:
  assumes S: "sqe_free S" and T: "known_tgt T"
  shows "logs (add_device S pid T dev) (\<lambda>r tr. add_steps r (steps tr))"
  unfolding add_device_def
  by (rule logs_andthen [OF logs_add_dev [OF S]], clarsimp, intro conjI impI;
      rule logs_weaken [OF logs_fail] logs_weaken [OF logs_daemon_then_del [OF S T]])
    (auto simp: quiet_steps not_less intro: add_steps.not_added add_steps.added [simplified])

text \<open>
  What holds for \<open>add_device\<close> within the limits, for quiet runs that return an error, and after a
  quiet beginning, holds for the whole command.
\<close>

definition dev_within_limits :: "ublk_dev \<Rightarrow> bool" where
  "dev_within_limits dev \<longleftrightarrow> unat (di_nr_hw_queues (dev_info dev)) \<le> UBLK_MAX_QUEUES
     \<and> unat (di_queue_depth (dev_info dev)) \<le> UBLK_QUEUE_DEPTH
     \<and> di_max_io_buf_bytes (dev_info dev) = UBLK_IO_MAX_BYTES"

lemma unat_ucast_u16: "unat (w :: u32) \<le> n \<Longrightarrow> n < 65536 \<Longrightarrow> unat (ucast w :: u16) \<le> n"
  by (simp add: unsigned_ucast_eq take_bit_nat_eq_self)

lemma add_info_limits:
  assumes "\<not> (word_of_nat UBLK_MAX_QUEUES < a_queues a \<or> word_of_nat UBLK_QUEUE_DEPTH < a_depth a)"
    and "di_max_io_buf_bytes (dev_info dev) = UBLK_IO_MAX_BYTES"
  shows "dev_within_limits ((add_info a dev)\<lparr>tgt_file := f\<rparr>)"
  using assms
  by (simp add: dev_within_limits_def add_info_def UBLK_MAX_QUEUES_def UBLK_QUEUE_DEPTH_def word_less_nat_alt
      not_less unat_ucast_u16)

lemma logs_ctrl_init_info:
  "logs (ublk_ctrl_init S) (\<lambda>d tr. quiet tr \<and> (\<forall>dev. d = Some dev \<longrightarrow> di_max_io_buf_bytes (dev_info dev) = UBLK_IO_MAX_BYTES))"
  unfolding ublk_ctrl_init_def Let_def
  by (rule logs_syscall_then)
    (auto intro!: logs_halt logs_syscall_then logs_emit_then logs_returns)

lemma logs_cmd_dev_addI:
  assumes dev: "\<And>T dev. known_tgt T \<Longrightarrow> dev_within_limits dev \<Longrightarrow> logs (add_device S pid T dev) Q"
    and err: "\<And>r tr. r < 0 \<Longrightarrow> quiet tr \<Longrightarrow> Q r tr"
    and quiet: "\<And>r tr tr'. quiet tr \<Longrightarrow> Q r tr' \<Longrightarrow> Q r (tr @ tr')"
  shows "logs (cmd_dev_add S pid opts) Q"
proof -
  let ?a = "fold add_opt opts add_defaults"
  have start: "logs (andthen (ublk_ctrl_init S) (\<lambda>d. case d of None \<Rightarrow> returns (- ENOMEM)
        | Some dev0 \<Rightarrow> add_device S pid T ((add_info ?a dev0)\<lparr>tgt_file := file_opt opts None\<rparr>))) Q"
    if T: "known_tgt T" and lim: "\<not> (word_of_nat UBLK_MAX_QUEUES < a_queues ?a \<or> word_of_nat UBLK_QUEUE_DEPTH < a_depth ?a)" for T
  proof (rule logs_andthen [OF logs_ctrl_init_info])
    fix d :: "ublk_dev option" and tr
    assume "quiet tr \<and> (\<forall>dev. d = Some dev \<longrightarrow> di_max_io_buf_bytes (dev_info dev) = UBLK_IO_MAX_BYTES)"
    then show "logs (case d of None \<Rightarrow> returns (- ENOMEM)
        | Some dev0 \<Rightarrow> add_device S pid T ((add_info ?a dev0)\<lparr>tgt_file := file_opt opts None\<rparr>)) (\<lambda>y tr'. Q y (tr @ tr'))"
      by (cases d) (auto intro!: logs_returns err quiet logs_weaken [OF dev [OF T]] add_info_limits [OF lim]
          simp: ENOMEM_def)
  qed
  show ?thesis
    unfolding cmd_dev_add_def Let_def
    by (rule logs_andthen [OF logs_find])
      (auto intro!: logs_returns err start simp: ENODEV_def EINVAL_def split: option.splits)
qed

lemma logs_cmd_dev_add:
  assumes S: "sqe_free S"
  shows "logs (cmd_dev_add S pid opts) (\<lambda>r tr. add_steps r (steps tr))"
  by (rule logs_cmd_dev_addI) (auto simp: quiet_steps intro: logs_add_device [OF S] add_steps.rejected)

text \<open>What the steps of a daemon contain.\<close>

lemma daemon_steps_sets:
  assumes "daemon_steps rec r ss"
  shows "Cmd ADD_DEV a \<notin> set ss" and "Cmd DEL_DEV d \<notin> set ss" and "Cmd START_USER_RECOVERY a \<notin> set ss"
    and "Cmd STOP_DEV a \<notin> set ss" and "Joined i \<in> set ss \<Longrightarrow> 0 \<le> r"
  using assms by (auto elim!: daemon_stepsE start_stepsE simp: queue_steps_def)

text \<open>
  C15. The protocol of \<open>add\<close>, with the results of the commands (\<open>add_steps\<close>, \<open>daemon_steps\<close>): after an
  add command that succeeded, the queue threads are created, the parameters set, the device started, its
  info and parameters read, the threads joined, in this order, and the device deleted; when the start
  fails the device is deleted without a thread being joined, when it cannot be prepared it is deleted at
  once, and after an add command that failed nothing follows. So the device is deleted if and only if it
  was added, as the last step; threads are joined exactly on success.
\<close>

theorem add_protocol:
  assumes "sqe_free S" and "cmd_dev_add S pid opts w = Inr (r, w')"
  shows "\<exists>tr. sys_log w' = sys_log w @ tr \<and> add_steps r (steps tr)
    \<and> ((\<exists>d. Cmd DEL_DEV d \<in> set (steps tr)) \<longleftrightarrow> (\<exists>a \<ge> 0. Cmd ADD_DEV a \<in> set (steps tr)))
    \<and> ((\<exists>d. last (steps tr) = Cmd DEL_DEV d) \<or> r < 0 \<and> set (steps tr) \<subseteq> {Cmd ADD_DEV r})
    \<and> ((\<exists>i. Joined i \<in> set (steps tr)) \<longrightarrow> 0 \<le> r)"
proof -
  obtain tr where tr: "sys_log w' = sys_log w @ tr" and log: "add_steps r (steps tr)"
    by (rule logsD [OF logs_cmd_dev_add [OF assms(1)] assms(2)])
  then have "((\<exists>d. Cmd DEL_DEV d \<in> set (steps tr)) \<longleftrightarrow> (\<exists>a \<ge> 0. Cmd ADD_DEV a \<in> set (steps tr)))
    \<and> ((\<exists>d. last (steps tr) = Cmd DEL_DEV d) \<or> r < 0 \<and> set (steps tr) \<subseteq> {Cmd ADD_DEV r})
    \<and> ((\<exists>i. Joined i \<in> set (steps tr)) \<longrightarrow> 0 \<le> r)"
    by (auto elim!: add_stepsE dest: daemon_steps_sets)
  then show ?thesis using tr log by blast
qed

text \<open>A system that always answers: results of the control commands and of \<open>kill\<close> as given.\<close>

definition demo_os :: "(ctrl_op \<Rightarrow> int) \<Rightarrow> int \<Rightarrow> ctrl_op os" where
  "demo_os res gone = \<lparr>os_open = (\<lambda>p k. (5, k)),
     os_fstat = (\<lambda>fd k. (Some \<lparr>st_kind = Regular_File, st_size = 1049088, st_blksize = 4096\<rparr>, k)),
     os_blkgetsize64 = (\<lambda>fd k. (None, k)), os_blksszget = (\<lambda>fd k. (None, k)), os_blkpbszget = (\<lambda>fd k. (None, k)),
     os_direct = (\<lambda>fd k. (True, k)), os_setup_ring = (\<lambda>_ k. (0, k)),
     os_get_sqe = (\<lambda>k. (Some \<lparr>cs_fd = 0, cs_op = ADD_DEV, cs_dev_id = 0, cs_queue_id = 0, cs_data0 = 0,
       cs_buf = No_Buf\<rparr>, k)),
     os_submit = (\<lambda>s k. (1, cs_op s)), os_wait = (\<lambda>b k. ((0, res k, b), k)), os_kill = (\<lambda>p k. (gone, k))\<rparr>"

lemma sqe_free_demo [simp]: "sqe_free (demo_os res gone)"
  by (simp add: sqe_free_def demo_os_def)

definition demo_world :: "ctrl_op world" where
  "demo_world = \<lparr>kst = ADD_DEV, sys_log = []\<rparr>"

definition result_is :: "(int \<Rightarrow> bool) \<Rightarrow> stop + (int \<times> 'k world) \<Rightarrow> bool" where
  "result_is P res = (case res of Inr (r, w) \<Rightarrow> P r | Inl e \<Rightarrow> False)"

lemma result_isE:
  assumes "result_is P res"
  obtains r w where "res = Inr (r, w)" and "P r"
  using assms by (auto simp: result_is_def split: sum.splits)

lemma upt_two: "[0..<2] = [0, 1 :: nat]"
  by (simp add: upt_rec)

lemmas run_defs = result_is_def demo_os_def demo_world_def andthen_def returns_def halt_def emit_def syscall_def
  Let_def ublk_find_tgt_def find_tgt_result loop_tgt_ctl_def null_tgt_ctl_def add_defaults_def
  ublk_ctrl_init_def zero_dev_def UBLK_MAX_QUEUES_def UBLK_QUEUE_DEPTH_def add_info_def
  ublk_ctrl_add_dev_def ublk_ctrl_cmd_def ublk_ctrl_init_cmd_def buf_cmd_def plain_cmd_def data_cmd_def
  store_info_def store_params_def ublk_start_daemon_def ublk_dev_prep_def ublk_loop_tgt_init_def
  ublk_null_tgt_init_def open_backing_file_def backing_file_facts_def query_def queue_ids_def upt_two
  daemon_start_def ublk_set_parameters_def ublk_ctrl_set_params_def ublk_ctrl_start_dev_def set_pid_def
  ublk_ctrl_get_info_def ublk_ctrl_dump_def ublk_ctrl_get_params_def ublk_dev_unprep_def ublk_loop_tgt_deinit_def
  add_device_def fail_del_def fail_def ublk_ctrl_del_dev_def ublk_ctrl_deinit_def

lemma demo_add_succeeds:
  "result_is (\<lambda>r. r = 0) (cmd_dev_add (demo_os (\<lambda>_. 0) 0) 77 [Opt_t ''loop'', Opt_f ''f''] demo_world)"
  by (simp add: run_defs cmd_dev_add_def)

theorem add_protocol_witness:
  "\<exists>w'. cmd_dev_add (demo_os (\<lambda>_. 0) 0) 77 [Opt_t ''loop'', Opt_f ''f''] demo_world = Inr (0, w')
     \<and> (\<exists>a \<ge> 0. Cmd ADD_DEV a \<in> set (steps (sys_log w'))) \<and> (\<exists>d. Cmd DEL_DEV d \<in> set (steps (sys_log w')))"
proof -
  obtain w' where run: "cmd_dev_add (demo_os (\<lambda>_. 0) 0) 77 [Opt_t ''loop'', Opt_f ''f''] demo_world = Inr (0, w')"
    using demo_add_succeeds by (blast elim: result_isE)
  show ?thesis
    using add_protocol [OF sqe_free_demo run] run by (auto simp: demo_world_def elim!: add_stepsE)
qed

end
