(* ===== verification/Ublk_Ctl_Props2.thy ===== *)
theory Ublk_Ctl_Props2
  imports Ublk_Ctl_Props
begin

text \<open>
  Further properties of the control plane: what \<open>add\<close> may ask the driver for, the order of a
  deletion and its bounded wait, and the recovery of a loop device.
\<close>

section \<open>The limits of a new device\<close>

definition within_limits :: "sys_event \<Rightarrow> bool" where
  "within_limits e \<longleftrightarrow> (\<forall>s r. e = Ev_Submit s r \<and> cs_op s = ADD_DEV \<longrightarrow>
     (\<exists>i. cs_buf s = Info_Buf i \<and> unat (di_nr_hw_queues i) \<le> UBLK_MAX_QUEUES
        \<and> unat (di_queue_depth i) \<le> UBLK_QUEUE_DEPTH \<and> di_max_io_buf_bytes i = UBLK_IO_MAX_BYTES))"

lemma quiet_within_limits: "quiet tr \<Longrightarrow> \<forall>e \<in> set tr. within_limits e"
  by (auto simp: quiet_def within_limits_def)

text \<open>Other commands than add, and all that is done with an added device, are within the limits.\<close>

lemma within_limits_silent [simp]:
  "within_limits (Ev_Open p fd)" "within_limits (Ev_Close fd)" "within_limits (Ev_Fsync fd)" "within_limits (Ev_Query fd)"
  "within_limits (Ev_Sqe b)" "within_limits (Ev_Done op r buf)" "within_limits Ev_Daemon" "within_limits (Ev_Create i)"
  "within_limits (Ev_Join i)" "within_limits Ev_Free" "cs_op s \<noteq> ADD_DEV \<Longrightarrow> within_limits (Ev_Submit s r)"
  by (simp_all add: within_limits_def)

lemma cmd_within_limits:
  assumes "cd_op data = ADD_DEV \<Longrightarrow> \<exists>i. cd_has_buf data \<and> cd_buf data = Info_Buf i
      \<and> unat (di_nr_hw_queues i) \<le> UBLK_MAX_QUEUES \<and> unat (di_queue_depth i) \<le> UBLK_QUEUE_DEPTH
      \<and> di_max_io_buf_bytes i = UBLK_IO_MAX_BYTES"
  shows "logs_all within_limits (ublk_ctrl_cmd S dev data)"
proof -
  have "within_limits (Ev_Submit (ublk_ctrl_init_cmd dev data slot) r)" for slot r
    using assms by (auto simp: within_limits_def ublk_ctrl_init_cmd_def Let_def)
  then show ?thesis
    unfolding ublk_ctrl_cmd_def Let_def
    by (auto intro!: logs_all_rules split: option.split)
qed

lemma prepares_within_limits: "prepares m \<Longrightarrow> logs_all within_limits m"
  unfolding prepares_def logs_all_def by (auto elim!: logs_weaken dest: quiet_within_limits)

lemma quiet_logs_all: "logs m (\<lambda>_. quiet) \<Longrightarrow> logs_all within_limits m"
  unfolding logs_all_def by (auto elim!: logs_weaken dest: quiet_within_limits)

lemma queues_within_limits: "(\<And>i. within_limits (ev i)) \<Longrightarrow> logs_all within_limits (for_queues ev is)"
  by (induction "is") (auto intro!: logs_all_rules)

lemma logs_add_limits:
  assumes "dev_within_limits dev"
  shows "logs_all within_limits (ublk_ctrl_add_dev S dev)"
  unfolding ublk_ctrl_add_dev_def
  by (intro logs_all_rules cmd_within_limits) (use assms in \<open>simp_all add: buf_cmd_def plain_cmd_def dev_within_limits_def split: prod.split\<close>)

lemma daemon_within_limits:
  assumes "known_tgt T"
  shows "logs_all within_limits (ublk_start_daemon S pid T dev recovery)"
proof -
  note cmds = ublk_set_parameters_def ublk_ctrl_set_params_def ublk_ctrl_start_dev_def ublk_ctrl_end_user_recover_def
    ublk_ctrl_get_info_def ublk_ctrl_dump_def ublk_ctrl_get_params_def Let_def
  have start: "logs_all within_limits (daemon_start S pid recovery d)" for d
    unfolding daemon_start_def cmds by (intro logs_all_rules cmd_within_limits) simp_all
  have info: "logs_all within_limits (ublk_ctrl_get_info S d)" and dump: "logs_all within_limits (ublk_ctrl_dump S d q)" for d q
    unfolding cmds by (intro logs_all_rules cmd_within_limits; simp)+
  show ?thesis
    unfolding ublk_start_daemon_def
    by (intro logs_all_rules start info dump queues_within_limits prepares_within_limits prepares_dev_prep
        quiet_logs_all logs_unprep assms) simp_all
qed

lemma add_within_limits_all:
  assumes "known_tgt T" and "dev_within_limits dev"
  shows "logs_all within_limits (add_device S pid T dev)"
proof -
  have "logs_all within_limits (ublk_ctrl_del_dev S d)" for d
    unfolding ublk_ctrl_del_dev_def by (intro logs_all_rules cmd_within_limits) simp_all
  moreover have "logs_all within_limits (ublk_ctrl_deinit d)" for d by (rule quiet_logs_all [OF logs_deinit])
  ultimately show ?thesis
    unfolding add_device_def fail_del_def fail_def
    by (intro logs_all_rules logs_add_limits daemon_within_limits assms)
qed

text \<open>
  C18. Whatever the options are, a device that \<open>add\<close> asks the driver for has at most
  \<open>UBLK_MAX_QUEUES\<close> queues of at most \<open>UBLK_QUEUE_DEPTH\<close> tags, the sizes of the program's arrays,
  also after the truncation of the option values to 32 and 16 bits.
\<close>

theorem add_within_limits:
  assumes "sqe_free S" and "cmd_dev_add S pid opts w = Inr (r, w')"
  shows "\<exists>tr. sys_log w' = sys_log w @ tr \<and> (\<forall>e \<in> set tr. within_limits e)"
proof -
  let ?ok = "\<lambda>_ tr. \<forall>e \<in> set tr. within_limits e"
  have "logs (cmd_dev_add S pid opts) ?ok"
  proof (rule logs_cmd_dev_addI)
    show "logs (add_device S pid T dev) ?ok" if "known_tgt T" "dev_within_limits dev" for T dev
      using add_within_limits_all [OF that] by (simp add: logs_all_def)
  qed (auto dest: quiet_within_limits)
  from logsD [OF this assms(2)] show ?thesis by metis
qed

theorem add_within_limits_witness:
  "\<exists>w'. cmd_dev_add (demo_os (\<lambda>_. 0) 0) 77 [Opt_t ''loop'', Opt_f ''f''] demo_world = Inr (0, w')
     \<and> (\<forall>e \<in> set (sys_log w'). within_limits e)"
proof -
  obtain w' where run: "cmd_dev_add (demo_os (\<lambda>_. 0) 0) 77 [Opt_t ''loop'', Opt_f ''f''] demo_world = Inr (0, w')"
    using demo_add_succeeds by (blast elim: result_isE)
  show ?thesis using add_within_limits [OF sqe_free_demo run] run by (auto simp: demo_world_def)
qed

section \<open>Recovery\<close>

text \<open>
  The protocol of \<open>recover\<close>: the info and the parameters of the old device are read and the recovery
  is started, each only when the step before succeeded; then a run of the daemon is followed by the
  deletion of the device. Reading the parameters must give 0, the others only no error.
\<close>

inductive recover_steps :: "int \<Rightarrow> ctl_step list \<Rightarrow> bool" where
  rejected: "r < 0 \<Longrightarrow> recover_steps r []"
| no_info: "r < 0 \<Longrightarrow> recover_steps r [Cmd GET_DEV_INFO r]"
| no_params: "\<lbrakk>0 \<le> i; r \<noteq> 0\<rbrakk> \<Longrightarrow> recover_steps r [Cmd GET_DEV_INFO i, Cmd GET_PARAMS r]"
| not_started: "\<lbrakk>0 \<le> i; r < 0\<rbrakk>
    \<Longrightarrow> recover_steps r [Cmd GET_DEV_INFO i, Cmd GET_PARAMS 0, Cmd START_USER_RECOVERY r]"
| started: "\<lbrakk>0 \<le> i; 0 \<le> s; daemon_steps True r ss\<rbrakk>
    \<Longrightarrow> recover_steps r ([Cmd GET_DEV_INFO i, Cmd GET_PARAMS 0, Cmd START_USER_RECOVERY s] @ ss @ [Cmd DEL_DEV d])"

inductive_cases recover_stepsE: "recover_steps r ss"

lemma logs_recover_device:
  assumes S: "sqe_free S" and T: "known_tgt T" and "0 \<le> i"
  shows "logs (recover_device S pid T dev) (\<lambda>r tr. recover_steps r ([Cmd GET_DEV_INFO i, Cmd GET_PARAMS 0] @ steps tr))"
  unfolding recover_device_def
  by (rule logs_andthen [OF logs_start_recover [OF S]], intro logs_if;
      rule logs_weaken [OF logs_fail] logs_weaken [OF logs_daemon_then_del [OF S T]])
    (use assms(3) in \<open>auto simp: quiet_steps not_less intro: recover_steps.not_started recover_steps.started [simplified]\<close>)

lemma logs_recover_params:
  assumes S: "sqe_free S" and T: "known_tgt T" and "0 \<le> i"
  shows "logs (andthen (ublk_ctrl_get_params S dev1 (tgt_params dev1)) (\<lambda>(ret, p).
      if ret \<noteq> 0 then fail (dev1\<lparr>tgt_params := p\<rparr>) ret
      else recover_device S pid T (dev1\<lparr>tgt_params := p, tgt_file := f\<rparr>))) (\<lambda>r tr. recover_steps r (Cmd GET_DEV_INFO i # steps tr))"
  by (rule logs_andthen [OF logs_get_params [OF S]], clarsimp, intro conjI impI;
      rule logs_weaken [OF logs_fail] logs_weaken [OF logs_recover_device [OF S T assms(3)]])
    (use assms(3) in \<open>auto simp: quiet_steps intro: recover_steps.no_params\<close>)

lemma logs_cmd_dev_recover:
  assumes S: "sqe_free S"
  shows "logs (cmd_dev_recover S pid opts) (\<lambda>r tr. recover_steps r (steps tr))"
proof -
  have info: "logs (andthen (ublk_ctrl_get_info S dev) (\<lambda>(ret, dev1).
      if ret < 0 then fail dev1 ret
      else andthen (ublk_ctrl_get_params S dev1 (tgt_params dev1)) (\<lambda>(ret, p).
        if ret \<noteq> 0 then fail (dev1\<lparr>tgt_params := p\<rparr>) ret
        else recover_device S pid T (dev1\<lparr>tgt_params := p, tgt_file := f\<rparr>)))) (\<lambda>r tr. recover_steps r (steps tr))"
    if T: "known_tgt T" for T dev f
    by (rule logs_andthen [OF logs_get_info [OF S]], clarify, intro logs_if;
        rule logs_weaken [OF logs_fail] logs_weaken [OF logs_recover_params [OF S T]])
      (auto simp: quiet_steps intro: recover_steps.no_info)
  have "logs (andthen (ublk_ctrl_init S) (\<lambda>d. case d of None \<Rightarrow> returns (- ENOMEM) | Some dev0 \<Rightarrow> m dev0))
      (\<lambda>r tr. recover_steps r (steps tr))" if "\<And>dev0. logs (m dev0) (\<lambda>r tr. recover_steps r (steps tr))" for m
    by (rule logs_andthen [OF logs_ctrl_init])
      (auto simp: quiet_steps ENOMEM_def that intro!: logs_returns recover_steps.rejected split: option.split)
  note start = this
  show ?thesis
    unfolding cmd_dev_recover_def Let_def
  proof (rule logs_andthen [OF logs_find], goal_cases)
    case (1 T tr)
    then show ?case
      by (cases T) (auto intro!: logs_returns recover_steps.rejected start info simp: ENODEV_def simp del: split_paired_All)
  qed
qed

text \<open>
  C16. The protocol of \<open>recover\<close>, with the results of the commands (\<open>recover_steps\<close>, \<open>daemon_steps\<close>): the
  info of the old device is read, then its parameters, then the recovery is started, each only when the
  step before succeeded; queue threads are created only after the start of the recovery succeeded and
  before its end is announced, and joined only when announcing it succeeded, after it. So the device
  is deleted if and only if the start of the recovery succeeded, as the last step.
\<close>

theorem recover_protocol:
  assumes "sqe_free S" and "cmd_dev_recover S pid opts w = Inr (r, w')"
  shows "\<exists>tr. sys_log w' = sys_log w @ tr \<and> recover_steps r (steps tr)
    \<and> ((\<exists>d. Cmd DEL_DEV d \<in> set (steps tr)) \<longleftrightarrow> (\<exists>s \<ge> 0. Cmd START_USER_RECOVERY s \<in> set (steps tr)))
    \<and> ((\<exists>d. last (steps tr) = Cmd DEL_DEV d) \<or> (\<forall>i. Created i \<notin> set (steps tr)))
    \<and> ((\<exists>i. Joined i \<in> set (steps tr)) \<longrightarrow> 0 \<le> r)"
proof -
  obtain tr where tr: "sys_log w' = sys_log w @ tr" and log: "recover_steps r (steps tr)"
    by (rule logsD [OF logs_cmd_dev_recover [OF assms(1)] assms(2)])
  then have "((\<exists>d. Cmd DEL_DEV d \<in> set (steps tr)) \<longleftrightarrow> (\<exists>s \<ge> 0. Cmd START_USER_RECOVERY s \<in> set (steps tr)))
    \<and> ((\<exists>d. last (steps tr) = Cmd DEL_DEV d) \<or> (\<forall>i. Created i \<notin> set (steps tr)))
    \<and> ((\<exists>i. Joined i \<in> set (steps tr)) \<longrightarrow> 0 \<le> r)"
    by (auto elim!: recover_stepsE dest: daemon_steps_sets)
  then show ?thesis using tr log by blast
qed

lemma demo_recover_succeeds:
  "result_is (\<lambda>r. r = 0) (cmd_dev_recover (demo_os (\<lambda>_. 0) 0) 77 [Opt_t ''null''] demo_world)"
  by (simp add: run_defs cmd_dev_recover_def recover_device_def ublk_ctrl_start_user_recover_def
      ublk_ctrl_end_user_recover_def no_params_def)

theorem recover_protocol_witness:
  "\<exists>w'. cmd_dev_recover (demo_os (\<lambda>_. 0) 0) 77 [Opt_t ''null''] demo_world = Inr (0, w')
     \<and> ((\<exists>d. Cmd DEL_DEV d \<in> set (steps (sys_log w'))) \<longleftrightarrow> (\<exists>s \<ge> 0. Cmd START_USER_RECOVERY s \<in> set (steps (sys_log w'))))"
proof -
  obtain w' where run: "cmd_dev_recover (demo_os (\<lambda>_. 0) 0) 77 [Opt_t ''null''] demo_world = Inr (0, w')"
    using demo_recover_succeeds by (blast elim: result_isE)
  show ?thesis using recover_protocol [OF sqe_free_demo run] run by (auto simp: demo_world_def)
qed

end
