(* ===== verification/Ublk_Recover.thy ===== *)
theory Ublk_Recover
  imports Ublk_Ctl_Props2
begin

text \<open>
  Deleting a device, with the bounded wait for its daemon, and the sizes of the targets: a
  new loop device and the device recovered over the same file.
\<close>

section \<open>Delete\<close>

text \<open>
  The wait for a daemon with at most \<open>k\<close> polls: the daemon is found \<open>n\<close> times, with a pause after each,
  and then no longer; or it is found every time.
\<close>

definition found :: "int \<Rightarrow> nat \<Rightarrow> ctl_step list" where
  "found pid n = concat (replicate n [Polled pid 0, Paused])"

lemma found_simps [simp]: "found pid 0 = []" "found pid (Suc n) = [Polled pid 0, Paused] @ found pid n"
  by (simp_all add: found_def)

lemma logs_poll_daemon:
  "logs (poll_daemon S pid k) (\<lambda>r tr. if r = 0 then steps tr = found pid k
     else \<exists>n < k. steps tr = found pid n @ [Polled pid r])"
proof (induction k)
  case 0
  then show ?case by (simp add: logs_returns)
next
  case (Suc k)
  have more: "\<exists>m < Suc k. [Polled pid 0, Paused] @ found pid n @ [Polled pid r] = found pid m @ [Polled pid r]" if "n < k" for n r
    using that by (intro exI [of _ "Suc n"]) simp
  show ?case
    unfolding poll_daemon.simps
    by (rule logs_syscall_then, intro logs_if)
      (use more in \<open>auto intro!: logs_returns logs_emit_then logs_weaken [OF Suc.IH] split: if_splits\<close>)
qed

text \<open>
  What \<open>ublk_stop_io_daemon\<close> returns after what it has found of the process \<open>pid\<close>; a device without a
  daemon, for which the driver reports -1, needs no wait.
\<close>

inductive wait_steps :: "int \<Rightarrow> int \<Rightarrow> ctl_step list \<Rightarrow> bool" where
  no_daemon: "wait_steps (- 1) 0 []"
| gone: "\<lbrakk>pid \<noteq> - 1; n < 6; e \<noteq> 0\<rbrakk> \<Longrightarrow> wait_steps pid 0 (found pid n @ [Polled pid e])"
| still_there: "pid \<noteq> - 1 \<Longrightarrow> wait_steps pid (- 1) (found pid 6)"

definition dev_pid :: "ublk_dev \<Rightarrow> int" where
  "dev_pid dev = sint (di_ublksrv_pid (dev_info dev))"

lemma logs_stop_io_daemon: "logs (ublk_stop_io_daemon S dev) (\<lambda>r tr. wait_steps (dev_pid dev) r (steps tr))"
proof -
  have "logs (andthen (poll_daemon S pid 6) (\<lambda>ret. returns (if ret \<noteq> 0 then 0 else - 1))) (\<lambda>r tr. wait_steps pid r (steps tr))"
    if "pid \<noteq> - 1" for pid
    by (rule logs_andthen [OF logs_poll_daemon])
      (use that in \<open>auto intro!: logs_returns intro: wait_steps.intros simp del: found_simps split: if_splits\<close>)
  then show ?thesis
    unfolding ublk_stop_io_daemon_def Let_def dev_pid_def
    by (intro logs_if) (simp_all add: logs_returns wait_steps.no_daemon)
qed

text \<open>The process id the driver reported last, as part of the info of the device.\<close>

fun info_pid :: "sys_event \<Rightarrow> int \<Rightarrow> int" where
  "info_pid (Ev_Done GET_DEV_INFO r (Info_Buf i)) pid = sint (di_ublksrv_pid i)"
| "info_pid e pid = pid"

definition reported_pid :: "sys_event list \<Rightarrow> int" where
  "reported_pid tr = fold info_pid tr 0"

definition no_pid :: "sys_event \<Rightarrow> bool" where
  "no_pid e \<longleftrightarrow> (\<forall>pid. info_pid e pid = pid)"

lemma no_pid_simps [simp]:
  "no_pid (Ev_Open p fd)" "no_pid (Ev_Close fd)" "no_pid (Ev_Setup_Ring rs ret)" "no_pid (Ev_Sqe b)" "no_pid (Ev_Submit s r)"
  "no_pid (Ev_Kill pid r)" "no_pid Ev_Usleep" "no_pid Ev_Free" "op \<noteq> GET_DEV_INFO \<Longrightarrow> no_pid (Ev_Done op r buf)"
  "no_pid (Ev_Done op r No_Buf)"
  by (simp add: no_pid_def | cases op; simp add: no_pid_def; fail)+

lemma fold_no_pid: "\<forall>e \<in> set tr. no_pid e \<Longrightarrow> fold info_pid tr pid = pid"
  by (induction tr) (simp_all add: no_pid_def)

lemma cmd_no_pid: "cd_op data \<noteq> GET_DEV_INFO \<Longrightarrow> logs_all no_pid (ublk_ctrl_cmd S dev data)"
  unfolding ublk_ctrl_cmd_def Let_def by (auto intro!: logs_all_rules split: option.split)

lemma no_pid_ops:
  "logs_all no_pid (ublk_ctrl_init S)" "logs_all no_pid (ublk_ctrl_deinit d)" "logs_all no_pid (ublk_ctrl_stop_dev S dev)"
  "logs_all no_pid (ublk_ctrl_del_dev S dev)" "logs_all no_pid (poll_daemon S pid k)" "logs_all no_pid (ublk_stop_io_daemon S dev)"
proof -
  show "logs_all no_pid (ublk_ctrl_init S)" "logs_all no_pid (ublk_ctrl_deinit d)"
    by (auto simp: ublk_ctrl_init_def ublk_ctrl_deinit_def Let_def intro!: logs_all_rules split: option.split)
  show "logs_all no_pid (ublk_ctrl_stop_dev S dev)" "logs_all no_pid (ublk_ctrl_del_dev S dev)"
    unfolding ublk_ctrl_stop_dev_def ublk_ctrl_del_dev_def by (intro logs_all_rules cmd_no_pid; simp)+
  show polls: "logs_all no_pid (poll_daemon S pid k)" for pid k
    by (induction k) (auto intro!: logs_all_rules)
  show "logs_all no_pid (ublk_stop_io_daemon S dev)"
    unfolding ublk_stop_io_daemon_def Let_def by (intro logs_all_rules polls)
qed

lemma logs_get_info_pid:
  assumes "sqe_free S"
  shows "logs (ublk_ctrl_get_info S dev) (\<lambda>x tr. fold info_pid tr (dev_pid dev) = dev_pid (snd x))"
  unfolding logs_def
proof (intro allI impI)
  fix w x w'
  assume run: "ublk_ctrl_get_info S dev w = Inr (x, w')"
  obtain s k where s: "os_get_sqe S (kst w) = (Some s, k)"
    using assms by (metis option.exhaust prod.collapse sqe_free_def)
  show "\<exists>tr. sys_log w' = sys_log w @ tr \<and> fold info_pid tr (dev_pid dev) = dev_pid (snd x)"
    using run
    by (auto simp: ublk_ctrl_get_info_def ublk_ctrl_cmd_def andthen_def syscall_def returns_def s Let_def store_info_def
        dev_pid_def buf_cmd_def plain_cmd_def split: prod.splits if_splits ctrl_buf.splits)
qed

text \<open>The protocol of \<open>del\<close>, with the process id the driver reported.\<close>

inductive delete_steps :: "int \<Rightarrow> int \<Rightarrow> ctl_step list \<Rightarrow> bool" where
  no_info: "r < 0 \<Longrightarrow> delete_steps pid r [Cmd GET_DEV_INFO r]"
| not_stopped: "\<lbrakk>0 \<le> i; r < 0\<rbrakk> \<Longrightarrow> delete_steps pid r [Cmd GET_DEV_INFO i, Cmd STOP_DEV r]"
| stopped: "\<lbrakk>0 \<le> i; 0 \<le> s; wait_steps pid r ss\<rbrakk>
    \<Longrightarrow> delete_steps pid r ([Cmd GET_DEV_INFO i, Cmd STOP_DEV s] @ ss @ [Cmd DEL_DEV d])"

inductive_cases delete_stepsE: "delete_steps pid r ss"

lemma logs_stop_and_del:
  assumes S: "sqe_free S" and "0 \<le> i"
  shows "logs (andthen (ublk_ctrl_stop_dev S dev) (\<lambda>ret. if ret < 0 then fail dev ret
      else andthen (ublk_stop_io_daemon S dev) (\<lambda>ret. fail_del S dev ret)))
    (\<lambda>r tr. delete_steps (dev_pid dev) r (Cmd GET_DEV_INFO i # steps tr) \<and> (\<forall>e \<in> set tr. no_pid e))"
proof (rule logs_conj)
  have del: "logs (andthen (ublk_stop_io_daemon S dev) (\<lambda>ret. fail_del S dev ret))
      (\<lambda>r tr. \<exists>ss d. wait_steps (dev_pid dev) r ss \<and> steps tr = ss @ [Cmd DEL_DEV d])"
    by (rule logs_andthen [OF logs_stop_io_daemon], rule logs_weaken [OF logs_fail_del [OF S]]) auto
  show "logs (andthen (ublk_ctrl_stop_dev S dev) (\<lambda>ret. if ret < 0 then fail dev ret
      else andthen (ublk_stop_io_daemon S dev) (\<lambda>ret. fail_del S dev ret)))
    (\<lambda>r tr. delete_steps (dev_pid dev) r (Cmd GET_DEV_INFO i # steps tr))"
    by (rule logs_andthen [OF logs_stop_dev [OF S]], intro logs_if; rule logs_weaken [OF logs_fail] logs_weaken [OF del])
      (use assms(2) in \<open>auto simp: quiet_steps not_less intro: delete_steps.not_stopped delete_steps.stopped [simplified]\<close>)
  have "logs_all no_pid (andthen (ublk_ctrl_stop_dev S dev) (\<lambda>ret. if ret < 0 then fail dev ret
      else andthen (ublk_stop_io_daemon S dev) (\<lambda>ret. fail_del S dev ret)))"
    unfolding fail_def fail_del_def by (intro logs_all_rules no_pid_ops)
  then show "logs (andthen (ublk_ctrl_stop_dev S dev) (\<lambda>ret. if ret < 0 then fail dev ret
      else andthen (ublk_stop_io_daemon S dev) (\<lambda>ret. fail_del S dev ret))) (\<lambda>r tr. \<forall>e \<in> set tr. no_pid e)"
    by (simp add: logs_all_def)
qed

lemma logs_cmd_dev_del_one:
  assumes S: "sqe_free S"
  shows "logs (cmd_dev_del_one S number) (\<lambda>r tr. delete_steps (reported_pid tr) r (steps tr))"
proof -
  have info: "logs (andthen (ublk_ctrl_get_info S dev) (\<lambda>(ret, dev). if ret < 0 then fail dev ret
      else andthen (ublk_ctrl_stop_dev S dev) (\<lambda>ret. if ret < 0 then fail dev ret
        else andthen (ublk_stop_io_daemon S dev) (\<lambda>ret. fail_del S dev ret))))
      (\<lambda>r tr. delete_steps (fold info_pid tr (dev_pid dev)) r (steps tr))" for dev
  proof (rule logs_andthen [OF logs_conj [OF logs_get_info [OF S] logs_get_info_pid [OF S]]], clarify, intro logs_if)
    fix ret :: int and dev1 :: ublk_dev and tr
    assume st: "steps tr = [Cmd GET_DEV_INFO (fst (ret, dev1))]" and p: "fold info_pid tr (dev_pid dev) = dev_pid (snd (ret, dev1))"
    show "ret < 0 \<Longrightarrow> logs (fail dev1 ret)
      (\<lambda>r tr'. delete_steps (fold info_pid (tr @ tr') (dev_pid dev)) r (steps (tr @ tr')))"
      by (rule logs_weaken [OF logs_fail]) (use st in \<open>auto simp: quiet_steps intro: delete_steps.no_info\<close>)
    assume "\<not> ret < 0"
    then have "0 \<le> ret" by simp
    show "logs (andthen (ublk_ctrl_stop_dev S dev1) (\<lambda>ret. if ret < 0 then fail dev1 ret
        else andthen (ublk_stop_io_daemon S dev1) (\<lambda>ret. fail_del S dev1 ret)))
      (\<lambda>r tr'. delete_steps (fold info_pid (tr @ tr') (dev_pid dev)) r (steps (tr @ tr')))"
      by (rule logs_weaken [OF logs_stop_and_del [OF S \<open>0 \<le> ret\<close>]]) (use st p in \<open>simp add: fold_no_pid\<close>)
  qed
  have null: "logs (andthen (ublk_ctrl_deinit None) f) P" for f P
    by (rule logs_andthen [where P = "\<lambda>_ _. False"]) (simp_all add: ublk_ctrl_deinit_def logs_halt)
  have init: "logs (ublk_ctrl_init S) (\<lambda>d tr. quiet tr \<and> fold info_pid tr 0 = 0 \<and> (\<forall>dev. d = Some dev \<longrightarrow> dev_pid (dev_of number dev) = 0))"
    unfolding ublk_ctrl_init_def Let_def
    by (rule logs_syscall_then)
      (auto intro!: logs_halt logs_syscall_then logs_emit_then logs_returns simp: dev_pid_def dev_of_def zero_dev_def)
  show ?thesis
    unfolding cmd_dev_del_one_def reported_pid_def
  proof (rule logs_andthen [OF init], goal_cases)
    case (1 d tr)
    then show ?case
    proof (cases d)
      case (Some dev)
      then show ?thesis using 1 info [of "dev_of number dev"] by (auto simp: quiet_steps)
    qed (simp add: null)
  qed
qed

text \<open>
  C17. The protocol of \<open>del\<close>, with the results of the commands (\<open>delete_steps\<close>): the device is stopped
  only when its info could be read, and deleted if and only if it could be stopped. Between stop and
  deletion the daemon the driver reported is polled, at most six times, with a pause after each poll
  that found it and none after one that did not; without a daemon nothing is polled. The result is that
  of the command that failed, or -1 exactly when six polls found the daemon, and the device is deleted
  even then.
\<close>

theorem delete_protocol:
  assumes "sqe_free S" and "cmd_dev_del_one S number w = Inr (r, w')"
  shows "\<exists>tr. sys_log w' = sys_log w @ tr \<and> delete_steps (reported_pid tr) r (steps tr)
    \<and> ((\<exists>d. Cmd DEL_DEV d \<in> set (steps tr)) \<longleftrightarrow> (\<exists>s \<ge> 0. Cmd STOP_DEV s \<in> set (steps tr)))
    \<and> ((\<exists>s. Cmd STOP_DEV s \<in> set (steps tr)) \<longleftrightarrow> (\<exists>i \<ge> 0. Cmd GET_DEV_INFO i \<in> set (steps tr)))"
proof -
  obtain tr where tr: "sys_log w' = sys_log w @ tr" and log: "delete_steps (reported_pid tr) r (steps tr)"
    by (rule logsD [OF logs_cmd_dev_del_one [OF assms(1)] assms(2)])
  have f: "Cmd op x \<notin> set (found pid n)" for op x pid n by (induction n) simp_all
  have "Cmd op x \<notin> set ss" if "wait_steps pid r ss" for op x ss pid
    using that f [of op x pid] by (auto elim!: wait_steps.cases simp del: found_simps)
  then have "((\<exists>d. Cmd DEL_DEV d \<in> set (steps tr)) \<longleftrightarrow> (\<exists>s \<ge> 0. Cmd STOP_DEV s \<in> set (steps tr)))
    \<and> ((\<exists>s. Cmd STOP_DEV s \<in> set (steps tr)) \<longleftrightarrow> (\<exists>i \<ge> 0. Cmd GET_DEV_INFO i \<in> set (steps tr)))"
    using log by (auto elim!: delete_stepsE)
  then show ?thesis using tr log by blast
qed

lemma demo_del_gives_up: "result_is (\<lambda>r. r = - 1) (cmd_dev_del_one (demo_os (\<lambda>_. 0) 0) 3 demo_world)"
  by (simp add: run_defs cmd_dev_del_one_def dev_of_def ublk_ctrl_stop_dev_def ublk_stop_io_daemon_def
      numeral_eq_Suc)

theorem delete_protocol_witness:
  "\<exists>w'. cmd_dev_del_one (demo_os (\<lambda>_. 0) 0) 3 demo_world = Inr (- 1, w') \<and> delete_steps (reported_pid (sys_log w')) (- 1) (steps (sys_log w'))"
proof -
  obtain w' where run: "cmd_dev_del_one (demo_os (\<lambda>_. 0) 0) 3 demo_world = Inr (- 1, w')"
    using demo_del_gives_up by (blast elim: result_isE)
  show ?thesis
    using delete_protocol [OF sqe_free_demo run] run by (auto simp: demo_world_def)
qed

text \<open>
  When the ring for the control commands cannot be set up, \<open>__cmd_dev_del\<close> passes the NULL
  device to \<open>ublk_ctrl_deinit\<close>, which dereferences it.
\<close>

theorem delete_without_ring_faults:
  assumes "os_open S Ctrl_Dev (kst w) = (fd, k)" and "0 \<le> fd" and "fst (os_setup_ring S ctrl_ring k) < 0"
  shows "cmd_dev_del_one S number w = Inl (Fault Null_Deref)"
  using assms
  by (cases "os_setup_ring S ctrl_ring k")
    (simp add: cmd_dev_del_one_def ublk_ctrl_init_def ublk_ctrl_deinit_def andthen_def syscall_def emit_def
      returns_def halt_def Let_def)

theorem delete_without_ring_faults_witness:
  "cmd_dev_del_one ((demo_os (\<lambda>_. 0) 0)\<lparr>os_setup_ring := \<lambda>_ k. (- 12, k)\<rparr>) 3 demo_world = Inl (Fault Null_Deref)"
  by (rule delete_without_ring_faults [where fd = 5 and k = ADD_DEV]) (simp_all add: demo_os_def demo_world_def)

section \<open>Sizes\<close>

lemma ilog2_nat_bounds: "0 < n \<Longrightarrow> 2 ^ ilog2_nat n \<le> n \<and> n < 2 ^ (ilog2_nat n + 1)"
proof (induction n rule: ilog2_nat.induct)
  case (1 n)
  show ?case
  proof (cases "n \<le> 1")
    case True
    then show ?thesis using "1.prems" by (simp add: ilog2_nat.simps)
  next
    case False
    then have "2 ^ ilog2_nat (n div 2) \<le> n div 2" "n div 2 < 2 ^ (ilog2_nat (n div 2) + 1)"
      using "1.IH" by auto
    moreover have "ilog2_nat n = Suc (ilog2_nat (n div 2))" using False by (subst ilog2_nat.simps) simp
    ultimately show ?thesis by auto
  qed
qed

lemma ilog2_nat_zero [simp]: "ilog2_nat 0 = 0"
  by (simp add: ilog2_nat.simps)

lemma ilog2_small: "ilog2_nat (unat (x :: u32)) < 32"
proof (cases "unat x = 0")
  case False
  then have "2 ^ ilog2_nat (unat x) \<le> unat x" using ilog2_nat_bounds by blast
  also have "unat x < 2 ^ 32" using unsigned_less [of x] by simp
  finally show ?thesis by (simp only: power_strict_increasing_iff one_less_numeral_iff semiring_norm)
qed simp

text \<open>A shift survives being stored in the 8 bits the parameters have for it.\<close>

lemma ilog2_u8: "(ucast (ucast (ilog2 x) :: u8) :: u32) = ilog2 x"
proof -
  have "unat (ilog2 x) < 2 ^ 8"
    using ilog2_small [of x] by (simp add: ilog2_def unat_of_nat_small)
  then show ?thesis
    by (intro word_unat_eq_iff [THEN iffD2]) (simp add: unsigned_ucast_eq unsigned_take_bit_eq take_bit_nat_eq_self)
qed

lemma whole_sectors: "push_bit 9 (drop_bit 9 b) = b \<longleftrightarrow> 512 dvd unat (b :: u64)"
proof -
  have "push_bit 9 (drop_bit 9 b) = b AND NOT (mask 9)"
    by (rule bit_word_eqI) (auto simp: bit_simps)
  then have "unat (push_bit 9 (drop_bit 9 b)) = unat b div 512 * 512" by (simp add: unat_and_not_mask)
  then show ?thesis by (metis dvd_div_mult_self dvd_triv_right word_unat_eq_iff)
qed

text \<open>The system gives the same answers about the backing file whenever it is asked.\<close>

definition file_answers :: "'k os \<Rightarrow> string \<Rightarrow> int \<Rightarrow> stat \<Rightarrow> bool \<Rightarrow> bool" where
  "file_answers S f fd st direct \<longleftrightarrow> 0 \<le> fd \<and> (\<forall>k. fst (os_open S (Backing_File f) k) = fd) \<and>
     (\<forall>k. fst (os_fstat S fd k) = Some st) \<and> (\<forall>k. fst (os_direct S fd k) = direct)"

lemma syscall_then:
  assumes "\<forall>k. fst (f k) = x"
  obtains w' where "andthen (syscall f ev) g w = g x w'"
  using assms [rule_format, of "kst w"] by (cases "f (kst w)") (simp add: andthen_def syscall_def)

lemma open_regular_file:
  assumes "file_answers S f fd st direct" and "st_kind st = Regular_File" and "tgt_file dev = Some f"
  obtains w' where "open_backing_file S dev cont w = cont fd (st_size st) (Some (st_blksize st, st_blksize st)) w'"
proof -
  have a: "\<forall>k. fst (os_open S (Backing_File f) k) = fd" "\<forall>k. fst (os_fstat S fd k) = Some st" "\<not> fd < 0"
    using assms(1) by (simp_all add: file_answers_def)
  have facts: "\<exists>w2. backing_file_facts S fd w1 = Inr (Facts (st_size st) (Some (st_blksize st, st_blksize st)), w2)" for w1
    using a(2) [rule_format, of "kst w1"] assms(2)
    by (cases "os_fstat S fd (kst w1)") (simp add: backing_file_facts_def query_def andthen_def syscall_def returns_def)
  obtain w1 where w1: "andthen (syscall (os_open S (Backing_File f)) (Ev_Open (Backing_File f))) g w = g fd w1" for g :: "int \<Rightarrow> ('a, int \<times> ublk_dev) prog"
    using a(1) [rule_format, of "kst w"] that
    by (cases "os_open S (Backing_File f) (kst w)") (simp add: andthen_def syscall_def)
  obtain w2 where "backing_file_facts S fd w1 = Inr (Facts (st_size st) (Some (st_blksize st, st_blksize st)), w2)"
    using facts by blast
  moreover have "open_backing_file S dev cont w = andthen (backing_file_facts S fd)
      (\<lambda>f. case f of Give_Up r \<Rightarrow> returns (r, dev) | Facts bytes bss \<Rightarrow> cont fd bytes bss) w1"
    using assms(3) a(3) by (simp add: open_backing_file_def w1)
  ultimately have "open_backing_file S dev cont w = cont fd (st_size st) (Some (st_blksize st, st_blksize st)) w2"
    by (simp add: andthen_def)
  then show thesis by (rule that)
qed

text \<open>
  C19. A loop device made from a regular file can be recovered over the unchanged file if and only
  if the file is a whole number of sectors: the recorded size is rounded down to sectors, and
  the recovery compares it with the size in bytes.
\<close>

theorem loop_recover_iff_whole_sectors:
  assumes "file_answers S f fd st direct" and "st_kind st = Regular_File" and "tgt_file dev = Some f"
    and "ublk_loop_tgt_init S dev w = Inr ((ret, dev1), w1)"
  shows "ret = 0 \<and> (\<exists>ret2 dev2 w3. ublk_loop_tgt_recover S dev1 w2 = Inr ((ret2, dev2), w3)
    \<and> (if 512 dvd unat (st_size st) then ret2 = 0 \<and> tgt_size dev2 = st_size st else ret2 = - 1))"
proof -
  let ?bss = "Some (st_blksize st, st_blksize st)"
  have d: "\<forall>k. fst (os_direct S fd k) = direct" using assms(1) by (simp add: file_answers_def)
  define p where "p = loop_init_params (di_max_io_buf_bytes (dev_info dev)) (st_size st) ?bss direct"
  obtain wa where i1: "ublk_loop_tgt_init S dev w = andthen (syscall (os_direct S fd) (\<lambda>_. Ev_Query fd)) (\<lambda>direct.
      returns (0 :: int, dev\<lparr>tgt_size := st_size st, fd1 := fd, nr_fds := nr_fds dev + 1,
        tgt_params := loop_init_params (di_max_io_buf_bytes (dev_info dev)) (st_size st) ?bss direct\<rparr>)) wa"
    unfolding ublk_loop_tgt_init_def by (rule open_regular_file [OF assms(1-3)])
  obtain wb where i2: "andthen (syscall (os_direct S fd) (\<lambda>_. Ev_Query fd)) (\<lambda>direct.
      returns (0 :: int, dev\<lparr>tgt_size := st_size st, fd1 := fd, nr_fds := nr_fds dev + 1,
        tgt_params := loop_init_params (di_max_io_buf_bytes (dev_info dev)) (st_size st) ?bss direct\<rparr>)) wa =
      returns (0 :: int, dev\<lparr>tgt_size := st_size st, fd1 := fd, nr_fds := nr_fds dev + 1, tgt_params := p\<rparr>) wb"
    unfolding p_def by (rule syscall_then [OF d])
  have "returns (0 :: int, dev\<lparr>tgt_size := st_size st, fd1 := fd, nr_fds := nr_fds dev + 1, tgt_params := p\<rparr>) wb = Inr ((ret, dev1), w1)"
    using trans [OF i1 i2] assms(4) by (simp only:)
  then have init: "ret = 0" "dev1 = dev\<lparr>tgt_size := st_size st, fd1 := fd, nr_fds := nr_fds dev + 1, tgt_params := p\<rparr>"
    by (simp_all add: returns_def)
  have blocks: "direct \<longrightarrow> recover_blocks_ok p ?bss"
    by (simp add: p_def loop_init_params_def recover_blocks_ok_def Let_def ilog2_u8)
  have sectors: "p_dev_sectors p = drop_bit 9 (st_size st)"
    by (simp add: p_def loop_init_params_def basic_params_def Let_def)
  have same: "tgt_file dev1 = Some f" using assms(3) init by simp
  let ?rest = "\<lambda>direct. if direct \<and> \<not> recover_blocks_ok (tgt_params dev1) ?bss then returns (- 1, dev1)
     else if push_bit 9 (p_dev_sectors (tgt_params dev1)) \<noteq> st_size st then returns (- 1, dev1)
     else returns (0 :: int, dev1\<lparr>tgt_size := st_size st, fd1 := fd, nr_fds := nr_fds dev1 + 1\<rparr>)"
  obtain wc where r1: "ublk_loop_tgt_recover S dev1 w2 =
      andthen (syscall (os_direct S fd) (\<lambda>_. Ev_Query fd)) ?rest wc"
    unfolding ublk_loop_tgt_recover_def by (rule open_regular_file [OF assms(1,2) same])
  obtain wd where r2: "andthen (syscall (os_direct S fd) (\<lambda>_. Ev_Query fd)) ?rest wc = ?rest direct wd"
    by (rule syscall_then [OF d])
  have dp: "tgt_params dev1 = p" using init by simp
  show ?thesis
    unfolding trans [OF r1 r2] dp sectors whole_sectors
    using init(1) blocks by (simp add: returns_def)
qed

theorem loop_recover_iff_whole_sectors_witness:
  "\<exists>dev1 w1 dev2 w3. ublk_loop_tgt_init (demo_os (\<lambda>_. 0) 0) (zero_dev\<lparr>tgt_file := Some ''f''\<rparr>) demo_world = Inr ((0, dev1), w1)
     \<and> ublk_loop_tgt_recover (demo_os (\<lambda>_. 0) 0) dev1 demo_world = Inr ((0, dev2), w3)"
proof -
  let ?st = "\<lparr>st_kind = Regular_File, st_size = 1049088, st_blksize = 4096\<rparr>"
  have a: "file_answers (demo_os (\<lambda>_. 0) 0) ''f'' 5 ?st True" by (simp add: file_answers_def demo_os_def)
  obtain dev1 w1 where run: "ublk_loop_tgt_init (demo_os (\<lambda>_. 0) 0) (zero_dev\<lparr>tgt_file := Some ''f''\<rparr>) demo_world = Inr ((0, dev1), w1)"
    by (simp add: run_defs)
  show ?thesis
    using loop_recover_iff_whole_sectors [OF a _ _ run, of demo_world] run by auto
qed

end
