(* ===== verification/Byte_Mem.thy ===== *)
theory Byte_Mem
  imports Ndt_Prelude
begin

text \<open>
  Byte memory: a buffer is a function from addresses to bytes, written in segments. A chain of
  segments is written front to back without overlap, so checking the segments one by one is
  the same as checking that writing them would change nothing.
\<close>

type_synonym mem = "int \<Rightarrow> u8"
type_synonym segment = "int \<times> u8 list"

definition write_bytes :: "segment \<Rightarrow> mem \<Rightarrow> mem" where
  "write_bytes s m = (case s of (p, bs) \<Rightarrow>
     (\<lambda>a. if p \<le> a \<and> a < p + int (length bs) then bs ! nat (a - p) else m a))"

definition read_bytes :: "int \<Rightarrow> nat \<Rightarrow> mem \<Rightarrow> u8 list" where
  "read_bytes p n m = map (\<lambda>j. m (p + int j)) [0..<n]"

definition holds_at :: "segment \<Rightarrow> mem \<Rightarrow> bool" where
  "holds_at s m \<longleftrightarrow> read_bytes (fst s) (length (snd s)) m = snd s"

lemma length_read_bytes [simp]: "length (read_bytes p n m) = n"
  by (simp add: read_bytes_def)

lemma nth_read_bytes [simp]: "j < n \<Longrightarrow> read_bytes p n m ! j = m (p + int j)"
  by (simp add: read_bytes_def)

lemma holds_at_iff: "holds_at (p, bs) m \<longleftrightarrow> (\<forall>j < length bs. m (p + int j) = bs ! j)"
  by (auto simp: holds_at_def list_eq_iff_nth_eq)

lemma write_bytes_inside: "j < length bs \<Longrightarrow> write_bytes (p, bs) m (p + int j) = bs ! j"
  by (simp add: write_bytes_def)

lemma write_bytes_outside: "a < p \<or> p + int (length bs) \<le> a \<Longrightarrow> write_bytes (p, bs) m a = m a"
  by (auto simp: write_bytes_def)

lemma holds_at_write_same [simp]: "holds_at (p, bs) (write_bytes (p, bs) m)"
  by (simp add: holds_at_iff write_bytes_inside)

lemma write_bytes_id: "write_bytes s m = m \<longleftrightarrow> holds_at s m"
proof (cases s)
  case (Pair p bs)
  have "write_bytes (p, bs) m = m" if "holds_at (p, bs) m"
  proof
    fix a
    show "write_bytes (p, bs) m a = m a"
    proof (cases "p \<le> a \<and> a < p + int (length bs)")
      case True
      then have "nat (a - p) < length bs" "p + int (nat (a - p)) = a" by auto
      then show ?thesis using that True by (metis holds_at_iff write_bytes_inside)
    next
      case False
      then show ?thesis by (auto simp: write_bytes_def)
    qed
  qed
  then show ?thesis using Pair by (metis holds_at_write_same)
qed

section \<open>Chains of segments\<close>

definition write_all :: "segment list \<Rightarrow> mem \<Rightarrow> mem" where
  "write_all segs m = fold write_bytes segs m"

fun chain :: "int \<Rightarrow> segment list \<Rightarrow> int \<Rightarrow> bool" where
  "chain p [] q \<longleftrightarrow> p \<le> q"
| "chain p ((a, bs) # segs) q \<longleftrightarrow> p \<le> a \<and> chain (a + int (length bs)) segs q"

lemma write_all_simps [simp]:
  "write_all [] m = m" "write_all (s # segs) m = write_all segs (write_bytes s m)"
  "write_all (segs @ segs') m = write_all segs' (write_all segs m)"
  by (simp_all add: write_all_def)

lemma chain_le: "chain p segs q \<Longrightarrow> p \<le> q"
  by (induction p segs q rule: chain.induct) auto

lemma chain_append: "chain p segs q \<Longrightarrow> chain q segs' r \<Longrightarrow> chain p (segs @ segs') r"
proof (induction p segs q rule: chain.induct)
  case (1 p q)
  then show ?case
    by (cases segs') (auto dest: order_trans)
qed simp

lemma chain_weaken: "chain p segs q \<Longrightarrow> q \<le> r \<Longrightarrow> chain p segs r"
  by (induction p segs q rule: chain.induct) auto

lemma chain_mono: "chain p segs q \<Longrightarrow> p' \<le> p \<Longrightarrow> chain p' segs q"
  by (cases segs) (auto split: prod.splits)

lemma write_all_outside:
  "chain p segs q \<Longrightarrow> a < p \<or> q \<le> a \<Longrightarrow> write_all segs m a = m a"
proof (induction p segs q arbitrary: m rule: chain.induct)
  case (2 p b bs segs q)
  then have "b + int (length bs) \<le> q" using chain_le by auto
  then have "write_bytes (b, bs) m a = m a" using 2 by (intro write_bytes_outside) auto
  then show ?case using 2 by auto
qed simp

lemma holds_at_cong:
  assumes "\<And>a. p \<le> a \<Longrightarrow> a < p + int (length bs) \<Longrightarrow> m a = m' a"
  shows "holds_at (p, bs) m = holds_at (p, bs) m'"
  using assms by (simp add: holds_at_iff)

lemma write_all_before:
  assumes "chain (a + int (length bs)) segs q"
  shows "holds_at (a, bs) (write_all segs m) = holds_at (a, bs) m"
  by (rule holds_at_cong) (use write_all_outside [OF assms] in simp)

text \<open>After a chain has been written, each of its segments is there.\<close>

lemma write_all_holds: "chain p segs q \<Longrightarrow> \<forall>s \<in> set segs. holds_at s (write_all segs m)"
proof (induction p segs q arbitrary: m rule: chain.induct)
  case (2 p a bs segs q)
  then show ?case using write_all_before [of a bs segs q] by simp
qed simp

text \<open>A buffer holds all segments of a chain exactly when writing the chain does not change it.\<close>

lemma write_all_id:
  assumes "chain p segs q"
  shows "write_all segs m = m \<longleftrightarrow> (\<forall>s \<in> set segs. holds_at s m)"
proof
  assume "write_all segs m = m"
  then show "\<forall>s \<in> set segs. holds_at s m" using write_all_holds [OF assms, of m] by simp
next
  assume "\<forall>s \<in> set segs. holds_at s m"
  then show "write_all segs m = m"
    by (induction segs) (auto simp: write_bytes_id [THEN iffD2])
qed

end
