(* ===== verification/C_Struct.thy ===== *)
theory C_Struct
  imports Ndt_Prelude
begin

text \<open>
  The layout of C structures: each field is placed at the next multiple of its alignment, and the
  size is rounded up to the largest alignment. Shared by the programs that exchange structures with
  a device or a driver.
\<close>

text \<open>A field: name, alignment, size of an element, number of elements.\<close>

type_synonym c_field = "string \<times> nat \<times> nat \<times> nat"

abbreviation scalar :: "string \<Rightarrow> nat \<Rightarrow> c_field" where
  "scalar name n \<equiv> (name, n, n, 1)"

abbreviation bytes :: "string \<Rightarrow> nat \<Rightarrow> c_field" where
  "bytes name n \<equiv> (name, 1, 1, n)"

definition align_up :: "nat \<Rightarrow> nat \<Rightarrow> nat" where
  "align_up al n = (n + al - 1) div al * al"

fun place :: "nat \<Rightarrow> c_field list \<Rightarrow> (string \<times> nat \<times> nat) list" where
  "place off [] = []"
| "place off ((name, al, n, k) # fs) = (let o1 = align_up al off in (name, o1, n * k) # place (o1 + n * k) fs)"

text \<open>For evaluation: the offset is computed before the rest is placed.\<close>

lemma place_Cons: "place off ((name, al, n, k) # fs) = (name, align_up al off, n * k) # place (align_up al off + n * k) fs"
  by (simp add: Let_def)

definition layout :: "c_field list \<Rightarrow> (string \<times> nat \<times> nat) list" where
  "layout fs = place 0 fs"

fun end_of :: "(string \<times> nat \<times> nat) list \<Rightarrow> nat" where
  "end_of [] = 0"
| "end_of [(_, off, n)] = off + n"
| "end_of (x # y # xs) = end_of (y # xs)"

definition alignment :: "c_field list \<Rightarrow> nat" where
  "alignment fs = foldr (\<lambda>(_, al, _, _) m. max al m) fs 1"

definition sizeof :: "c_field list \<Rightarrow> nat" where
  "sizeof fs = align_up (alignment fs) (end_of (layout fs))"

definition offsetof :: "c_field list \<Rightarrow> string \<Rightarrow> nat option" where
  "offsetof fs name = map_of (map (\<lambda>(x, off, _). (x, off)) (layout fs)) name"

lemma align_up_ge: "0 < al \<Longrightarrow> n \<le> align_up al n"
proof -
  assume a: "0 < al"
  have "n + al - 1 < (n + al - 1) div al * al + al" using a by (simp add: dividend_less_div_times add.commute)
  then show ?thesis using a by (simp add: align_up_def)
qed

text \<open>Fields of a structure are aligned, come one after the other, and are inside it.\<close>

definition well_placed :: "nat \<Rightarrow> (string \<times> nat \<times> nat) list \<Rightarrow> bool" where
  "well_placed lo xs \<longleftrightarrow> (\<forall>(_, off, _) \<in> set xs. lo \<le> off) \<and> sorted_wrt (\<lambda>(_, off, n) (_, off', _). off + n \<le> off') xs"

lemma place_well_placed:
  "\<forall>(_, al, _, _) \<in> set fs. 0 < al \<Longrightarrow> well_placed off (place off fs)"
proof (induction off fs rule: place.induct)
  case (2 off name al n k fs)
  let ?o = "align_up al off"
  have "well_placed (?o + n * k) (place (?o + n * k) fs)" using 2 by simp
  moreover have "off \<le> ?o" using 2(2) by (simp add: align_up_ge)
  ultimately show ?case by (fastforce simp: well_placed_def Let_def)
qed (simp add: well_placed_def)

lemma end_of_ge: "sorted_wrt (\<lambda>(_, off, n) (_, off', _). off + n \<le> off') xs \<Longrightarrow> (x, off, n) \<in> set xs \<Longrightarrow> off + n \<le> end_of xs"
proof (induction xs arbitrary: x off n rule: end_of.induct)
  case (3 a b xs)
  obtain y o2 n2 where b: "b = (y, o2, n2)" by (cases b)
  have "o2 + n2 \<le> end_of (b # xs)" using 3(1) [of y o2 n2] 3(2) b by simp
  then show ?case using 3 b by fastforce
qed simp_all

lemma layout_well_placed:
  assumes "\<forall>(_, al, _, _) \<in> set fs. 0 < al" and "(x, off, n) \<in> set (layout fs)"
  shows "off + n \<le> sizeof fs"
proof -
  have "off + n \<le> end_of (layout fs)"
    using place_well_placed [OF assms(1), of 0] assms(2) unfolding layout_def well_placed_def by (intro end_of_ge) auto
  moreover have "1 \<le> alignment fs" unfolding alignment_def by (induction fs) auto
  ultimately show ?thesis using align_up_ge [of "alignment fs" "end_of (layout fs)"] by (simp add: sizeof_def)
qed

text \<open>The number of an ioctl that exchanges a structure in both directions (\<open>_IOWR\<close>).\<close>

definition iowr :: "u64 \<Rightarrow> u64 \<Rightarrow> nat \<Rightarrow> u64" where
  "iowr ty nr n = 0xc0000000 OR push_bit 16 (word_of_nat n) OR push_bit 8 ty OR nr"

text \<open>Little-endian numbers in memory.\<close>

fun le_value :: "u8 list \<Rightarrow> nat" where
  "le_value [] = 0"
| "le_value (b # bs) = unat b + 256 * le_value bs"

declare place.simps(2) [simp del]

lemmas layout_simps = sizeof_def layout_def offsetof_def alignment_def align_up_def place_Cons

end
