(* ===== verification/Metadata.thy ===== *)
theory Metadata
  imports Byte_Mem C_Struct
begin

text \<open>
  \<open>metadata.c\<close>: the pattern written into data and metadata of a device with protection
  information, its check, and the write and read-back loop over a device that is a parameter.
\<close>

section \<open>Capabilities and byte order\<close>

text \<open>The static variables set by \<open>init_capabilities\<close>.\<close>

record md_cfg =
  lba_size :: u16
  metadata_size :: u8
  pi_size :: u8
  pi_offset :: u8
  reftag_enabled :: bool

text \<open>\<open>struct logical_block_metadata_cap\<close>, the fields the program reads.\<close>

record md_cap =
  lbmd_flags :: u32
  lbmd_interval :: u16
  lbmd_size :: u8
  lbmd_pi_size :: u8
  lbmd_pi_offset :: u8

definition LBMD_PI_CAP_REFTAG :: u32 where "LBMD_PI_CAP_REFTAG = push_bit 1 1"

text \<open>The ioctl gives a negative result or the capabilities.\<close>

definition init_capabilities :: "int + md_cap \<Rightarrow> int + md_cfg" where
  "init_capabilities r = (case r of
     Inl e \<Rightarrow> Inl e
   | Inr c \<Rightarrow> Inr \<lparr>lba_size = lbmd_interval c, metadata_size = lbmd_size c, pi_size = lbmd_pi_size c,
       pi_offset = lbmd_pi_offset c, reftag_enabled = (lbmd_flags c AND LBMD_PI_CAP_REFTAG \<noteq> 0)\<rparr>)"

definition swap_bytes :: "u32 \<Rightarrow> u32" where
  "swap_bytes value =
     (drop_bit 24 value AND 0x000000ff) OR (drop_bit 8 value AND 0x0000ff00) OR
     (push_bit 8 value AND 0x00ff0000) OR (push_bit 24 value AND 0xff000000)"

definition put_unaligned_be48 :: "u64 \<Rightarrow> u8 list" where
  "put_unaligned_be48 val = map (\<lambda>n. ucast (drop_bit n val AND 0xff)) [40, 32, 24, 16, 8, 0]"

text \<open>The last three terms are computed in \<open>int\<close>; they stay below \<open>2 ^ 24\<close>.\<close>

definition get_unaligned_be48 :: "u8 list \<Rightarrow> u64" where
  "get_unaligned_be48 p =
     push_bit 40 (ucast (p ! 0)) OR push_bit 32 (ucast (p ! 1)) OR push_bit 24 (ucast (p ! 2)) OR
     push_bit 16 (ucast (p ! 3)) OR push_bit 8 (ucast (p ! 4)) OR ucast (p ! 5)"

text \<open>A 32-bit field of a structure, little endian.\<close>

definition le32_bytes :: "u32 \<Rightarrow> u8 list" where
  "le32_bytes w = map (\<lambda>n. ucast (drop_bit n w)) [0, 8, 16, 24]"

definition le32_value :: "u8 list \<Rightarrow> u32" where
  "le32_value p =
     ucast (p ! 0) OR push_bit 8 (ucast (p ! 1)) OR push_bit 16 (ucast (p ! 2)) OR push_bit 24 (ucast (p ! 3))"

section \<open>The metadata of one interval\<close>

definition pre_bytes :: "md_cfg \<Rightarrow> nat \<Rightarrow> u32 \<Rightarrow> u8 list" where
  "pre_bytes c i ref = map (\<lambda>j. ucast (ref + word_of_nat j + word_of_nat i)) [0..<unat (pi_offset c)]"

definition post_bytes :: "int \<Rightarrow> nat \<Rightarrow> u32 \<Rightarrow> u8 list" where
  "post_bytes remaining i ref =
     map (\<lambda>j. ucast (NOT (ref + word_of_nat j + word_of_nat i))) [0..<nat remaining]"

text \<open>The two layouts of protection information.\<close>

definition t10_pi_tuple :: "c_field list" where
  "t10_pi_tuple = [scalar ''guard_tag'' 2, scalar ''app_tag'' 2, scalar ''ref_tag'' 4]"

definition crc64_pi_tuple :: "c_field list" where
  "crc64_pi_tuple = [scalar ''guard_tag'' 8, scalar ''app_tag'' 2, bytes ''ref_tag'' 6]"

text \<open>The sizes and the places of the reference tags that \<open>init_interval\<close> and \<open>check_interval\<close> use.\<close>

lemma pi_tuple_layout:
  "sizeof t10_pi_tuple = 8" "offsetof t10_pi_tuple ''ref_tag'' = Some 4"
  "sizeof crc64_pi_tuple = 16" "offsetof crc64_pi_tuple ''ref_tag'' = Some 10"
  by (simp_all add: t10_pi_tuple_def crc64_pi_tuple_def layout_simps flip: numeral_2_eq_2)

text \<open>
  The body of the loop in \<open>init_metadata\<close>: bytes before the protection information, the
  reference tag at its place in the tuple of 8 or 16 bytes, and the bytes after it. The
  pointer after the interval is returned.
\<close>

definition init_interval :: "md_cfg \<Rightarrow> nat \<Rightarrow> u32 \<Rightarrow> int \<Rightarrow> mem \<Rightarrow> int \<times> mem" where
  "init_interval c i ref p m =
     (let remaining = int (unat (metadata_size c)) - int (unat (pi_offset c));
          m1 = write_bytes (p, pre_bytes c i ref) m;
          p1 = p + int (unat (pi_offset c));
          (remaining2, p2, m2) =
            (if reftag_enabled c then
               (if pi_size c = 8
                then (remaining - 8, p1 + 8, write_bytes (p1 + 4, le32_bytes (swap_bytes ref)) m1)
                else if pi_size c = 16
                then (remaining - 16, p1 + 16, write_bytes (p1 + 10, put_unaligned_be48 (scast ref)) m1)
                else (remaining, p1, m1))
             else (remaining, p1, m1))
      in (p2 + remaining2, write_bytes (p2, post_bytes remaining2 i ref) m2))"

fun init_from :: "md_cfg \<Rightarrow> nat \<Rightarrow> nat \<Rightarrow> u32 \<Rightarrow> int \<Rightarrow> mem \<Rightarrow> mem" where
  "init_from c 0 i ref p m = m"
| "init_from c (Suc n) i ref p m =
     (case init_interval c i ref p m of (p', m') \<Rightarrow> init_from c n (i + 1) (ref + 1) p' m')"

definition init_metadata :: "md_cfg \<Rightarrow> int \<Rightarrow> nat \<Rightarrow> u32 \<Rightarrow> mem \<Rightarrow> mem" where
  "init_metadata c p intervals ref m = init_from c intervals 0 ref p m"

text \<open>The body of the loop in \<open>check_metadata\<close>: the pointer after the interval, or a mismatch.\<close>

definition check_interval :: "md_cfg \<Rightarrow> nat \<Rightarrow> u32 \<Rightarrow> int \<Rightarrow> mem \<Rightarrow> int option" where
  "check_interval c i ref p m =
     (let remaining = int (unat (metadata_size c)) - int (unat (pi_offset c));
          p1 = p + int (unat (pi_offset c));
          post = (\<lambda>remaining p2. if holds_at (p2, post_bytes remaining i ref) m then Some (p2 + remaining) else None)
      in if \<not> holds_at (p, pre_bytes c i ref) m then None
      else if reftag_enabled c \<and> pi_size c = 8
      then (if swap_bytes (le32_value (read_bytes (p1 + 4) 4 m)) \<noteq> ref then None
            else post (remaining - 8) (p1 + 8))
      else if reftag_enabled c \<and> pi_size c = 16
      then (if get_unaligned_be48 (read_bytes (p1 + 10) 6 m) \<noteq> scast ref then None
            else post (remaining - 16) (p1 + 16))
      else post remaining p1)"

fun check_from :: "md_cfg \<Rightarrow> nat \<Rightarrow> nat \<Rightarrow> u32 \<Rightarrow> int \<Rightarrow> mem \<Rightarrow> int" where
  "check_from c 0 i ref p m = 0"
| "check_from c (Suc n) i ref p m =
     (case check_interval c i ref p m of
        None \<Rightarrow> - 1 | Some p' \<Rightarrow> check_from c n (i + 1) (ref + 1) p' m)"

definition check_metadata :: "md_cfg \<Rightarrow> int \<Rightarrow> nat \<Rightarrow> u32 \<Rightarrow> mem \<Rightarrow> int" where
  "check_metadata c p intervals ref m = check_from c intervals 0 ref p m"

section \<open>The data pattern\<close>

definition DATA_SIZE :: nat where "DATA_SIZE = 8 * 1024 * 1024"

definition data_bytes :: "u32 \<Rightarrow> u8 list" where
  "data_bytes offset = map (\<lambda>i. ucast (0xaa + offset + word_of_nat i)) [0..<DATA_SIZE]"

definition init_data :: "u32 \<Rightarrow> mem \<Rightarrow> mem" where
  "init_data offset m = write_bytes (0, data_bytes offset) m"

definition check_data :: "u32 \<Rightarrow> mem \<Rightarrow> int" where
  "check_data offset m = (if holds_at (0, data_bytes offset) m then 0 else - 1)"

section \<open>Byte order lemmas\<close>

lemma u8_mask: "(0xff :: u64) = mask 8" "(0xff :: u32) = mask 8"
  by (simp_all add: mask_eq_exp_minus_1)

lemma bit_swap_bytes:
  "bit (swap_bytes w) n \<longleftrightarrow> n < 32 \<and> bit w (24 + n mod 8 - 8 * (n div 8))"
proof (cases "n < 32")
  case True
  have m: "(0xff :: u32) = mask 8" "(0xff00 :: u32) = push_bit 8 (mask 8)"
    "(0xff0000 :: u32) = push_bit 16 (mask 8)" "(0xff000000 :: u32) = push_bit 24 (mask 8)"
    by (simp_all add: mask_eq_exp_minus_1 push_bit_eq_mult)
  consider "n < 8" | "8 \<le> n \<and> n < 16" | "16 \<le> n \<and> n < 24" | "24 \<le> n" using True by linarith
  then show ?thesis
  proof cases
    case 1
    then show ?thesis unfolding swap_bytes_def m
      by (simp add: bit_or_iff bit_and_iff bit_push_bit_iff bit_drop_bit_eq bit_mask_iff)
  next
    case 2
    then have "n div 8 = 1" "n mod 8 = n - 8" by presburger+
    then show ?thesis using 2 unfolding swap_bytes_def m
      by (auto simp: bit_or_iff bit_and_iff bit_push_bit_iff bit_drop_bit_eq bit_mask_iff add.commute)
  next
    case 3
    then have "n div 8 = 2" "n mod 8 = n - 16" by presburger+
    then show ?thesis using 3 unfolding swap_bytes_def m
      by (auto simp: bit_or_iff bit_and_iff bit_push_bit_iff bit_drop_bit_eq bit_mask_iff)
  next
    case 4
    then have "n div 8 = 3" "n mod 8 = n - 24" using True by presburger+
    then show ?thesis using 4 True unfolding swap_bytes_def m
      by (auto simp: bit_or_iff bit_and_iff bit_push_bit_iff bit_drop_bit_eq bit_mask_iff)
  qed
next
  case False
  then show ?thesis by (auto dest: bit_imp_le_length)
qed

lemma bit_swap_bytes_byte:
  assumes "d \<le> 3" and "r < 8"
  shows "bit (swap_bytes w) (8 * d + r) \<longleftrightarrow> bit w (8 * (3 - d) + r)"
proof -
  have "(8 * d + r) div 8 = d" "(8 * d + r) mod 8 = r" "8 * d + r < 32" using assms by simp_all
  moreover have "24 + r - 8 * d = 8 * (3 - d) + r" using assms by (simp add: diff_mult_distrib2)
  ultimately show ?thesis by (simp only: bit_swap_bytes simp_thms)
qed

lemma swap_bytes_involution [simp]: "swap_bytes (swap_bytes w) = w"
proof (rule bit_word_eqI)
  fix n
  assume "n < LENGTH(32)"
  then have n: "n = 8 * (n div 8) + n mod 8" "n div 8 \<le> 3" "n mod 8 < 8" by simp_all
  have "3 - (3 - n div 8) = n div 8" using n(2) by simp
  then have "bit (swap_bytes (swap_bytes w)) (8 * (n div 8) + n mod 8) = bit w (8 * (n div 8) + n mod 8)"
    using bit_swap_bytes_byte [OF n(2,3)] bit_swap_bytes_byte [of "3 - n div 8", OF _ n(3)] by simp
  then show "bit (swap_bytes (swap_bytes w)) n = bit w n" by (simp only: n(1) [symmetric])
qed

lemma swap_bytes_eq_iff: "swap_bytes a = b \<longleftrightarrow> a = swap_bytes b"
  by auto

lemma le32_bytes_length [simp]: "length (le32_bytes w) = 4"
  by (simp add: le32_bytes_def)

lemma be48_bytes_length [simp]: "length (put_unaligned_be48 v) = 6"
  by (simp add: put_unaligned_be48_def)

text \<open>A list of four bytes and a 32-bit word determine each other; likewise six bytes and 48 bits.\<close>

lemma length_4E:
  assumes "length bs = 4"
  obtains a b c d where "bs = [a, b, c, d]"
  using assms by (auto simp: numeral_eq_Suc length_Suc_conv)

lemma length_6E:
  assumes "length bs = 6"
  obtains a b c d e f where "bs = [a, b, c, d, e, f]"
  using assms by (auto simp: numeral_eq_Suc length_Suc_conv)

lemma bit_u8_bound: "bit (x :: u8) n \<Longrightarrow> n < 8"
  by (drule bit_imp_le_length) simp

lemma le32_bytes_value: "length bs = 4 \<Longrightarrow> le32_bytes (le32_value bs) = bs"
proof (erule length_4E)
  fix a b c d :: u8
  assume bs: "bs = [a, b, c, d]"
  let ?w = "ucast a OR push_bit 8 (ucast b) OR push_bit 16 (ucast c) OR push_bit 24 (ucast d) :: u32"
  have "ucast ?w = a" "ucast (drop_bit 8 ?w) = b" "ucast (drop_bit 16 ?w) = c" "ucast (drop_bit 24 ?w) = d"
    by (rule bit_word_eqI, auto simp: bit_ucast_iff bit_drop_bit_eq bit_or_iff bit_push_bit_iff dest: bit_u8_bound)+
  then show ?thesis by (simp add: bs le32_bytes_def le32_value_def)
qed

lemma be48_bytes_value: "length bs = 6 \<Longrightarrow> put_unaligned_be48 (get_unaligned_be48 bs) = bs"
proof (erule length_6E)
  fix a b c d e f :: u8
  assume bs: "bs = [a, b, c, d, e, f]"
  let ?w = "push_bit 40 (ucast a) OR push_bit 32 (ucast b) OR push_bit 24 (ucast c) OR
    push_bit 16 (ucast d) OR push_bit 8 (ucast e) OR ucast f :: u64"
  have "ucast (drop_bit 40 ?w AND 0xff) = a" "ucast (drop_bit 32 ?w AND 0xff) = b" "ucast (drop_bit 24 ?w AND 0xff) = c"
    "ucast (drop_bit 16 ?w AND 0xff) = d" "ucast (drop_bit 8 ?w AND 0xff) = e" "ucast (?w AND 0xff) = f"
    unfolding u8_mask
    by (rule bit_word_eqI, auto simp: bit_ucast_iff bit_drop_bit_eq bit_or_iff bit_and_iff bit_mask_iff
        bit_push_bit_iff dest: bit_u8_bound)+
  then show ?thesis by (simp add: bs put_unaligned_be48_def get_unaligned_be48_def)
qed

lemma le32_value_bytes: "le32_value (le32_bytes w) = w"
proof (rule bit_word_eqI)
  fix n
  assume n: "n < LENGTH(32)"
  then consider "n < 8" | "8 \<le> n \<and> n < 16" | "16 \<le> n \<and> n < 24" | "24 \<le> n" by linarith
  then show "bit (le32_value (le32_bytes w)) n = bit w n"
    by cases (use n in \<open>auto simp: le32_value_def le32_bytes_def bit_or_iff bit_push_bit_iff bit_ucast_iff bit_drop_bit_eq\<close>)
qed

lemma bit_byte_at:
  "bit (push_bit k (ucast (ucast (drop_bit k v AND mask 8) :: u8)) :: u64) n \<longleftrightarrow> k \<le> n \<and> n < k + 8 \<and> bit (v :: u64) n"
  by (auto simp: bit_push_bit_iff bit_ucast_iff bit_and_iff bit_mask_iff bit_drop_bit_eq dest: bit_imp_le_length)

lemma be48_value_bytes:
  assumes "drop_bit 48 v = 0"
  shows "get_unaligned_be48 (put_unaligned_be48 v) = v"
proof (rule bit_word_eqI)
  fix n
  have hi: "bit v n \<Longrightarrow> n < 48" using assms by (rule drop_bit_zero_bitD)
  let ?b = "\<lambda>k. push_bit k (ucast (ucast (drop_bit k v AND mask 8) :: u8)) :: u64"
  have "get_unaligned_be48 (put_unaligned_be48 v) = ?b 40 OR ?b 32 OR ?b 24 OR ?b 16 OR ?b 8 OR ?b 0"
    by (simp add: get_unaligned_be48_def put_unaligned_be48_def u8_mask)
  then have "bit (get_unaligned_be48 (put_unaligned_be48 v)) n \<longleftrightarrow>
      (\<exists>k \<in> {40, 32, 24, 16, 8, 0}. k \<le> n \<and> n < k + 8) \<and> bit v n"
    by (simp only: bit_or_iff bit_byte_at) blast
  also have "(\<exists>k \<in> {40, 32, 24, 16, 8, 0::nat}. k \<le> n \<and> n < k + 8) \<longleftrightarrow> n < 48" by simp linarith
  finally show "bit (get_unaligned_be48 (put_unaligned_be48 v)) n = bit v n" using hi by blast
qed

end
