(* ===== verification/Metadata_Props.thy ===== *)
theory Metadata_Props
  imports Metadata
begin

text \<open>
  The pattern of \<open>metadata.c\<close> as a chain of segments, from which follow: the check accepts exactly
  the buffers that \<open>init_metadata\<close> would not change, it accepts what \<open>init_metadata\<close> has written,
  and nothing outside the buffer is touched.
\<close>

section \<open>Segments\<close>

definition tag_size :: "md_cfg \<Rightarrow> int" where
  "tag_size c = (if reftag_enabled c then if pi_size c = 8 then 8 else if pi_size c = 16 then 16 else 0 else 0)"

definition tag_segs :: "md_cfg \<Rightarrow> u32 \<Rightarrow> int \<Rightarrow> segment list" where
  "tag_segs c ref p1 =
     (if reftag_enabled c then
        (if pi_size c = 8 then [(p1 + 4, le32_bytes (swap_bytes ref))]
         else if pi_size c = 16 then [(p1 + 10, put_unaligned_be48 (scast ref))] else [])
      else [])"

definition interval_segs :: "md_cfg \<Rightarrow> nat \<Rightarrow> u32 \<Rightarrow> int \<Rightarrow> segment list" where
  "interval_segs c i ref p =
     (let p1 = p + int (unat (pi_offset c));
          remaining = int (unat (metadata_size c)) - int (unat (pi_offset c)) - tag_size c
      in (p, pre_bytes c i ref) # tag_segs c ref p1 @ [(p1 + tag_size c, post_bytes remaining i ref)])"

text \<open>The protection information fits the metadata of an interval.\<close>

definition md_ok :: "md_cfg \<Rightarrow> bool" where
  "md_ok c \<longleftrightarrow> int (unat (pi_offset c)) + tag_size c \<le> int (unat (metadata_size c))"

lemma pattern_lengths [simp]:
  "length (pre_bytes c i ref) = unat (pi_offset c)" "length (post_bytes r i ref) = nat r"
  by (simp_all add: pre_bytes_def post_bytes_def)

lemma init_interval_segs:
  "init_interval c i ref p m = (p + int (unat (metadata_size c)), write_all (interval_segs c i ref p) m)"
  by (simp add: init_interval_def interval_segs_def tag_segs_def tag_size_def Let_def)

lemma chain_tag:
  "chain p (tag_segs c ref p @ [(p + tag_size c, bs)]) (p + tag_size c + int (length bs))"
  by (simp add: tag_segs_def tag_size_def)

lemma chain_interval:
  assumes "md_ok c"
  shows "chain p (interval_segs c i ref p) (p + int (unat (metadata_size c)))"
proof -
  define off where "off = int (unat (pi_offset c))"
  define rest where "rest = int (unat (metadata_size c)) - off - tag_size c"
  have "int (length (post_bytes rest i ref)) = rest" using assms by (simp add: md_ok_def off_def rest_def)
  then have "p + off + tag_size c + int (length (post_bytes rest i ref)) = p + int (unat (metadata_size c))"
    by (simp only: rest_def)
  then have "chain (p + off) (tag_segs c ref (p + off) @ [(p + off + tag_size c, post_bytes rest i ref)])
      (p + int (unat (metadata_size c)))"
    using chain_tag [of "p + off" c ref "post_bytes rest i ref"] by (simp only:)
  then show ?thesis by (simp add: interval_segs_def Let_def off_def rest_def)
qed

text \<open>A reference tag is compared by value, which is the same as comparing its bytes.\<close>

lemma tag8_holds:
  "swap_bytes (le32_value (read_bytes p 4 m)) = ref \<longleftrightarrow> holds_at (p, le32_bytes (swap_bytes ref)) m"
proof -
  have "le32_value (read_bytes p 4 m) = swap_bytes ref \<longleftrightarrow> read_bytes p 4 m = le32_bytes (swap_bytes ref)"
    by (metis le32_bytes_value le32_value_bytes length_read_bytes)
  then show ?thesis by (simp add: swap_bytes_eq_iff holds_at_def)
qed

lemma scast_u32_48:
  assumes "unat (ref :: u32) < 2 ^ 31"
  shows "drop_bit 48 (scast ref :: u64) = 0"
  using assms unat_scast_u32_small [OF assms] by (simp add: drop_bit_eq_zero_iff_less)

lemma tag16_holds:
  assumes "unat (ref :: u32) < 2 ^ 31"
  shows "get_unaligned_be48 (read_bytes p 6 m) = scast ref \<longleftrightarrow> holds_at (p, put_unaligned_be48 (scast ref)) m"
proof -
  have "get_unaligned_be48 (read_bytes p 6 m) = scast ref \<longleftrightarrow> read_bytes p 6 m = put_unaligned_be48 (scast ref)"
    by (metis be48_bytes_value be48_value_bytes [OF scast_u32_48 [OF assms]] length_read_bytes)
  then show ?thesis by (simp add: holds_at_def)
qed

lemma check_interval_segs:
  assumes "unat ref < 2 ^ 31"
  shows "check_interval c i ref p m =
    (if \<forall>s \<in> set (interval_segs c i ref p). holds_at s m then Some (p + int (unat (metadata_size c))) else None)"
  by (simp add: check_interval_def interval_segs_def tag_segs_def tag_size_def Let_def tag8_holds tag16_holds [OF assms])

fun all_segs :: "md_cfg \<Rightarrow> nat \<Rightarrow> nat \<Rightarrow> u32 \<Rightarrow> int \<Rightarrow> segment list" where
  "all_segs c 0 i ref p = []"
| "all_segs c (Suc n) i ref p =
     interval_segs c i ref p @ all_segs c n (i + 1) (ref + 1) (p + int (unat (metadata_size c)))"

lemma init_from_segs: "init_from c n i ref p m = write_all (all_segs c n i ref p) m"
  by (induction n arbitrary: i ref p m) (simp_all add: init_interval_segs)

lemma chain_all: "md_ok c \<Longrightarrow> chain p (all_segs c n i ref p) (p + int n * int (unat (metadata_size c)))"
proof (induction n arbitrary: i ref p)
  case (Suc n)
  have "chain p (interval_segs c i ref p @ all_segs c n (i + 1) (ref + 1) (p + int (unat (metadata_size c))))
      (p + int (unat (metadata_size c)) + int n * int (unat (metadata_size c)))"
    by (rule chain_append [OF chain_interval [OF Suc.prems] Suc.IH [OF Suc.prems]])
  then show ?case by (simp add: algebra_simps)
qed simp

lemma check_from_segs:
  "unat ref + n \<le> 2 ^ 31 \<Longrightarrow>
   check_from c n i ref p m = (if \<forall>s \<in> set (all_segs c n i ref p). holds_at s m then 0 else - 1)"
proof (induction n arbitrary: i ref p)
  case (Suc n)
  have "unat (ref + 1) = unat ref + 1" using Suc.prems by (intro unat_plus_1) simp
  then show ?case using Suc by (auto simp: check_interval_segs)
qed simp

lemma take_bit_add_wide: "take_bit LENGTH(8) (take_bit LENGTH(32) (a + b)) = take_bit LENGTH(8) (take_bit LENGTH(32) a + take_bit LENGTH(32) (b :: int))"
proof -
  have "take_bit 8 (take_bit 32 a + take_bit 32 b) = take_bit 8 (take_bit 8 (take_bit 32 a) + take_bit 8 (take_bit 32 b))"
    by (simp only: take_bit_add)
  also have "\<dots> = take_bit 8 (a + b)" by (simp add: take_bit_add)
  finally show ?thesis by simp
qed

lemma ucast_add_u8: "(ucast (a + b :: u32) :: u8) = ucast a + ucast b"
  by transfer (rule take_bit_add_wide)

lemma chain_inside:
  "chain q segs r \<Longrightarrow> s \<in> set segs \<Longrightarrow> q \<le> fst s \<and> fst s + int (length (snd s)) \<le> r"
  by (induction q segs r rule: chain.induct) (auto dest: chain_le)

text \<open>What has been written is accepted as long as the buffer itself has not changed.\<close>

lemma check_metadata_written:
  assumes "md_ok c" and "unat ref + intervals \<le> 2 ^ 31"
    and "\<forall>a. p \<le> a \<and> a < p + int intervals * int (unat (metadata_size c)) \<longrightarrow> m' a = init_metadata c p intervals ref m a"
  shows "check_metadata c p intervals ref m' = 0"
proof -
  let ?segs = "all_segs c intervals 0 ref p"
  note ch = chain_all [OF assms(1), of p intervals 0 ref]
  have "holds_at s m'" if "s \<in> set ?segs" for s
  proof -
    have "holds_at s (init_metadata c p intervals ref m)"
      using write_all_holds [OF ch] that by (simp add: init_metadata_def init_from_segs)
    moreover have "holds_at (fst s, snd s) m' = holds_at (fst s, snd s) (init_metadata c p intervals ref m)"
      by (rule holds_at_cong) (use assms(3) chain_inside [OF ch that] in auto)
    ultimately show ?thesis by simp
  qed
  then show ?thesis by (simp add: check_metadata_def check_from_segs [OF assms(2)])
qed

lemma init_metadata_outside:
  assumes "md_ok c" and "a < p \<or> p + int intervals * int (unat (metadata_size c)) \<le> a"
  shows "init_metadata c p intervals ref m a = m a"
  using write_all_outside [OF chain_all [OF assms(1)] assms(2)] by (simp add: init_metadata_def init_from_segs)

section \<open>Properties\<close>

text \<open>
  C20. \<open>check_metadata\<close> accepts a buffer exactly when \<open>init_metadata\<close> with the same arguments would
  not change a single byte of it: every byte it is responsible for is checked, and no other.
\<close>

theorem metadata_check_exact:
  assumes "md_ok c" and "unat ref + intervals \<le> 2 ^ 31"
  shows "check_metadata c p intervals ref m = (if init_metadata c p intervals ref m = m then 0 else - 1)"
  unfolding check_metadata_def init_metadata_def init_from_segs write_all_id [OF chain_all [OF assms(1)]]
  by (rule check_from_segs [OF assms(2)])

definition demo_cfg :: md_cfg where
  "demo_cfg = \<lparr>lba_size = 512, metadata_size = 64, pi_size = 16, pi_offset = 48, reftag_enabled = True\<rparr>"

lemma md_ok_demo [simp]: "md_ok demo_cfg"
  by (simp add: md_ok_def demo_cfg_def tag_size_def)

theorem metadata_check_exact_witness:
  "check_metadata demo_cfg 0 1 5 (\<lambda>_. 0) = - 1"
proof -
  have "init_metadata demo_cfg 0 1 5 (\<lambda>_. 0) \<noteq> (\<lambda>_. 0)"
  proof
    assume "init_metadata demo_cfg 0 1 5 (\<lambda>_. 0) = (\<lambda>_. 0)"
    then have "init_metadata demo_cfg 0 1 5 (\<lambda>_. 0) 0 = 0" by (rule fun_cong)
    then show False
      by (simp add: init_metadata_def init_interval_def demo_cfg_def Let_def write_bytes_def pre_bytes_def
          put_unaligned_be48_def post_bytes_def)
  qed
  then show ?thesis using metadata_check_exact [OF md_ok_demo, of 5 1 0 "\<lambda>_. 0"] by simp
qed

text \<open>
  What \<open>init_metadata\<close> has written, \<open>check_metadata\<close> accepts, also after the bytes outside the
  buffer have changed; and \<open>init_metadata\<close> writes only inside the buffer of \<open>intervals\<close> times
  the metadata size.
\<close>

theorem metadata_roundtrip:
  assumes "md_ok c" and "unat ref + intervals \<le> 2 ^ 31"
    and "\<forall>a. p \<le> a \<and> a < p + int intervals * int (unat (metadata_size c)) \<longrightarrow> m' a = init_metadata c p intervals ref m a"
  shows "check_metadata c p intervals ref m' = 0
    \<and> (\<forall>a. a < p \<or> p + int intervals * int (unat (metadata_size c)) \<le> a \<longrightarrow> init_metadata c p intervals ref m a = m a)"
  using check_metadata_written [OF assms] init_metadata_outside [OF assms(1)] by blast

theorem metadata_roundtrip_witness:
  "check_metadata demo_cfg 12 16384 3 (init_metadata demo_cfg 12 16384 3 (\<lambda>_. 0)) = 0"
  using metadata_roundtrip [OF md_ok_demo, of 3 16384 12 "init_metadata demo_cfg 12 16384 3 (\<lambda>_. 0)" "\<lambda>_. 0"] by simp

text \<open>
  The data pattern: the check of an offset accepts what was written for that offset, and
  accepts what was written for another offset only if the two agree modulo 256, so data left
  over from any of the 255 rounds before is noticed.
\<close>

theorem data_check_offset:
  "check_data offset (init_data offset' m) = 0 \<longleftrightarrow> (ucast offset :: u8) = ucast offset'"
proof -
  let ?byte = "\<lambda>off i. ucast (0xaa + off + word_of_nat i :: u32) :: u8"
  have nth: "data_bytes off ! i = ?byte off i" if "i < DATA_SIZE" for off i
    using that by (simp add: data_bytes_def)
  have len: "length (data_bytes off) = DATA_SIZE" for off by (simp add: data_bytes_def)
  have byte: "?byte off i = 0xaa + ucast off + ucast (word_of_nat i :: u32)" for off i
    by (simp add: ucast_add_u8)
  have "check_data offset (init_data offset' m) = 0 \<longleftrightarrow> (\<forall>i < DATA_SIZE. ?byte offset' i = ?byte offset i)"
    by (auto simp: check_data_def init_data_def holds_at_iff len nth write_bytes_def)
  also have "\<dots> \<longleftrightarrow> (ucast offset :: u8) = ucast offset'"
  proof
    assume all: "\<forall>i < DATA_SIZE. ?byte offset' i = ?byte offset i"
    have "0 < DATA_SIZE" by (simp add: DATA_SIZE_def)
    then have "?byte offset' 0 = ?byte offset 0" by (rule all [rule_format])
    then show "(ucast offset :: u8) = ucast offset'" unfolding byte by simp
  qed (simp add: byte)
  finally show ?thesis .
qed

end
