(* ===== verification/Metadata_Main.thy ===== *)
theory Metadata_Main
  imports Metadata_Props Sys_Prog
begin

text \<open>
  \<open>main\<close> of \<open>metadata.c\<close>: 512 rounds that write the patterns, clear both buffers, read back and check,
  and two writes without metadata. The ring and the device are a parameter; the kernel may change
  the two buffers when a request completes.
\<close>

section \<open>Requests and system\<close>

text \<open>\<open>struct io_uring_attr_pi\<close>; the address is the distance of \<open>pi_buf\<close> from \<open>orig_pi_buf\<close>.\<close>

record attr_pi =
  pi_flags :: u16
  pi_len :: u32
  pi_addr :: int
  pi_seed :: u64

definition IO_INTEGRITY_CHK_REFTAG :: u16 where "IO_INTEGRITY_CHK_REFTAG = push_bit 1 1"

text \<open>A request for the whole data buffer: direction, offset on the device, user data, attributes.\<close>

record md_sqe =
  sq_write :: bool
  sq_fd :: int
  sq_offset :: u64
  sq_data :: u64
  sq_pi :: "attr_pi option"

text \<open>
  Submissions and completions are logged with the contents of the data and the metadata buffer at that
  moment. \<open>md_wait\<close> is \<open>io_uring_wait_cqe\<close>: its result, the result of the request, and the buffers afterwards;
  \<open>md_wait_nr\<close> gives the result of \<open>io_uring_wait_cqe_nr\<close>.
\<close>

record 'k md_os =
  md_open :: "string \<Rightarrow> 'k \<Rightarrow> int \<times> 'k"
  md_getcap :: "int \<Rightarrow> 'k \<Rightarrow> (int + md_cap) \<times> 'k"
  md_memalign :: "u64 \<Rightarrow> 'k \<Rightarrow> mem option \<times> 'k"
  md_queue_init :: "'k \<Rightarrow> int \<times> 'k"
  md_get_sqe :: "'k \<Rightarrow> bool \<times> 'k"
  md_submit :: "md_sqe list \<Rightarrow> mem \<times> mem \<Rightarrow> 'k \<Rightarrow> int \<times> 'k"
  md_wait :: "mem \<times> mem \<Rightarrow> 'k \<Rightarrow> (int \<times> int \<times> mem \<times> mem) \<times> 'k"
  md_wait_nr :: "nat \<Rightarrow> 'k \<Rightarrow> int \<times> 'k"

datatype md_event =
    Md_Open string int
  | Md_Caps "int + md_cap"
  | Md_Alloc bool
  | Md_Ring int
  | Md_Sqe bool
  | Md_Submit "md_sqe list" mem mem int
  | Md_Wait int int mem mem
  | Md_Wait_Nr int
  | Md_Seen
  | Md_Ring_Exit
  | Md_Free
  | Md_Close int

type_synonym ('k, 'a) md_prog = "('k, md_event, 'a) sys_prog"

section \<open>One request\<close>

text \<open>
  From \<open>io_uring_get_sqe\<close> to the result of the request: \<open>None\<close> is one of the four error exits, with
  status 1 in all of them.
\<close>

definition transfer :: "'k md_os \<Rightarrow> md_sqe \<Rightarrow> mem \<times> mem \<Rightarrow> ('k, (mem \<times> mem) option) md_prog" where
  "transfer S sqe bufs =
     andthen (syscall (md_get_sqe S) Md_Sqe) (\<lambda>ok. if \<not> ok then returns None else
     andthen (syscall (md_submit S [sqe] bufs) (Md_Submit [sqe] (fst bufs) (snd bufs))) (\<lambda>ret. if ret < 1 then returns None else
     andthen (syscall (md_wait S bufs) (\<lambda>(ret, res, d, m). Md_Wait ret res d m)) (\<lambda>(ret, res, bufs').
       if ret < 0 \<or> res < 0 then returns None else returns (Some bufs'))))"

section \<open>One round\<close>

text \<open>\<open>memset\<close> of the first bytes from an address.\<close>

definition zero_at :: "int \<Rightarrow> nat \<Rightarrow> mem \<Rightarrow> mem" where
  "zero_at p n m = (\<lambda>a. if p \<le> a \<and> a < p + int n then 0 else m a)"

record md_run =
  run_cfg :: md_cfg
  run_fd :: int
  run_intervals :: nat
  run_size :: nat

definition tx_size :: "md_run \<Rightarrow> nat" where
  "tx_size r = run_intervals r * unat (metadata_size (run_cfg r))"

text \<open>The highest byte \<open>init_metadata\<close> touches, counted from where it starts.\<close>

definition pattern_extent :: "md_run \<Rightarrow> int" where
  "pattern_extent r = (let c = run_cfg r; ms = int (unat (metadata_size c)) in
     if run_intervals r = 0 then 0
     else (int (run_intervals r) - 1) * ms + max ms (int (unat (pi_offset c)) + tag_size c))"

definition round_sqe :: "md_run \<Rightarrow> nat \<Rightarrow> bool \<Rightarrow> md_sqe" where
  "round_sqe r offset write =
     \<lparr>sq_write = write, sq_fd = run_fd r, sq_offset = word_of_int (int offset * int (unat (lba_size (run_cfg r))) * 8),
      sq_data = (if write then 1 else 2),
      sq_pi = Some \<lparr>pi_flags = (if reftag_enabled (run_cfg r) then IO_INTEGRITY_CHK_REFTAG else 0),
        pi_len = word_of_nat (tx_size r), pi_addr = int offset * 4, pi_seed = word_of_nat offset\<rparr>\<rparr>"

text \<open>
  The body of the loop. The pattern is written at \<open>orig_pi_buf + offset * 4\<close>; a pattern that does not
  fit the metadata buffer is a fault. The result is \<open>None\<close> for the error exits.
\<close>

definition md_round :: "'k md_os \<Rightarrow> md_run \<Rightarrow> nat \<Rightarrow> mem \<times> mem \<Rightarrow> ('k, (mem \<times> mem) option) md_prog" where
  "md_round S r offset bufs =
     (let p = int offset * 4; c = run_cfg r; n = run_intervals r in
      if int (run_size r) < p + pattern_extent r then halt (Fault Out_Of_Bounds) else
      andthen (transfer S (round_sqe r offset True)
          (init_data (word_of_nat offset) (fst bufs), init_metadata c p n (word_of_nat offset) (snd bufs))) (\<lambda>written.
      case written of None \<Rightarrow> returns None | Some (d, m) \<Rightarrow>
      andthen (emit Md_Seen) (\<lambda>_.
      andthen (transfer S (round_sqe r offset False) (zero_at 0 DATA_SIZE d, zero_at p (tx_size r) m)) (\<lambda>read.
      case read of None \<Rightarrow> returns None | Some (d', m') \<Rightarrow>
      if check_data (word_of_nat offset) d' \<noteq> 0 then returns None
      else if check_metadata c p n (word_of_nat offset) m' \<noteq> 0 then returns None
      else andthen (emit Md_Seen) (\<lambda>_. returns (Some (d', m')))))))"

fun md_rounds :: "'k md_os \<Rightarrow> md_run \<Rightarrow> nat list \<Rightarrow> mem \<times> mem \<Rightarrow> ('k, (mem \<times> mem) option) md_prog" where
  "md_rounds S r [] bufs = returns (Some bufs)"
| "md_rounds S r (offset # offsets) bufs =
     andthen (md_round S r offset bufs) (\<lambda>res. case res of
       None \<Rightarrow> returns None | Some bufs' \<Rightarrow> md_rounds S r offsets bufs')"

section \<open>The two last writes\<close>

definition last_sqe :: "md_run \<Rightarrow> nat \<Rightarrow> md_sqe" where
  "last_sqe r i = \<lparr>sq_write = True, sq_fd = run_fd r, sq_offset = word_of_nat (DATA_SIZE * i),
     sq_data = word_of_nat i + 1, sq_pi = None\<rparr>"

definition last_writes :: "'k md_os \<Rightarrow> md_run \<Rightarrow> mem \<times> mem \<Rightarrow> ('k, int) md_prog" where
  "last_writes S r bufs =
     andthen (syscall (md_get_sqe S) Md_Sqe) (\<lambda>ok0. if \<not> ok0 then returns 1 else
     andthen (syscall (md_get_sqe S) Md_Sqe) (\<lambda>ok1. if \<not> ok1 then returns 1 else
     andthen (syscall (md_submit S [last_sqe r 0, last_sqe r 1] bufs)
         (Md_Submit [last_sqe r 0, last_sqe r 1] (fst bufs) (snd bufs))) (\<lambda>ret.
       if ret < 1 then returns ret else syscall (md_wait_nr S 2) Md_Wait_Nr)))"

section \<open>The program\<close>

text \<open>The labels at the end of \<open>main\<close>.\<close>

definition md_close :: "int \<Rightarrow> int \<Rightarrow> ('k, int) md_prog" where
  "md_close fd ret = andthen (emit (Md_Close fd)) (\<lambda>_. returns ret)"

definition md_free :: "int \<Rightarrow> int \<Rightarrow> ('k, int) md_prog" where
  "md_free fd ret = andthen (emit Md_Free) (\<lambda>_. md_close fd ret)"

definition md_cleanup :: "int \<Rightarrow> int \<Rightarrow> ('k, int) md_prog" where
  "md_cleanup fd ret = andthen (emit Md_Free) (\<lambda>_. md_free fd ret)"

definition md_ring_exit :: "int \<Rightarrow> int \<Rightarrow> ('k, int) md_prog" where
  "md_ring_exit fd ret = andthen (emit Md_Ring_Exit) (\<lambda>_. md_cleanup fd ret)"

definition md_body :: "'k md_os \<Rightarrow> md_run \<Rightarrow> mem \<times> mem \<Rightarrow> ('k, int) md_prog" where
  "md_body S r bufs =
     andthen (md_rounds S r [0..<512] bufs) (\<lambda>res. case res of
       None \<Rightarrow> md_ring_exit (run_fd r) 1
     | Some (d, m) \<Rightarrow>
         andthen (last_writes S r (zero_at 0 DATA_SIZE d, m)) (\<lambda>ret. md_ring_exit (run_fd r) ret))"

text \<open>The numbers are computed in \<open>int\<close>; twice the transfer size is the size of the metadata buffer.\<close>

definition run_of :: "md_cfg \<Rightarrow> int \<Rightarrow> md_run" where
  "run_of c fd =
     (let intervals = DATA_SIZE div unat (lba_size c); tx = intervals * unat (metadata_size c)
      in \<lparr>run_cfg = c, run_fd = fd, run_intervals = intervals,
          run_size = unat (scast (word_of_nat (tx * 2) :: s32) :: u64)\<rparr>)"

definition md_main :: "'k md_os \<Rightarrow> string list \<Rightarrow> ('k, int) md_prog" where
  "md_main S argv =
     (if length argv < 2 then returns 1 else
      andthen (syscall (md_open S (argv ! 1)) (Md_Open (argv ! 1))) (\<lambda>fd. if fd < 0 then returns 1 else
      andthen (syscall (md_getcap S fd) Md_Caps) (\<lambda>cap. case init_capabilities cap of
        Inl e \<Rightarrow> returns 1
      | Inr c \<Rightarrow> if lba_size c = 0 \<or> metadata_size c = 0 then returns 1 else
          let r = run_of c fd in
          andthen (syscall (md_memalign S (word_of_nat DATA_SIZE)) (\<lambda>b. Md_Alloc (b \<noteq> None))) (\<lambda>data. case data of
            None \<Rightarrow> md_close fd 1
          | Some d \<Rightarrow>
              andthen (syscall (md_memalign S (word_of_nat (run_size r))) (\<lambda>b. Md_Alloc (b \<noteq> None))) (\<lambda>meta. case meta of
                None \<Rightarrow> md_free fd 1
              | Some m \<Rightarrow>
                  andthen (syscall (md_queue_init S) Md_Ring) (\<lambda>ret.
                    if ret < 0 then md_cleanup fd ret else md_body S r (d, m)))))))"

end
