(* ===== verification/Metadata_Pass.thy ===== *)
theory Metadata_Pass
  imports Metadata_Main
begin

text \<open>
  What an exit status of 0 of \<open>metadata.c\<close> means, and that a device which keeps what was written
  gets it.
\<close>

section \<open>Exit status 0\<close>

text \<open>The requests handed to the device and their completions, in order.\<close>

fun is_exchange :: "md_event \<Rightarrow> bool" where
  "is_exchange (Md_Submit sqes d m n) = True"
| "is_exchange (Md_Wait ret res d m) = True"
| "is_exchange e = False"

definition exchanges :: "md_event list \<Rightarrow> md_event list" where
  "exchanges tr = filter is_exchange tr"

lemma exchanges_simps [simp]:
  "exchanges [] = []" "exchanges (e # tr) = (if is_exchange e then [e] else []) @ exchanges tr"
  "exchanges (tr @ tr') = exchanges tr @ exchanges tr'"
  by (simp_all add: exchanges_def)

definition all_zero :: "int \<Rightarrow> nat \<Rightarrow> mem \<Rightarrow> bool" where
  "all_zero p n m \<longleftrightarrow> (\<forall>a. p \<le> a \<and> a < p + int n \<longrightarrow> m a = 0)"

text \<open>
  A round that passed, for capabilities \<open>c\<close>, descriptor \<open>fd\<close>, \<open>n\<close> intervals and round \<open>i\<close>: a write of
  the patterns and a read of the same place with the same protection information, both completed; the
  read was submitted with data buffer and metadata cleared, and its completion passed both checks.
\<close>

definition round_ok :: "md_cfg \<Rightarrow> int \<Rightarrow> nat \<Rightarrow> nat \<Rightarrow> md_event list \<Rightarrow> bool" where
  "round_ok c fd n i evs \<longleftrightarrow>
     (\<exists>ws dw mw n1 r1 e1 d1 m1 rs dr mr n2 r2 e2 d m q m0.
        evs = [Md_Submit [ws] dw mw n1, Md_Wait r1 e1 d1 m1, Md_Submit [rs] dr mr n2, Md_Wait r2 e2 d m]
      \<and> 0 \<le> e1 \<and> 0 \<le> e2 \<and> sq_write ws \<and> \<not> sq_write rs \<and> sq_fd ws = fd \<and> sq_fd rs = fd
      \<and> sq_offset ws = word_of_int (int i * int (unat (lba_size c)) * 8) \<and> sq_offset rs = sq_offset ws
      \<and> sq_pi ws = Some q \<and> sq_pi rs = Some q \<and> pi_addr q = 4 * int i
      \<and> pi_len q = word_of_nat (n * unat (metadata_size c)) \<and> pi_seed q = word_of_nat i
      \<and> (pi_flags q = IO_INTEGRITY_CHK_REFTAG \<longleftrightarrow> reftag_enabled c)
      \<and> check_data (word_of_nat i) dw = 0 \<and> mw = init_metadata c (4 * int i) n (word_of_nat i) m0
      \<and> all_zero 0 DATA_SIZE dr \<and> all_zero (4 * int i) (n * unat (metadata_size c)) mr
      \<and> check_data (word_of_nat i) d = 0 \<and> check_metadata c (4 * int i) n (word_of_nat i) m = 0)"

definition run_round_ok :: "md_run \<Rightarrow> nat \<Rightarrow> md_event list \<Rightarrow> bool" where
  "run_round_ok r = round_ok (run_cfg r) (run_fd r) (run_intervals r)"

lemma logs_transfer:
  "logs (transfer S sqe bufs) (\<lambda>out tr. \<forall>b. out = Some b \<longrightarrow>
     (\<exists>n ret res. exchanges tr = [Md_Submit [sqe] (fst bufs) (snd bufs) n, Md_Wait ret res (fst b) (snd b)] \<and> 0 \<le> res))"
  unfolding transfer_def
  by (intro logs_syscall_then logs_if logs_returns) (auto intro!: logs_if logs_returns)

lemma init_data_holds: "check_data offset (init_data offset d) = 0"
  by (simp add: check_data_def init_data_def data_bytes_def DATA_SIZE_def)

lemma zero_at_zero: "all_zero p n (zero_at p n m)"
  by (simp add: all_zero_def zero_at_def)

lemma reftag_flag: "(if b then IO_INTEGRITY_CHK_REFTAG else 0) = IO_INTEGRITY_CHK_REFTAG \<longleftrightarrow> b"
  by (simp add: IO_INTEGRITY_CHK_REFTAG_def)

lemma logs_round:
  "logs (md_round S r offset bufs) (\<lambda>out tr. out \<noteq> None \<longrightarrow> run_round_ok r offset (exchanges tr))"
  unfolding md_round_def Let_def
proof (intro logs_if logs_halt, rule logs_andthen [OF logs_transfer], goal_cases)
  case (1 written tr)
  show ?case
  proof (cases written)
    case None
    then show ?thesis by (simp add: logs_returns)
  next
    case (Some b)
    obtain d m where b: "b = (d, m)" by (cases b)
    show ?thesis
      unfolding Some b option.case prod.case
    proof (intro logs_emit_then, rule logs_andthen [OF logs_transfer], goal_cases)
      case (1 read tr')
      then show ?case
        using \<open>\<forall>b. written = Some b \<longrightarrow> _ b\<close>
        by (cases read) (auto simp: Some b run_round_ok_def round_ok_def round_sqe_def tx_size_def mult.commute reftag_flag
            init_data_holds zero_at_zero intro!: logs_returns logs_if logs_emit_then)
    qed
  qed
qed

definition rounds_ok :: "md_run \<Rightarrow> nat list \<Rightarrow> md_event list \<Rightarrow> bool" where
  "rounds_ok r offsets evs \<longleftrightarrow> (\<exists>rs. list_all2 (run_round_ok r) offsets rs \<and> evs = concat rs)"

lemma rounds_ok_Cons: "run_round_ok r offset evs \<Longrightarrow> rounds_ok r offsets evs' \<Longrightarrow> rounds_ok r (offset # offsets) (evs @ evs')"
  unfolding rounds_ok_def by (metis list_all2_Cons concat.simps(2))

lemma logs_rounds:
  "logs (md_rounds S r offsets bufs) (\<lambda>out tr. out \<noteq> None \<longrightarrow> rounds_ok r offsets (exchanges tr))"
proof (induction offsets arbitrary: bufs)
  case Nil
  show ?case unfolding md_rounds.simps by (rule logs_returns) (simp add: rounds_ok_def)
next
  case (Cons offset offsets)
  show ?case
    unfolding md_rounds.simps
  proof (rule logs_andthen [OF logs_round], goal_cases)
    case (1 out tr)
    show ?case
    proof (cases out)
      case None
      then show ?thesis by (simp add: logs_returns)
    next
      case (Some b)
      then show ?thesis unfolding Some option.case
        by (intro logs_weaken [OF Cons.IH]) (use 1 Some in \<open>auto intro: rounds_ok_Cons\<close>)
    qed
  qed
qed

lemma logs_md_exits:
  "logs (md_close fd ret) (\<lambda>x tr. x = ret \<and> exchanges tr = [])"
  "logs (md_free fd ret) (\<lambda>x tr. x = ret \<and> exchanges tr = [])"
  "logs (md_cleanup fd ret) (\<lambda>x tr. x = ret \<and> exchanges tr = [])"
  "logs (md_ring_exit fd ret) (\<lambda>x tr. x = ret \<and> exchanges tr = [])"
  unfolding md_ring_exit_def md_cleanup_def md_free_def md_close_def
  by (intro logs_emit_then logs_returns, simp)+

lemma logs_last_writes:
  "logs (last_writes S r bufs) (\<lambda>x tr. x = 0 \<longrightarrow> (\<exists>d m n. exchanges tr = [Md_Submit [last_sqe r 0, last_sqe r 1] d m n]))"
  unfolding last_writes_def
  by (intro logs_syscall_then logs_if logs_returns logs_syscall) simp_all

text \<open>All rounds of a run and then the two writes without protection information.\<close>

definition run_ok :: "md_run \<Rightarrow> md_event list \<Rightarrow> bool" where
  "run_ok r evs \<longleftrightarrow> (\<exists>rs d m n. list_all2 (run_round_ok r) [0..<512] rs
     \<and> evs = concat rs @ [Md_Submit [last_sqe r 0, last_sqe r 1] d m n])"

lemma run_ok_rounds: "rounds_ok r [0..<512] evs \<Longrightarrow> run_ok r (evs @ [Md_Submit [last_sqe r 0, last_sqe r 1] d m n])"
  unfolding rounds_ok_def run_ok_def by blast

definition passed :: "md_run \<Rightarrow> int \<Rightarrow> md_event list \<Rightarrow> bool" where
  "passed r ret tr \<longleftrightarrow> (ret = 0 \<longrightarrow> run_ok r (exchanges tr))"

lemma logs_body: "logs (md_body S r bufs) (passed r)"
  unfolding md_body_def
proof (rule logs_andthen [OF logs_rounds], goal_cases)
  case (1 out tr)
  show ?case
  proof (cases out)
    case None
    then show ?thesis by (auto simp: passed_def intro!: logs_weaken [OF logs_md_exits(4)])
  next
    case (Some b)
    then have "rounds_ok r [0..<512] (exchanges tr)" using 1 by simp
    then show ?thesis
      unfolding Some option.case
      by (cases b) (auto simp: passed_def simp del: upt_Suc intro!: run_ok_rounds [unfolded One_nat_def] logs_andthen [OF logs_last_writes] logs_weaken [OF logs_md_exits(4)])
  qed
qed

definition main_passed :: "string \<Rightarrow> int \<Rightarrow> md_event list \<Rightarrow> bool" where
  "main_passed path ret tr \<longleftrightarrow> (ret = 0 \<longrightarrow> (\<exists>cap c fd. Md_Open path fd \<in> set tr \<and> Md_Caps cap \<in> set tr
     \<and> init_capabilities cap = Inr c \<and> run_ok (run_of c fd) (exchanges tr)))"

lemma logs_main: "logs (md_main S argv) (main_passed (argv ! 1))"
  unfolding md_main_def
proof (intro logs_if logs_returns logs_syscall_then, goal_cases)
  case (3 fd cap)
  show ?case
  proof (cases "init_capabilities cap")
    case (Inl e)
    then show ?thesis by (simp add: logs_returns main_passed_def)
  next
    case (Inr c)
    have body: "logs (md_body S (run_of c fd) bufs)
        (\<lambda>y tr. main_passed (argv ! 1) y (Md_Open (argv ! 1) fd # Md_Caps cap # Md_Alloc True # Md_Alloc True # Md_Ring ret # tr))"
      for bufs ret
    proof (rule logs_weaken [OF logs_body])
      fix x tr
      assume "passed (run_of c fd) x tr"
      then show "main_passed (argv ! 1) x (Md_Open (argv ! 1) fd # Md_Caps cap # Md_Alloc True # Md_Alloc True # Md_Ring ret # tr)"
        unfolding main_passed_def passed_def
        by (intro impI exI [of _ cap] exI [of _ c] exI [of _ fd]) (simp add: Inr)
    qed
    have fails: "main_passed path x tr" if "x \<noteq> 0" for path x tr using that by (simp add: main_passed_def)
    show ?thesis
      unfolding Inr sum.case Let_def
      by (intro logs_if logs_syscall_then)
        (auto simp: fails logs_returns split: option.splits
          intro!: logs_syscall_then logs_if body [unfolded One_nat_def] logs_weaken [OF logs_md_exits(1)] logs_weaken [OF logs_md_exits(2)]
            logs_weaken [OF logs_md_exits(3)])
  qed
qed (simp_all add: main_passed_def)

lemma concat_rounds_length: "list_all2 (round_ok c fd n) is rs \<Longrightarrow> length (concat rs) = 4 * length is"
  by (induction rule: list_all2_induct) (auto simp: round_ok_def)

text \<open>
  C25. If \<open>main\<close> returns 0, then the requests it sent to the device it opened and their completions are
  512 passed rounds, in order, and two writes without protection information. In round \<open>i\<close> the patterns
  of the round were in the buffers when the write was submitted and it succeeded; then the same place
  was read, with the same protection information, into a data buffer and a metadata area that had been
  cleared; and when the read had completed, the data buffer held the pattern of the round and the
  metadata passed the check of the round, for the capabilities the device had reported.
\<close>

theorem metadata_pass_sound:
  assumes "md_main S argv w = Inr (0, w')" and "sys_log w = []"
  shows "\<exists>cap c fd rs s0 s1 d m k. Md_Open (argv ! 1) fd \<in> set (sys_log w') \<and> Md_Caps cap \<in> set (sys_log w')
    \<and> init_capabilities cap = Inr c
    \<and> exchanges (sys_log w') = concat rs @ [Md_Submit [s0, s1] d m k]
    \<and> list_all2 (round_ok c fd (DATA_SIZE div unat (lba_size c))) [0..<512] rs
    \<and> sq_write s0 \<and> sq_write s1 \<and> sq_pi s0 = None \<and> sq_pi s1 = None"
proof -
  obtain tr where tr: "sys_log w' = sys_log w @ tr" "main_passed (argv ! 1) 0 tr" by (rule logsD [OF logs_main assms(1)])
  then obtain cap c fd rs d m k where "Md_Open (argv ! 1) fd \<in> set tr" "Md_Caps cap \<in> set tr" "init_capabilities cap = Inr c"
    "list_all2 (run_round_ok (run_of c fd)) [0..<512] rs"
    "exchanges tr = concat rs @ [Md_Submit [last_sqe (run_of c fd) 0, last_sqe (run_of c fd) 1] d m k]"
    unfolding main_passed_def run_ok_def by blast
  then show ?thesis
    using tr(1) assms(2) unfolding run_round_ok_def
    by (intro exI [of _ cap] exI [of _ c] exI [of _ fd] exI [of _ rs] exI [of _ "last_sqe (run_of c fd) 0"]
        exI [of _ "last_sqe (run_of c fd) 1"] exI [of _ d] exI [of _ m] exI [of _ k])
      (simp add: last_sqe_def run_of_def Let_def del: upt_Suc)
qed

section \<open>A device that keeps what was written\<close>

text \<open>A read delivers data and metadata of the last write, when it is for the same place.\<close>

definition delivers :: "md_sqe \<Rightarrow> mem \<Rightarrow> mem \<Rightarrow> mem \<Rightarrow> mem \<Rightarrow> bool" where
  "delivers sqe ds ms d' m' \<longleftrightarrow> (\<forall>a. 0 \<le> a \<and> a < int DATA_SIZE \<longrightarrow> d' a = ds a)
     \<and> (\<forall>q. sq_pi sqe = Some q \<longrightarrow> (\<forall>a. pi_addr q \<le> a \<and> a < pi_addr q + int (unat (pi_len q)) \<longrightarrow> m' a = ms a))"

definition served_request :: "md_sqe \<Rightarrow> mem \<times> mem \<Rightarrow> (md_sqe \<times> mem \<times> mem) option \<Rightarrow> mem \<times> mem \<Rightarrow>
    (md_sqe \<times> mem \<times> mem) option \<Rightarrow> bool" where
  "served_request sqe bufs kept bufs' kept' \<longleftrightarrow>
     (if sq_write sqe then bufs' = bufs \<and> kept' = Some (sqe, bufs)
      else kept' = kept \<and> (\<forall>s ds ms. kept = Some (s, ds, ms) \<and> sq_offset s = sq_offset sqe \<and> sq_pi s = sq_pi sqe
             \<longrightarrow> delivers sqe ds ms (fst bufs') (snd bufs')))"

definition md_faithful :: "'k md_os \<Rightarrow> ('k \<Rightarrow> (md_sqe \<times> mem \<times> mem) option) \<Rightarrow> bool" where
  "md_faithful S kept \<longleftrightarrow>
     (\<forall>k. fst (md_get_sqe S k) \<and> kept (snd (md_get_sqe S k)) = kept k)
     \<and> (\<forall>sqe bufs k. \<exists>r k1 ret res d m k2. md_submit S [sqe] bufs k = (r, k1) \<and> 1 \<le> r
          \<and> md_wait S bufs k1 = ((ret, res, d, m), k2) \<and> 0 \<le> ret \<and> 0 \<le> res
          \<and> served_request sqe bufs (kept k) (d, m) (kept k2))"

lemma transfer_runs:
  assumes "md_faithful S kept"
  obtains bufs' w' where "transfer S sqe bufs w = Inr (Some bufs', w')"
    and "served_request sqe bufs (kept (kst w)) bufs' (kept (kst w'))"
proof -
  obtain k0 where k0: "md_get_sqe S (kst w) = (True, k0)" "kept k0 = kept (kst w)"
  proof (cases "md_get_sqe S (kst w)")
    case (Pair ok k)
    moreover have "fst (md_get_sqe S (kst w))" "kept (snd (md_get_sqe S (kst w))) = kept (kst w)"
      using assms unfolding md_faithful_def by blast+
    ultimately show thesis using that by simp
  qed
  obtain r k1 ret res d m k2 where k: "md_submit S [sqe] bufs k0 = (r, k1)" "1 \<le> r"
    "md_wait S bufs k1 = ((ret, res, d, m), k2)" "0 \<le> ret" "0 \<le> res" "served_request sqe bufs (kept k0) (d, m) (kept k2)"
    using assms unfolding md_faithful_def by metis
  have "\<exists>w'. transfer S sqe bufs w = Inr (Some (d, m), w') \<and> kst w' = k2"
    using k k0 by (simp add: transfer_def andthen_def syscall_def returns_run)
  then show thesis using that k(6) k0(2) by auto
qed

lemma init_data_check: "check_data offset d' = 0" if "\<forall>a. 0 \<le> a \<and> a < int DATA_SIZE \<longrightarrow> d' a = init_data offset d a"
proof -
  have "holds_at (0, data_bytes offset) d' = holds_at (0, data_bytes offset) (init_data offset d)"
    by (rule holds_at_cong) (use that in \<open>simp add: data_bytes_def\<close>)
  then show ?thesis by (simp add: check_data_def init_data_def)
qed

lemma pattern_extent_ok: "md_ok (run_cfg r) \<Longrightarrow> pattern_extent r = int (tx_size r)"
  by (cases "run_intervals r") (auto simp: pattern_extent_def md_ok_def tx_size_def Let_def max_def algebra_simps)

lemma round_passes:
  assumes "md_faithful S kept" and "md_ok (run_cfg r)" and "4 * offset + tx_size r \<le> run_size r"
    and "tx_size r < 2 ^ 31" and "offset < 512" and "run_intervals r \<le> 2 ^ 23"
  shows "\<exists>b w'. md_round S r offset bufs w = Inr (Some b, w')"
proof -
  let ?p = "int offset * 4" and ?c = "run_cfg r" and ?n = "run_intervals r" and ?o = "word_of_nat offset :: u32"
  let ?bufs = "(init_data ?o (fst bufs), init_metadata ?c ?p ?n ?o (snd bufs))"
  have fits: "\<not> int (run_size r) < ?p + pattern_extent r"
    using assms(3) by (simp add: pattern_extent_ok [OF assms(2)] not_less)
  have uo: "unat ?o = offset" using assms(5) by (intro unat_of_nat_small) simp
  have len: "unat (word_of_nat (tx_size r) :: u32) = tx_size r" using assms(4) by (intro unat_of_nat_small) simp
  obtain b1 w1 where 1: "transfer S (round_sqe r offset True) ?bufs w = Inr (Some b1, w1)"
    "served_request (round_sqe r offset True) ?bufs (kept (kst w)) b1 (kept (kst w1))"
    by (rule transfer_runs [OF assms(1)])
  then have b1: "b1 = ?bufs" "kept (kst w1) = Some (round_sqe r offset True, ?bufs)"
    by (simp_all add: served_request_def round_sqe_def)
  obtain w2 where 2: "emit Md_Seen w1 = Inr ((), w2)" "kst w2 = kst w1" by (simp add: emit_def)
  let ?cleared = "(zero_at 0 DATA_SIZE (fst b1), zero_at ?p (tx_size r) (snd b1))"
  obtain b3 w3 where 3: "transfer S (round_sqe r offset False) ?cleared w2 = Inr (Some b3, w3)"
    "served_request (round_sqe r offset False) ?cleared (kept (kst w2)) b3 (kept (kst w3))"
    by (rule transfer_runs [OF assms(1)])
  obtain d' m' where b3: "b3 = (d', m')" by (cases b3)
  have "delivers (round_sqe r offset False) (fst ?bufs) (snd ?bufs) d' m'"
    using 3(2) by (simp add: served_request_def 2(2) b1 b3 round_sqe_def)
  then have d: "\<forall>a. 0 \<le> a \<and> a < int DATA_SIZE \<longrightarrow> d' a = init_data ?o (fst bufs) a"
    and m: "\<forall>a. ?p \<le> a \<and> a < ?p + int (tx_size r) \<longrightarrow> m' a = init_metadata ?c ?p ?n ?o (snd bufs) a"
    using len by (simp_all add: delivers_def round_sqe_def del: of_nat_unat)
  have "check_data ?o d' = 0" by (rule init_data_check [OF d])
  moreover have "check_metadata ?c ?p ?n ?o m' = 0"
    by (rule check_metadata_written [OF assms(2), where m = "snd bufs"]) (use m assms(5,6) uo in \<open>simp_all add: tx_size_def\<close>)
  ultimately show ?thesis
    using 1(1) 2(1) 3(1) unfolding md_round_def Let_def if_not_P [OF fits]
    by (simp add: andthen_def b1 b3 emit_def returns_run)
qed

lemma rounds_pass:
  assumes "md_faithful S kept" and "md_ok (run_cfg r)" and "2044 + tx_size r \<le> run_size r"
    and "tx_size r < 2 ^ 31" and "run_intervals r \<le> 2 ^ 23"
  shows "\<forall>i \<in> set offsets. i < 512 \<Longrightarrow> \<exists>b w'. md_rounds S r offsets bufs w = Inr (Some b, w')"
proof (induction offsets arbitrary: bufs w)
  case (Cons offset offsets)
  then have o: "4 * offset + tx_size r \<le> run_size r" "offset < 512" using assms(3) by simp_all
  obtain b w' where "md_round S r offset bufs w = Inr (Some b, w')"
    using round_passes [OF assms(1,2) o(1) assms(4) o(2) assms(5)] by blast
  then show ?case using Cons by (simp add: andthen_def)
qed (simp add: returns_run)

lemma run_of_sizes:
  assumes "tx_size (run_of c fd) < 2 ^ 30"
  shows "run_size (run_of c fd) = 2 * tx_size (run_of c fd)" and "run_intervals (run_of c fd) \<le> 2 ^ 23"
proof -
  let ?tx = "tx_size (run_of c fd)"
  have tx: "?tx = DATA_SIZE div unat (lba_size c) * unat (metadata_size c)"
    by (simp add: tx_size_def run_of_def Let_def)
  have u: "unat (word_of_nat (?tx * 2) :: s32) = ?tx * 2" using assms by (intro unat_of_nat_small) simp
  have "run_size (run_of c fd) = unat (scast (word_of_nat (?tx * 2) :: s32) :: u64)"
    unfolding tx by (simp only: run_of_def Let_def md_run.select_convs)
  also have "\<dots> = ?tx * 2"
  proof -
    have "?tx * 2 < 2 ^ 31" using assms by simp
    then show ?thesis using unat_scast_u32_small [of "word_of_nat (?tx * 2)"] by (simp only: u)
  qed
  finally show "run_size (run_of c fd) = 2 * ?tx" by simp
  have "DATA_SIZE div unat (lba_size c) \<le> DATA_SIZE" by (rule div_le_dividend)
  then show "run_intervals (run_of c fd) \<le> 2 ^ 23" by (simp add: run_of_def Let_def DATA_SIZE_def)
qed

text \<open>
  C26. On a device that keeps data and metadata as written, with protection information that fits the
  metadata of an interval and at least 2044 bytes of metadata per transfer, all 512 rounds pass and
  stay inside the metadata buffer.
\<close>

theorem metadata_faithful_passes:
  assumes "md_faithful S kept" and "md_ok c"
    and "2044 \<le> tx_size (run_of c fd)" and "tx_size (run_of c fd) < 2 ^ 30"
  shows "\<exists>b w'. md_rounds S (run_of c fd) [0..<512] bufs w = Inr (Some b, w')"
proof (rule rounds_pass [OF assms(1)])
  show "md_ok (run_cfg (run_of c fd))" using assms(2) by (simp add: run_of_def Let_def)
  show "2044 + tx_size (run_of c fd) \<le> run_size (run_of c fd)"
    using run_of_sizes(1) [OF assms(4)] assms(3) by simp
qed (use run_of_sizes [OF assms(4)] assms(4) in simp_all)

text \<open>With less metadata per transfer the last round writes behind the end of the buffer.\<close>

lemma metadata_small_buffer_overrun:
  assumes "md_ok c" and "tx_size (run_of c fd) < 2044"
  shows "md_round S (run_of c fd) 511 bufs w = Inl (Fault Out_Of_Bounds)"
proof -
  have "pattern_extent (run_of c fd) = int (tx_size (run_of c fd))"
    by (rule pattern_extent_ok) (simp add: run_of_def Let_def assms(1))
  moreover have "run_size (run_of c fd) = 2 * tx_size (run_of c fd)"
    by (rule run_of_sizes) (use assms(2) in simp)
  ultimately show ?thesis using assms(2) by (simp add: md_round_def Let_def halt_run)
qed

text \<open>A device that keeps the last write, for concrete runs.\<close>

type_synonym kept_state = "(md_sqe \<times> mem \<times> mem) option \<times> md_sqe option"

definition serve_kept :: "mem \<times> mem \<Rightarrow> kept_state \<Rightarrow> (int \<times> int \<times> mem \<times> mem) \<times> kept_state" where
  "serve_kept bufs k = (case k of
     (l, Some s) \<Rightarrow> if sq_write s then ((0, 0, bufs), (Some (s, bufs), None))
       else (case l of None \<Rightarrow> ((0, 0, bufs), (l, None)) | Some (s', bufs') \<Rightarrow> ((0, 0, bufs'), (l, None)))
   | (l, None) \<Rightarrow> ((0, 0, bufs), (l, None)))"

definition kept_dev :: "kept_state md_os" where
  "kept_dev = \<lparr>md_open = (\<lambda>_ k. (3, k)),
     md_getcap = (\<lambda>_ k. (Inr \<lparr>lbmd_flags = 2, lbmd_interval = 512, lbmd_size = 64, lbmd_pi_size = 16, lbmd_pi_offset = 48\<rparr>, k)),
     md_memalign = (\<lambda>_ k. (Some (\<lambda>_. 0), k)), md_queue_init = (\<lambda>k. (0, k)), md_get_sqe = (\<lambda>k. (True, k)),
     md_submit = (\<lambda>sqes _ k. (int (length sqes), (fst k, Some (hd sqes)))), md_wait = serve_kept,
     md_wait_nr = (\<lambda>_ k. (0, k))\<rparr>"

lemma kept_dev_fields:
  "md_open kept_dev p k = (3, k)"
  "md_getcap kept_dev fd k =
     (Inr \<lparr>lbmd_flags = 2, lbmd_interval = 512, lbmd_size = 64, lbmd_pi_size = 16, lbmd_pi_offset = 48\<rparr>, k)"
  "md_memalign kept_dev n k = (Some (\<lambda>_. 0), k)" "md_queue_init kept_dev k = (0, k)"
  by (simp_all add: kept_dev_def)

lemma kept_dev_faithful: "md_faithful kept_dev fst"
proof -
  have "\<exists>r k1 ret res d m k2. md_submit kept_dev [sqe] bufs k = (r, k1) \<and> 1 \<le> r
      \<and> md_wait kept_dev bufs k1 = ((ret, res, d, m), k2) \<and> 0 \<le> ret \<and> 0 \<le> res
      \<and> served_request sqe bufs (fst k) (d, m) (fst k2)" for sqe bufs k
    by (cases "fst k"; cases bufs) (auto simp: kept_dev_def serve_kept_def served_request_def delivers_def)
  then show ?thesis by (simp add: md_faithful_def) (simp add: kept_dev_def)
qed

lemma demo_tx: "tx_size (run_of demo_cfg fd) = 1048576"
  by (simp add: tx_size_def run_of_def Let_def demo_cfg_def DATA_SIZE_def)

theorem metadata_faithful_passes_witness:
  "\<exists>b w'. md_rounds kept_dev (run_of demo_cfg 3) [0..<512] (\<lambda>_. 0, \<lambda>_. 0) \<lparr>kst = (None, None), sys_log = []\<rparr> = Inr (Some b, w')"
  by (rule metadata_faithful_passes [OF kept_dev_faithful md_ok_demo]) (simp_all add: demo_tx)

lemma demo_main_returns_0: "\<exists>w'. md_main kept_dev [''metadata'', ''/dev/nvme0n1''] \<lparr>kst = (None, None), sys_log = []\<rparr> = Inr (0, w')"
proof -
  have c: "init_capabilities (Inr \<lparr>lbmd_flags = 2, lbmd_interval = 512, lbmd_size = 64, lbmd_pi_size = 16, lbmd_pi_offset = 48\<rparr>)
      = Inr demo_cfg"
    by (simp add: init_capabilities_def demo_cfg_def LBMD_PI_CAP_REFTAG_def)
  have rounds: "\<exists>b w'. md_rounds kept_dev (run_of demo_cfg 3) [0..<512] bufs w = Inr (Some b, w')" for bufs w
    by (rule rounds_pass [OF kept_dev_faithful])
      (use run_of_sizes [of demo_cfg 3] in \<open>simp_all add: demo_tx\<close>, simp_all add: run_of_def Let_def)
  have lasts: "\<exists>w'. last_writes kept_dev r bufs w = Inr (0, w')" for r bufs w
    by (simp add: last_writes_def kept_dev_def andthen_def syscall_def)
  have body: "\<exists>w'. md_body kept_dev (run_of demo_cfg 3) bufs w = Inr (0, w')" for bufs w
  proof -
    obtain d m w1 where 1: "md_rounds kept_dev (run_of demo_cfg 3) [0..<512] bufs w = Inr (Some (d, m), w1)"
      using rounds [of bufs w] by auto
    obtain w2 where 2: "last_writes kept_dev (run_of demo_cfg 3) (zero_at 0 DATA_SIZE d, m) w1 = Inr (0, w2)"
      using lasts by blast
    show ?thesis
      unfolding md_body_def andthen_value [where m = "md_rounds kept_dev (run_of demo_cfg 3) [0..<512] bufs", OF 1] option.case prod.case
        andthen_value [where m = "last_writes kept_dev (run_of demo_cfg 3) (zero_at 0 DATA_SIZE d, m)", OF 2]
      by (simp add: andthen_def md_ring_exit_def md_cleanup_def md_free_def md_close_def emit_def returns_run)
  qed
  have ne: "lba_size demo_cfg \<noteq> 0" "metadata_size demo_cfg \<noteq> 0" by (simp_all add: demo_cfg_def)
  show ?thesis
    unfolding md_main_def Let_def using body ne
    by (simp add: andthen_def syscall_def kept_dev_fields c)
qed

theorem metadata_pass_sound_witness:
  "\<exists>w'. md_main kept_dev [''metadata'', ''/dev/nvme0n1''] \<lparr>kst = (None, None), sys_log = []\<rparr> = Inr (0, w')
     \<and> length (exchanges (sys_log w')) = 2049"
proof -
  obtain w' where w: "md_main kept_dev [''metadata'', ''/dev/nvme0n1''] \<lparr>kst = (None, None), sys_log = []\<rparr> = Inr (0, w')"
    using demo_main_returns_0 by blast
  obtain cap c fd rs s0 s1 d m k where e: "exchanges (sys_log w') = concat rs @ [Md_Submit [s0, s1] d m k]"
    and r: "list_all2 (round_ok c fd (DATA_SIZE div unat (lba_size c))) [0..<512] rs"
    using metadata_pass_sound [OF w] by auto
  show ?thesis using w e concat_rounds_length [OF r] by auto
qed

end
