(* ===== verification/Dio_Offsets.thy ===== *)
theory Dio_Offsets
  imports Byte_Mem C_Lib Sys_Prog "HOL-Library.Signed_Division"
begin

text \<open>
  \<open>dio-offsets.c\<close>: direct I/O with vectors at unusual places of two buffers. The model keeps the
  static variables as a record, the buffers as byte memories addressed from their start, and
  the system calls as a parameter. A vector that reaches outside its buffer is a fault.
\<close>

section \<open>State and system\<close>

record dio =
  test_fd :: int
  logical_block_size :: u64
  dma_alignment :: u64
  virt_boundary :: u64
  max_segments :: u64
  max_bytes :: u64
  buf_size :: u64
  pagesize :: u64
  out_buf :: mem
  in_buf :: mem

definition dio_static :: dio where
  "dio_static = \<lparr>test_fd = 0, logical_block_size = 0, dma_alignment = 0, virt_boundary = 0, max_segments = 0,
     max_bytes = 0, buf_size = 0, pagesize = 0, out_buf = (\<lambda>_. 0), in_buf = (\<lambda>_. 0)\<rparr>"

text \<open>The base of a vector to write: NULL or a place in one of the buffers. Reads go to \<open>in_buf\<close>.\<close>

datatype iov_base = Null_Base | Out_At int | In_At int

type_synonym iovec = "iov_base \<times> u64"
type_synonym extent = "int \<times> u64"

text \<open>
  The calls, with the value the program stores in \<open>int ret\<close> as their result. \<open>dio_memalign\<close>
  gives the content of the new buffer, \<open>dio_read\<close> and \<open>dio_preadv\<close> the content of the buffer
  afterwards; \<open>pread\<close> and \<open>pwrite\<close> are the vectored calls with one vector. All transfers of the
  program start at offset 0 of the file.
\<close>

record 'k dio_os =
  dio_open :: "string \<Rightarrow> 'k \<Rightarrow> int \<times> 'k"
  dio_page_size :: u64
  dio_blkgetsize64 :: "int \<Rightarrow> 'k \<Rightarrow> u64 option \<times> 'k"
  dio_memalign :: "u64 \<Rightarrow> u64 \<Rightarrow> 'k \<Rightarrow> mem option \<times> 'k"
  dio_read :: "int \<Rightarrow> u64 \<Rightarrow> mem \<Rightarrow> 'k \<Rightarrow> (int \<times> mem) \<times> 'k"
  dio_pwritev :: "int \<Rightarrow> iovec list \<Rightarrow> mem \<Rightarrow> mem \<Rightarrow> 'k \<Rightarrow> int \<times> 'k"
  dio_preadv :: "int \<Rightarrow> extent list \<Rightarrow> mem \<Rightarrow> 'k \<Rightarrow> (int \<times> mem) \<times> 'k"

datatype dio_event =
    Dio_Opened string int
  | Dio_Sized "u64 option"
  | Dio_Allocated bool
  | Dio_Randomized int
  | Dio_Written "iovec list" int
  | Dio_Read "extent list" int
  | Dio_Closed int
  | Dio_Freed

type_synonym ('k, 'a) dio_prog = "('k, dio_event, 'a) sys_prog"

text \<open>\<open>err\<close> and \<open>err_errno\<close> end the program with \<open>EXIT_FAILURE\<close>.\<close>

abbreviation err :: "('k, 'a) dio_prog" where "err \<equiv> halt (Exit 1)"

text \<open>An unsigned long assigned to an \<open>int\<close>.\<close>

definition c_int :: "u64 \<Rightarrow> int" where "c_int w = sint (ucast w :: s32)"

section \<open>Set-up\<close>

definition power_of_2 :: "u64 \<Rightarrow> bool" where
  "power_of_2 x \<longleftrightarrow> x \<noteq> 0 \<and> \<not> x AND (x - 1) \<noteq> 0"

text \<open>An argument of the program; \<open>argv[argc]\<close> is NULL and nothing may be read after it.\<close>

definition argument :: "string list \<Rightarrow> nat \<Rightarrow> ('k, string) dio_prog" where
  "argument argv i = (if i < length argv then returns (argv ! i)
     else if i = length argv then halt (Fault Null_Deref) else halt (Fault Out_Of_Bounds))"

definition good_params :: "dio \<Rightarrow> bool" where
  "good_params d \<longleftrightarrow>
     (power_of_2 (virt_boundary d) \<and> power_of_2 (dma_alignment d) \<and> power_of_2 (logical_block_size d))
     \<and> \<not> (1 < virt_boundary d \<and> virt_boundary d < logical_block_size d)
     \<and> \<not> logical_block_size d < dma_alignment d"

definition clamp_params :: "dio \<Rightarrow> dio" where
  "clamp_params d =
     (let d1 = (if 4096 < max_segments d then d\<lparr>max_segments := 4096\<rparr> else d);
          d2 = (if 16384 * 1024 < max_bytes d1 then d1\<lparr>max_bytes := 16384 * 1024\<rparr> else d1);
          rest = max_bytes d2 AND (logical_block_size d2 - 1)
      in if rest \<noteq> 0 then d2\<lparr>max_bytes := max_bytes d2 - rest\<rparr> else d2)"

definition init_args :: "'k dio_os \<Rightarrow> string list \<Rightarrow> ('k, dio) dio_prog" where
  "init_args S argv =
     andthen (argument argv 1) (\<lambda>path.
     andthen (syscall (dio_open S path) (Dio_Opened path)) (\<lambda>fd.
     if fd < 0 then err else
     andthen (argument argv 2) (\<lambda>a2. andthen (argument argv 3) (\<lambda>a3. andthen (argument argv 4) (\<lambda>a4.
     andthen (argument argv 5) (\<lambda>a5. andthen (argument argv 6) (\<lambda>a6.
       let d = dio_static\<lparr>test_fd := fd, max_segments := strtoul 0 a2, max_bytes := strtoul 0 a3 * 1024,
             dma_alignment := strtoul 0 a4 + 1, virt_boundary := strtoul 0 a5 + 1,
             logical_block_size := strtoul 0 a6\<rparr>
       in if \<not> good_params d then err
          else returns ((clamp_params d)\<lparr>pagesize := dio_page_size S\<rparr>))))))))"

text \<open>The size of the buffers before the device is asked for its size.\<close>

definition wanted_size :: "dio \<Rightarrow> u64 option" where
  "wanted_size d =
     (let lb_mask = logical_block_size d - 1;
          size0 = max_bytes d * max_segments d div 2;
          size1 = (if size0 < logical_block_size d * 1024 * 4 then logical_block_size d * 1024 * 4 else size0)
      in if size0 < logical_block_size d * max_segments d then None
         else Some (if size1 AND lb_mask \<noteq> 0 then (size1 + lb_mask) AND NOT lb_mask else size1))"

definition init_buffers :: "'k dio_os \<Rightarrow> dio \<Rightarrow> ('k, dio) dio_prog" where
  "init_buffers S d =
     (case wanted_size d of None \<Rightarrow> err | Some wanted \<Rightarrow>
     andthen (syscall (dio_blkgetsize64 S (test_fd d)) Dio_Sized) (\<lambda>r. case r of None \<Rightarrow> err | Some dev_bytes \<Rightarrow>
     let d1 = d\<lparr>buf_size := (if dev_bytes < wanted then dev_bytes else wanted)\<rparr> in
     andthen (syscall (dio_memalign S (pagesize d1) (buf_size d1)) (Dio_Allocated \<circ> (\<lambda>b. b \<noteq> None))) (\<lambda>r1.
     case r1 of None \<Rightarrow> err | Some inb \<Rightarrow>
     andthen (syscall (dio_memalign S (pagesize d1) (buf_size d1)) (Dio_Allocated \<circ> (\<lambda>b. b \<noteq> None))) (\<lambda>r2.
     case r2 of None \<Rightarrow> err | Some outb \<Rightarrow>
     andthen (syscall (dio_open S ''/dev/urandom'') (Dio_Opened ''/dev/urandom'')) (\<lambda>fd.
     if fd < 0 then err else
     andthen (syscall (dio_read S fd (buf_size d1) outb) (Dio_Randomized \<circ> fst)) (\<lambda>(ret, outb').
     if ret < 0 then err else
     andthen (emit (Dio_Closed fd)) (\<lambda>_. returns (d1\<lparr>in_buf := inb, out_buf := outb'\<rparr>))))))))"

section \<open>Transfers and comparison\<close>

definition in_range :: "dio \<Rightarrow> extent \<Rightarrow> bool" where
  "in_range d x \<longleftrightarrow> 0 \<le> fst x \<and> fst x + uint (snd x) \<le> uint (buf_size d)"

fun vec_ok :: "dio \<Rightarrow> iovec \<Rightarrow> bool" where
  "vec_ok d (Null_Base, n) \<longleftrightarrow> True"
| "vec_ok d (Out_At p, n) \<longleftrightarrow> in_range d (p, n)"
| "vec_ok d (In_At p, n) \<longleftrightarrow> in_range d (p, n)"

definition pwritev :: "'k dio_os \<Rightarrow> dio \<Rightarrow> iovec list \<Rightarrow> ('k, int) dio_prog" where
  "pwritev S d iov =
     (if list_all (vec_ok d) iov
      then syscall (dio_pwritev S (test_fd d) iov (out_buf d) (in_buf d)) (Dio_Written iov)
      else halt (Fault Out_Of_Bounds))"

definition preadv :: "'k dio_os \<Rightarrow> dio \<Rightarrow> extent list \<Rightarrow> ('k, int \<times> dio) dio_prog" where
  "preadv S d xs =
     (if list_all (in_range d) xs
      then andthen (syscall (dio_preadv S (test_fd d) xs (in_buf d)) (Dio_Read xs \<circ> fst))
             (\<lambda>(ret, m). returns (ret, d\<lparr>in_buf := m\<rparr>))
      else halt (Fault Out_Of_Bounds))"

text \<open>\<open>memset(in_buf, 0, buf_size)\<close>.\<close>

definition clear_in :: "dio \<Rightarrow> dio" where
  "clear_in d = d\<lparr>in_buf := (\<lambda>a. if 0 \<le> a \<and> a < uint (buf_size d) then 0 else in_buf d a)\<rparr>"

text \<open>\<open>compare\<close> is always called with the same offset in both buffers.\<close>

definition same_at :: "dio \<Rightarrow> extent \<Rightarrow> bool" where
  "same_at d x \<longleftrightarrow> (\<forall>j < unat (snd x). out_buf d (fst x + int j) = in_buf d (fst x + int j))"

definition compare :: "dio \<Rightarrow> extent \<Rightarrow> ('k, unit) dio_prog" where
  "compare d x = (if \<not> in_range d x then halt (Fault Out_Of_Bounds) else if same_at d x then returns () else err)"

fun compare_all :: "dio \<Rightarrow> extent list \<Rightarrow> ('k, dio) dio_prog" where
  "compare_all d [] = returns d"
| "compare_all d (x # xs) = andthen (compare d x) (\<lambda>_. compare_all d xs)"

definition out_vecs :: "extent list \<Rightarrow> iovec list" where
  "out_vecs = map (\<lambda>(p, n). (Out_At p, n))"

definition in_vecs :: "extent list \<Rightarrow> iovec list" where
  "in_vecs = map (\<lambda>(p, n). (In_At p, n))"

text \<open>The second half of the tests: read back, give up on an error, compare.\<close>

definition read_back :: "'k dio_os \<Rightarrow> dio \<Rightarrow> extent list \<Rightarrow> extent list \<Rightarrow> ('k, dio) dio_prog" where
  "read_back S d xs cmp =
     andthen (preadv S d xs) (\<lambda>(ret, d'). if ret < 0 then err else compare_all d' cmp)"

text \<open>The tests that must succeed.\<close>

definition must_pass :: "'k dio_os \<Rightarrow> dio \<Rightarrow> extent list \<Rightarrow> ('k, dio) dio_prog" where
  "must_pass S d xs =
     andthen (pwritev S d (out_vecs xs)) (\<lambda>ret. if ret < 0 then err else read_back S d xs xs)"

text \<open>The tests that fail or succeed depending on the device.\<close>

definition may_fail :: "'k dio_os \<Rightarrow> dio \<Rightarrow> bool \<Rightarrow> extent list \<Rightarrow> ('k, dio) dio_prog \<Rightarrow> ('k, dio) dio_prog" where
  "may_fail S d should_fail xs rest =
     andthen (pwritev S d (out_vecs xs)) (\<lambda>ret.
       if ret < 0 then (if should_fail then returns d else err)
       else if should_fail then err else rest)"

text \<open>The tests that must be refused.\<close>

definition must_fail :: "'k dio_os \<Rightarrow> dio \<Rightarrow> iovec list \<Rightarrow> ('k, dio) dio_prog" where
  "must_fail S d iov = andthen (pwritev S d iov) (\<lambda>ret. if ret < 0 then returns d else err)"

section \<open>The tests\<close>

definition test_full_size_aligned :: "'k dio_os \<Rightarrow> dio \<Rightarrow> ('k, dio) dio_prog" where
  "test_full_size_aligned S d = must_pass S (clear_in d) [(0, buf_size d)]"

definition test_dma_aligned :: "'k dio_os \<Rightarrow> dio \<Rightarrow> ('k, dio) dio_prog" where
  "test_dma_aligned S d = must_pass S (clear_in d) [(uint (dma_alignment d), max_bytes d)]"

definition page_aligned_vectors :: "dio \<Rightarrow> extent list" where
  "page_aligned_vectors d =
     map (\<lambda>i. (c_int (logical_block_size d * word_of_nat i * 4), logical_block_size d * 2)) [0..<4]"

definition test_page_aligned_vectors :: "'k dio_os \<Rightarrow> dio \<Rightarrow> ('k, dio) dio_prog" where
  "test_page_aligned_vectors S d = must_pass S (clear_in d) (page_aligned_vectors d)"

definition dma_aligned_vectors :: "dio \<Rightarrow> extent list" where
  "dma_aligned_vectors d =
     map (\<lambda>i. (c_int (logical_block_size d * word_of_nat i * 8 + dma_alignment d * (word_of_nat i + 1)),
               logical_block_size d * 2)) [0..<4]"

definition test_dma_aligned_vectors :: "'k dio_os \<Rightarrow> dio \<Rightarrow> ('k, dio) dio_prog" where
  "test_dma_aligned_vectors S d = must_pass S (clear_in d) (dma_aligned_vectors d)"

text \<open>
  The first vector ends at the page boundary, the two in the middle are whole pages (or two
  blocks), the last one brings the total to a multiple of the block size. The lengths of the
  vectors are \<open>size_t\<close>; \<open>pagesize - offset\<close> is computed in \<open>long\<close>.
\<close>

definition page_mult :: "dio \<Rightarrow> int" where
  "page_mult d = (let mult = c_int (pagesize d div logical_block_size d) in if mult < 2 then 2 else mult)"

definition head_offset :: "dio \<Rightarrow> int" where
  "head_offset d =
     (let offset = c_int (pagesize d - logical_block_size d div 4)
      in if word_of_int offset AND (dma_alignment d - 1) \<noteq> 0 then c_int (pagesize d - dma_alignment d) else offset)"

definition unaligned_page_vectors :: "dio \<Rightarrow> extent list" where
  "unaligned_page_vectors d =
     (let mult = word_of_int (page_mult d);
          at = (\<lambda>i. c_int (logical_block_size d * word_of_nat i * 8 * mult));
          head = pagesize d - word_of_int (head_offset d)
      in [(head_offset d, head), (at 1, logical_block_size d * mult), (at 2, logical_block_size d * mult),
          (at 3, logical_block_size d * mult - head)])"

definition test_unaligned_page_vectors :: "'k dio_os \<Rightarrow> dio \<Rightarrow> ('k, dio) dio_prog" where
  "test_unaligned_page_vectors S d =
     (let d' = clear_in d; xs = unaligned_page_vectors d in
      if logical_block_size d = 0 then halt (Fault Div_By_Zero)
      else andthen (pwritev S d' (out_vecs xs)) (\<lambda>ret. if ret < 0 then returns d' else read_back S d' xs xs))"

definition unaligned_vectors :: "dio \<Rightarrow> extent list" where
  "unaligned_vectors d =
     map (\<lambda>i. (c_int (logical_block_size d * word_of_nat i * 8), logical_block_size d div 2)) [0..<4]"

definition test_unaligned_vectors :: "'k dio_os \<Rightarrow> dio \<Rightarrow> ('k, dio) dio_prog" where
  "test_unaligned_vectors S d =
     (let d' = clear_in d; xs = unaligned_vectors d in
      andthen (pwritev S d' (out_vecs xs)) (\<lambda>ret. if ret < 0 then returns d' else read_back S d' xs xs))"

definition invalid_start_vectors :: "dio \<Rightarrow> iovec list" where
  "invalid_start_vectors d =
     (Null_Base, logical_block_size d) #
     map (\<lambda>i. (Out_At (c_int (logical_block_size d * word_of_nat i * 8)), logical_block_size d)) [1..<4]"

definition test_invalid_starting_addr :: "'k dio_os \<Rightarrow> dio \<Rightarrow> ('k, dio) dio_prog" where
  "test_invalid_starting_addr S d = must_fail S d (invalid_start_vectors d)"

definition invalid_middle_vectors :: "dio \<Rightarrow> iovec list" where
  "invalid_middle_vectors d =
     (let vec = (\<lambda>i. (Out_At (c_int (logical_block_size d * word_of_nat i * 2)), logical_block_size d))
      in map vec [0..<1024 div 2 + 1] @ [(Null_Base, logical_block_size d)] @ map vec [1024 div 2 + 2..<1024])"

definition test_invalid_middle_addr :: "'k dio_os \<Rightarrow> dio \<Rightarrow> ('k, dio) dio_prog" where
  "test_invalid_middle_addr S d = must_fail S d (invalid_middle_vectors d)"

definition test_invalid_dma_alignment :: "'k dio_os \<Rightarrow> dio \<Rightarrow> ('k, dio) dio_prog" where
  "test_invalid_dma_alignment S d =
     (let d' = clear_in d; should_fail = (1 < dma_alignment d);
          xs = [(c_int (2 * dma_alignment d - 1), logical_block_size d * 256)]
      in may_fail S d' should_fail xs (read_back S d' xs xs))"

definition dma_alignment_vectors :: "dio \<Rightarrow> extent list" where
  "dma_alignment_vectors d =
     (let offset = c_int (dma_alignment d * 2 - 1)
      in [(0, max_bytes d), (uint (max_bytes d * 2), max_bytes d), (uint (max_bytes d * 4) + offset, max_bytes d),
          (uint (max_bytes d * 6), max_bytes d), (uint (max_bytes d * 8), max_bytes d)])"

definition test_invalid_dma_vector_alignment :: "'k dio_os \<Rightarrow> dio \<Rightarrow> ('k, dio) dio_prog" where
  "test_invalid_dma_vector_alignment S d =
     (let d' = clear_in d; xs = dma_alignment_vectors d
      in may_fail S d' (1 < dma_alignment d) xs (read_back S d' xs xs))"

text \<open>Both divisions trap when the divisor has been truncated to 0.\<close>

definition max_vector_size :: "dio \<Rightarrow> int" where
  "max_vector_size d = c_int (logical_block_size d div word_of_int (c_int (logical_block_size d div dma_alignment d)))"

definition max_vector_extents :: "dio \<Rightarrow> extent list" where
  "max_vector_extents d =
     map (\<lambda>i. (sint (word_of_int (int i * max_vector_size d * 2) :: s32), word_of_int (max_vector_size d))) [0..<320]"

definition test_max_vector_limits :: "'k dio_os \<Rightarrow> dio \<Rightarrow> ('k, dio) dio_prog" where
  "test_max_vector_limits S d =
     (let d' = clear_in d; iov_size = max_vector_size d; xs = max_vector_extents d in
      if dma_alignment d = 0 \<or> c_int (logical_block_size d div dma_alignment d) = 0 \<or> iov_size = 0
      then halt (Fault Div_By_Zero)
      else let should_fail = \<not> (sint (pagesize d) sdiv iov_size < 256 \<and> virt_boundary d \<le> word_of_int iov_size)
      in may_fail S d' should_fail xs
           (read_back S d' xs (map (\<lambda>(p, n). (p, logical_block_size d div 2)) xs)))"

definition dma_alignment_large_vectors :: "dio \<Rightarrow> extent list" where
  "dma_alignment_large_vectors d =
     (let second = uint (max_bytes d + logical_block_size d)
      in [(0, max_bytes d - logical_block_size d), (second, logical_block_size d),
          (second + uint (pagesize d * 2) + uint (dma_alignment d - 1), logical_block_size d),
          (uint (max_bytes d * 8), logical_block_size d)])"

definition test_invalid_dma_vector_alignment_large :: "'k dio_os \<Rightarrow> dio \<Rightarrow> ('k, dio) dio_prog" where
  "test_invalid_dma_vector_alignment_large S d = must_fail S d (out_vecs (dma_alignment_large_vectors d))"

definition vector_length_extents :: "dio \<Rightarrow> extent list" where
  "vector_length_extents d =
     [(0, max_bytes d * 2 - max_bytes d div 2),
      (uint (max_bytes d * 4), logical_block_size d * 2 - (dma_alignment d + 1)),
      (uint (max_bytes d * 8), logical_block_size d * 2 + (dma_alignment d + 1)),
      (uint (max_bytes d * 12), max_bytes d - max_bytes d div 2)]"

text \<open>The second transfer of this test is a write again.\<close>

definition test_invalid_dma_vector_length :: "'k dio_os \<Rightarrow> dio \<Rightarrow> ('k, dio) dio_prog" where
  "test_invalid_dma_vector_length S d =
     (let xs = vector_length_extents d in
      may_fail S d (1 < dma_alignment d) xs
        (andthen (pwritev S d (in_vecs xs)) (\<lambda>ret. if ret < 0 then err else compare_all d xs)))"

section \<open>The program\<close>

fun run_list :: "('k dio_os \<Rightarrow> dio \<Rightarrow> ('k, dio) dio_prog) list \<Rightarrow> 'k dio_os \<Rightarrow> dio \<Rightarrow> ('k, dio) dio_prog" where
  "run_list [] S d = returns d"
| "run_list (t # ts) S d = andthen (t S d) (run_list ts S)"

definition run_tests :: "'k dio_os \<Rightarrow> dio \<Rightarrow> ('k, dio) dio_prog" where
  "run_tests = run_list
     [test_full_size_aligned, test_dma_aligned, test_page_aligned_vectors, test_dma_aligned_vectors,
      test_unaligned_page_vectors, test_unaligned_vectors, test_invalid_starting_addr, test_invalid_middle_addr,
      test_invalid_dma_alignment, test_invalid_dma_vector_alignment, test_max_vector_limits,
      test_invalid_dma_vector_alignment_large, test_invalid_dma_vector_length]"

definition dio_main :: "'k dio_os \<Rightarrow> string list \<Rightarrow> ('k, int) dio_prog" where
  "dio_main S argv =
     (if length argv < 2 then halt (Exit EINVAL)
      else andthen (init_args S argv) (\<lambda>d0. andthen (init_buffers S d0) (\<lambda>d1. andthen (run_tests S d1) (\<lambda>d2.
           andthen (emit (Dio_Closed (test_fd d2))) (\<lambda>_.
           andthen (emit Dio_Freed) (\<lambda>_. andthen (emit Dio_Freed) (\<lambda>_. returns 0)))))))"

end
