(* ===== verification/Dio_Bounds.thy ===== *)
theory Dio_Bounds
  imports Dio_Offsets
begin

text \<open>
  The vectors of \<open>dio-offsets.c\<close> as natural numbers: under the limits of \<open>roomy\<close> no computation
  wraps, no \<open>int\<close> is truncated, and every vector and every comparison lies inside the buffers.
\<close>

section \<open>Sizes without overflow\<close>

definition roomy :: "dio \<Rightarrow> bool" where
  "roomy d \<longleftrightarrow>
     (\<exists>l m p. logical_block_size d = 2 ^ l \<and> dma_alignment d = 2 ^ m \<and> pagesize d = 2 ^ p
        \<and> m \<le> l \<and> m \<le> p \<and> l \<le> 16 \<and> l \<le> p + 2 \<and> 12 \<le> p \<and> p \<le> 16)
     \<and> unat (logical_block_size d) \<le> unat (max_bytes d) \<and> 13 * unat (max_bytes d) \<le> unat (buf_size d)
     \<and> 4096 * unat (logical_block_size d) \<le> unat (buf_size d) \<and> 25 * unat (pagesize d) \<le> unat (buf_size d)"

lemma c_int_of_nat: "n < 2 ^ 31 \<Longrightarrow> c_int (word_of_nat n) = int n"
  by (simp add: c_int_def unsigned_of_nat take_bit_nat_eq_self sint_u32_small)

lemma uint_of_nat_u64: "n < 2 ^ 64 \<Longrightarrow> uint (word_of_nat n :: u64) = int n"
  by (simp add: uint_nat unat_of_nat_small)

lemma word_of_nat_div: "a < 2 ^ 64 \<Longrightarrow> b < 2 ^ 64 \<Longrightarrow> (word_of_nat a div word_of_nat b :: u64) = word_of_nat (a div b)"
  by (simp add: word_eq_iff_unsigned [where ?'a = nat]) (simp add: unat_div unat_of_nat_small le_less_trans [OF div_le_dividend])

lemma word_of_nat_diff: "b \<le> a \<Longrightarrow> (word_of_nat a - word_of_nat b :: u64) = word_of_nat (a - b)"
  by (simp add: of_nat_diff)

text \<open>The sizes of a roomy state.\<close>

definition sizes :: "dio \<Rightarrow> nat \<Rightarrow> nat \<Rightarrow> nat \<Rightarrow> nat \<Rightarrow> nat \<Rightarrow> bool" where
  "sizes d L D P M B \<longleftrightarrow>
     logical_block_size d = word_of_nat L \<and> dma_alignment d = word_of_nat D \<and> pagesize d = word_of_nat P
     \<and> max_bytes d = word_of_nat M \<and> buf_size d = word_of_nat B \<and> B < 2 ^ 64
     \<and> D dvd L \<and> 0 < D \<and> D \<le> P \<and> D \<le> L \<and> L \<le> 65536 \<and> L \<le> 4 * P \<and> 4096 \<le> P \<and> P \<le> 65536
     \<and> L \<le> M \<and> 13 * M \<le> B \<and> 4096 * L \<le> B \<and> 25 * P \<le> B"

lemma sizes_fields:
  assumes "sizes d L D P M B"
  shows "logical_block_size d = word_of_nat L" "dma_alignment d = word_of_nat D" "pagesize d = word_of_nat P"
    "max_bytes d = word_of_nat M" "buf_size d = word_of_nat B"
  using assms by (simp_all add: sizes_def)

lemma sizes_bounds:
  assumes "sizes d L D P M B"
  shows "B < 18446744073709551616" "0 < D" "D \<le> P" "D \<le> L" "L \<le> 65536" "L \<le> 4 * P" "4096 \<le> P" "P \<le> 65536"
    "L \<le> M" "13 * M \<le> B" "4096 * L \<le> B" "25 * P \<le> B"
  using assms by (simp_all add: sizes_def)

lemma roomy_sizes:
  assumes "roomy d"
  obtains L D P M B where "sizes d L D P M B"
proof -
  obtain l m p where e: "logical_block_size d = 2 ^ l" "dma_alignment d = 2 ^ m" "pagesize d = 2 ^ p"
      "m \<le> l" "m \<le> p" "l \<le> 16" "l \<le> p + 2" "12 \<le> p" "p \<le> 16"
    and r: "unat (logical_block_size d) \<le> unat (max_bytes d)" "13 * unat (max_bytes d) \<le> unat (buf_size d)"
      "4096 * unat (logical_block_size d) \<le> unat (buf_size d)" "25 * unat (pagesize d) \<le> unat (buf_size d)"
    using assms unfolding roomy_def by blast
  have u: "unat (2 ^ k :: u64) = 2 ^ k" if "k \<le> 16" for k
    using that power_increasing [of k 16 "2 :: nat"] unat_of_nat_small [of "2 ^ k", where 'a = 64] by simp
  have pow: "2 ^ l \<le> (65536 :: nat)" "2 ^ p \<le> (65536 :: nat)" "(4096 :: nat) \<le> 2 ^ p"
    "(2 :: nat) ^ l \<le> 4 * 2 ^ p" "(2 :: nat) ^ m \<le> 2 ^ p" "(2 :: nat) ^ m \<le> 2 ^ l"
    using e power_increasing [of l 16 "2 :: nat"] power_increasing [of p 16 "2 :: nat"]
      power_increasing [of 12 p "2 :: nat"] power_increasing [of l "p + 2" "2 :: nat"]
    by (simp_all add: power_add)
  have "sizes d (2 ^ l) (2 ^ m) (2 ^ p) (unat (max_bytes d)) (unat (buf_size d))"
    unfolding sizes_def using e r pow u [of l] u [of p] unsigned_less [of "buf_size d", where 'a = nat]
    by (simp add: le_imp_power_dvd)
  then show thesis by (rule that)
qed

lemma in_range_nat:
  assumes "buf_size d = word_of_nat B" and "B < 2 ^ 64" and "n + k \<le> B"
  shows "in_range d (int n, word_of_nat k)"
  using assms by (simp add: in_range_def uint_of_nat_u64)

section \<open>The vectors of the tests\<close>

text \<open>The vectors as pairs of natural numbers.\<close>

definition nat_vecs :: "(nat \<times> nat) list \<Rightarrow> extent list" where
  "nat_vecs = map (\<lambda>(n, k). (int n, word_of_nat k))"

lemma nat_vecs_simps [simp]:
  "nat_vecs [] = []" "nat_vecs ((n, k) # xs) = (int n, word_of_nat k) # nat_vecs xs"
  by (simp_all add: nat_vecs_def)

lemma nat_vecs_in_range:
  assumes "sizes d L D P M B" and "\<forall>(n, k) \<in> set xs. n + k \<le> B"
  shows "list_all (in_range d) (nat_vecs xs)"
  using assms by (auto simp: nat_vecs_def list_all_iff sizes_def intro!: in_range_nat)

lemma vec_small:
  assumes "sizes d L D P M B" and "i < 4" and "k \<le> 64"
  shows "k * i * L < 2 ^ 31"
proof -
  have "k * i * L \<le> 64 * 3 * 65536" using assms by (intro mult_le_mono) (simp_all add: sizes_def)
  then show ?thesis by simp
qed

lemma page_aligned_nat:
  assumes "sizes d L D P M B"
  shows "page_aligned_vectors d = nat_vecs (map (\<lambda>i. (4 * i * L, 2 * L)) [0..<4])"
proof -
  have "c_int (logical_block_size d * word_of_nat i * 4) = int (4 * i * L)" if "i < 4" for i
  proof -
    have "4 * i * L < 2 ^ 31" by (rule vec_small [OF assms that]) simp
    moreover have "logical_block_size d * word_of_nat i * 4 = word_of_nat (4 * i * L)"
      using assms by (simp add: sizes_def)
    ultimately show ?thesis by (simp only: c_int_of_nat)
  qed
  then show ?thesis using assms by (simp add: page_aligned_vectors_def nat_vecs_def sizes_def)
qed

lemma dma_aligned_nat:
  assumes "sizes d L D P M B"
  shows "dma_aligned_vectors d = nat_vecs (map (\<lambda>i. (8 * i * L + D * (i + 1), 2 * L)) [0..<4])"
proof -
  have "c_int (logical_block_size d * word_of_nat i * 8 + dma_alignment d * (word_of_nat i + 1))
      = int (8 * i * L + D * (i + 1))" if "i < 4" for i
  proof -
    have "8 * i * L + D * (i + 1) < 2 ^ 31"
    proof -
      have "8 * i * L \<le> 8 * 3 * 65536" "D * (i + 1) \<le> 65536 * 4"
        using assms that by (intro mult_le_mono; simp add: sizes_def)+
      from add_mono [OF this] show ?thesis by (rule le_less_trans) simp
    qed
    moreover have "logical_block_size d * word_of_nat i * 8 + dma_alignment d * (word_of_nat i + 1)
        = word_of_nat (8 * i * L + D * (i + 1))"
      using assms by (simp add: sizes_def algebra_simps)
    ultimately show ?thesis by (simp only: c_int_of_nat)
  qed
  then show ?thesis using assms by (simp add: dma_aligned_vectors_def nat_vecs_def sizes_def)
qed

lemma unaligned_nat:
  assumes "sizes d L D P M B"
  shows "unaligned_vectors d = nat_vecs (map (\<lambda>i. (8 * i * L, L div 2)) [0..<4])"
proof -
  have "c_int (logical_block_size d * word_of_nat i * 8) = int (8 * i * L)" if "i < 4" for i
  proof -
    have "8 * i * L < 2 ^ 31" by (rule vec_small [OF assms that]) simp
    moreover have "logical_block_size d * word_of_nat i * 8 = word_of_nat (8 * i * L)"
      using assms by (simp add: sizes_def)
    ultimately show ?thesis by (simp only: c_int_of_nat)
  qed
  moreover have "logical_block_size d div 2 = word_of_nat (L div 2)"
    using assms word_of_nat_div [of L 2] by (simp add: sizes_def)
  ultimately show ?thesis by (simp add: unaligned_vectors_def nat_vecs_def)
qed

lemma word_of_int_c_int: "n < 2 ^ 31 \<Longrightarrow> word_of_int (c_int (word_of_nat n)) = word_of_nat n"
  by (simp add: c_int_of_nat)

text \<open>The parts of the page test: the length of the middle vectors and the place of the first.\<close>

lemma page_mult_nat:
  assumes "sizes d L D P M B"
  shows "page_mult d = int (max 2 (P div L))"
proof -
  have "pagesize d div logical_block_size d = word_of_nat (P div L)"
    using assms word_of_nat_div [of P L] by (simp add: sizes_def)
  moreover have "P div L < 2 ^ 31"
    using assms by (intro le_less_trans [OF div_le_dividend]) (simp add: sizes_def)
  ultimately show ?thesis by (simp add: page_mult_def c_int_of_nat)
qed

lemma page_vector_bounds:
  assumes "sizes d L D P M B"
  shows "2 * L \<le> L * max 2 (P div L)" and "L * max 2 (P div L) \<le> max P (2 * L)"
proof -
  show "2 * L \<le> L * max 2 (P div L)" by (simp add: max_def)
  have "L * (P div L) \<le> P" by (rule times_div_less_eq_dividend)
  then show "L * max 2 (P div L) \<le> max P (2 * L)"
    by (cases "P div L \<le> 2") (simp_all only: max.absorb1 max.absorb2 linear le_max_iff_disj mult.commute [of L 2] not_le less_imp_le simp_thms order_refl)
qed

lemma head_offset_nat:
  assumes "sizes d L D P M B"
  obtains n where "head_offset d = int n" and "n \<le> P" and "P - n \<le> L"
proof -
  have "logical_block_size d div 4 = word_of_nat (L div 4)"
    using assms word_of_nat_div [of L 4] by (simp add: sizes_def)
  moreover have "L div 4 \<le> P" "P - L div 4 < 2 ^ 31" using sizes_bounds [OF assms] by simp_all
  ultimately have a: "c_int (pagesize d - logical_block_size d div 4) = int (P - L div 4)"
    by (simp only: sizes_fields [OF assms] word_of_nat_diff c_int_of_nat)
  have "D \<le> P" "P - D < 2 ^ 31" using sizes_bounds [OF assms] by simp_all
  then have b: "c_int (pagesize d - dma_alignment d) = int (P - D)"
    by (simp only: sizes_fields [OF assms] word_of_nat_diff c_int_of_nat)
  have "head_offset d = int (P - L div 4) \<or> head_offset d = int (P - D)"
    by (simp add: head_offset_def a b)
  then show thesis
  proof
    assume "head_offset d = int (P - L div 4)"
    then show thesis by (rule that) simp_all
  next
    assume "head_offset d = int (P - D)"
    then show thesis by (rule that) (use assms in \<open>simp_all add: sizes_def\<close>)
  qed
qed

lemma unaligned_page_nat:
  assumes "sizes d L D P M B"
  obtains n where "n \<le> P" and "P - n \<le> L"
    and "unaligned_page_vectors d = nat_vecs (let K = L * max 2 (P div L) in
           [(n, P - n), (1 * 8 * K, K), (2 * 8 * K, K), (3 * 8 * K, K - (P - n))])"
proof -
  obtain n where n: "head_offset d = int n" "n \<le> P" "P - n \<le> L" by (rule head_offset_nat [OF assms])
  define K where "K = L * max 2 (P div L)"
  have K: "2 * L \<le> K" "K \<le> 131072"
    using page_vector_bounds [OF assms] assms unfolding K_def sizes_def by linarith+
  have at: "c_int (logical_block_size d * word_of_nat i * 8 * word_of_int (page_mult d)) = int (i * 8 * K)" if "i < 4" for i
  proof -
    have "i * 8 * K \<le> 3 * 8 * 131072" using K(2) that by (intro mult_le_mono) simp_all
    then have "i * 8 * K < 2 ^ 31" by simp
    moreover have "logical_block_size d * word_of_nat i * 8 * word_of_int (page_mult d) = word_of_nat (i * 8 * K)"
      using assms by (simp add: sizes_def K_def page_mult_nat [OF assms])
    ultimately show ?thesis by (simp only: c_int_of_nat)
  qed
  have len: "logical_block_size d * word_of_int (page_mult d) = word_of_nat K"
    using assms by (simp add: sizes_def K_def page_mult_nat [OF assms])
  have head: "pagesize d - word_of_int (int n) = word_of_nat (P - n)"
    by (simp add: sizes_fields [OF assms] word_of_nat_diff [OF n(2)])
  have ats: "c_int (logical_block_size d * word_of_nat 1 * 8 * word_of_int (page_mult d)) = int (1 * 8 * K)"
    "c_int (logical_block_size d * word_of_nat 2 * 8 * word_of_int (page_mult d)) = int (2 * 8 * K)"
    "c_int (logical_block_size d * word_of_nat 3 * 8 * word_of_int (page_mult d)) = int (3 * 8 * K)"
    by (rule at, simp)+
  have diff: "word_of_nat K - word_of_nat (P - n) = (word_of_nat (K - (P - n)) :: u64)"
    by (rule word_of_nat_diff) (use n(3) K(1) in linarith)
  have "unaligned_page_vectors d = nat_vecs [(n, P - n), (1 * 8 * K, K), (2 * 8 * K, K), (3 * 8 * K, K - (P - n))]"
    unfolding unaligned_page_vectors_def Let_def len n(1) head nat_vecs_simps diff ats ..
  then show thesis by (intro that [OF n(2,3)]) (simp only: K_def [symmetric] Let_def)
qed

lemma uint_fields_nat:
  assumes "sizes d L D P M B"
  shows "k \<le> 13 \<Longrightarrow> uint (max_bytes d * word_of_nat k) = int (k * M)"
    and "uint (max_bytes d + logical_block_size d) = int (M + L)"
    and "uint (pagesize d * 2) = int (2 * P)" and "uint (dma_alignment d - 1) = int (D - 1)"
proof -
  note b = sizes_bounds [OF assms]
  show "uint (max_bytes d * word_of_nat k) = int (k * M)" if "k \<le> 13"
  proof -
    have "k * M \<le> 13 * M" using that by (rule mult_le_mono1)
    then have "k * M < 18446744073709551616" using b(1,10) by linarith
    then have "k * M < 2 ^ 64" by simp
    moreover have "max_bytes d * word_of_nat k = word_of_nat (k * M)" by (simp add: sizes_fields [OF assms])
    ultimately show ?thesis by (simp only: uint_of_nat_u64)
  qed
  have "M + L < 2 ^ 64" "2 * P < 2 ^ 64" "D - 1 < 2 ^ 64" using b by simp_all
  moreover have "max_bytes d + logical_block_size d = word_of_nat (M + L)" "pagesize d * 2 = word_of_nat (2 * P)"
    "dma_alignment d - 1 = word_of_nat (D - 1)"
    using b(2) by (simp_all add: sizes_fields [OF assms] of_nat_diff)
  ultimately show "uint (max_bytes d + logical_block_size d) = int (M + L)"
    "uint (pagesize d * 2) = int (2 * P)" "uint (dma_alignment d - 1) = int (D - 1)"
    by (simp_all only: uint_of_nat_u64)
qed

lemma c_int_double_dma:
  assumes "sizes d L D P M B"
  shows "c_int (dma_alignment d * 2 - 1) = int (2 * D - 1)"
proof -
  have "dma_alignment d * 2 - 1 = word_of_nat (2 * D - 1)" "2 * D - 1 < 2 ^ 31"
    using sizes_bounds [OF assms] by (simp_all add: sizes_fields [OF assms] of_nat_diff)
  then show ?thesis by (simp only: c_int_of_nat)
qed

lemma dma_alignment_nat:
  assumes "sizes d L D P M B"
  shows "dma_alignment_vectors d =
    nat_vecs [(0, M), (2 * M, M), (4 * M + (2 * D - 1), M), (6 * M, M), (8 * M, M)]"
proof -
  note u = uint_fields_nat(1) [OF assms]
  have "uint (max_bytes d * 2) = int (2 * M)" "uint (max_bytes d * 4) = int (4 * M)"
    "uint (max_bytes d * 6) = int (6 * M)" "uint (max_bytes d * 8) = int (8 * M)"
    using u [of 2] u [of 4] u [of 6] u [of 8] by simp_all
  then show ?thesis
    unfolding dma_alignment_vectors_def Let_def c_int_double_dma [OF assms] nat_vecs_simps by (simp add: sizes_fields [OF assms])
qed

lemma max_vector_size_nat:
  assumes "sizes d L D P M B"
  shows "max_vector_size d = int D" and "c_int (logical_block_size d div dma_alignment d) = int (L div D)"
    and "0 < L div D"
proof -
  note b = sizes_bounds [OF assms]
  have dvd: "D dvd L" using assms by (simp add: sizes_def)
  show pos: "0 < L div D" using b(2,4) by (simp add: div_greater_zero_iff)
  have "logical_block_size d div dma_alignment d = word_of_nat (L div D)" "L div D < 2 ^ 31"
    using b word_of_nat_div [of L D] le_less_trans [OF div_le_dividend, of L "2 ^ 31" D]
    by (simp_all add: sizes_fields [OF assms])
  then show q: "c_int (logical_block_size d div dma_alignment d) = int (L div D)" by (simp only: c_int_of_nat)
  have "L div (L div D) = D" using dvd pos by (auto elim!: dvdE)
  moreover have "word_of_nat L div word_of_nat (L div D) = (word_of_nat (L div (L div D)) :: u64)"
    by (rule word_of_nat_div) (use b le_less_trans [OF div_le_dividend, of L "2 ^ 64" D] in simp_all)
  moreover have "D < 2 ^ 31" using b by simp
  ultimately show "max_vector_size d = int D"
    unfolding max_vector_size_def q of_int_of_nat_eq unfolding sizes_fields [OF assms] by (simp only: c_int_of_nat)
qed

lemma max_vector_nat:
  assumes "sizes d L D P M B"
  shows "max_vector_extents d = nat_vecs (map (\<lambda>i. (i * D * 2, D)) [0..<320])"
proof -
  have "sint (word_of_int (int i * int D * 2) :: s32) = int (i * D * 2)" if "i < 320" for i
  proof -
    have "i * D * 2 \<le> 319 * 65536 * 2" using that sizes_bounds [OF assms] by (intro mult_le_mono) simp_all
    then have s: "i * D * 2 < 2 ^ 31" by simp
    have "(word_of_int (int i * int D * 2) :: s32) = word_of_nat (i * D * 2)" by simp
    moreover have "sint (word_of_nat (i * D * 2) :: s32) = int (i * D * 2)"
    proof -
      have u: "unat (word_of_nat (i * D * 2) :: s32) = i * D * 2" by (rule unat_of_nat_small) (use s in simp)
      show ?thesis using sint_u32_small [of "word_of_nat (i * D * 2)"] s unfolding u by simp
    qed
    ultimately show ?thesis by (simp only:)
  qed
  then show ?thesis by (simp add: max_vector_extents_def nat_vecs_def max_vector_size_nat [OF assms])
qed

lemma large_nat:
  assumes "sizes d L D P M B"
  shows "dma_alignment_large_vectors d =
    nat_vecs [(0, M - L), (M + L, L), (M + L + 2 * P + (D - 1), L), (8 * M, L)]"
proof -
  note u = uint_fields_nat [OF assms]
  have "uint (max_bytes d * 8) = int (8 * M)" using u(1) [of 8] by simp
  moreover have "max_bytes d - logical_block_size d = word_of_nat (M - L)"
    using sizes_bounds(9) [OF assms] by (simp only: sizes_fields [OF assms] word_of_nat_diff)
  ultimately show ?thesis
    unfolding dma_alignment_large_vectors_def Let_def u nat_vecs_simps by (simp add: sizes_fields [OF assms])
qed

lemma vector_length_nat:
  assumes "sizes d L D P M B"
  shows "vector_length_extents d =
    nat_vecs [(0, 2 * M - M div 2), (4 * M, 2 * L - (D + 1)), (8 * M, 2 * L + (D + 1)), (12 * M, M - M div 2)]"
proof -
  note u = uint_fields_nat(1) [OF assms] and b = sizes_bounds [OF assms]
  have half: "max_bytes d div 2 = word_of_nat (M div 2)"
    using b word_of_nat_div [of M 2] by (simp add: sizes_fields [OF assms])
  have le: "M div 2 \<le> 2 * M" "M div 2 \<le> M" "D + 1 \<le> 2 * L" using b by simp_all
  have "max_bytes d * 2 = word_of_nat (2 * M)" "logical_block_size d * 2 = word_of_nat (2 * L)"
    "dma_alignment d + 1 = word_of_nat (D + 1)"
    by (simp_all add: sizes_fields [OF assms])
  moreover have "uint (max_bytes d * 4) = int (4 * M)" "uint (max_bytes d * 8) = int (8 * M)"
    "uint (max_bytes d * 12) = int (12 * M)"
    using u [of 4] u [of 8] u [of 12] by simp_all
  ultimately show ?thesis
    unfolding vector_length_extents_def half
    by (simp only: nat_vecs_simps sizes_fields(4) [OF assms] word_of_nat_diff [OF le(1)] word_of_nat_diff [OF le(2)]
        word_of_nat_diff [OF le(3)] of_nat_add [symmetric]) simp
qed

section \<open>All vectors are inside\<close>

definition all_in_range :: "dio \<Rightarrow> extent list \<Rightarrow> bool" where
  "all_in_range d xs \<longleftrightarrow> list_all (in_range d) xs"

lemma all_in_range_nat:
  assumes "sizes d L D P M B" and "\<forall>(n, k) \<in> set xs. n + k \<le> B"
  shows "all_in_range d (nat_vecs xs)"
  unfolding all_in_range_def by (rule nat_vecs_in_range [OF assms])

lemma upt_4: "[0..<4] = [0, 1, 2, 3 :: nat]"
  by (simp add: upt_rec)

lemma layouts_in_range:
  assumes "roomy d"
  shows "all_in_range d [(0, buf_size d)]" "all_in_range d [(uint (dma_alignment d), max_bytes d)]"
    "all_in_range d (page_aligned_vectors d)" "all_in_range d (dma_aligned_vectors d)"
    "all_in_range d (unaligned_page_vectors d)" "all_in_range d (unaligned_vectors d)"
    "all_in_range d [(c_int (2 * dma_alignment d - 1), logical_block_size d * 256)]"
    "all_in_range d (dma_alignment_vectors d)" "all_in_range d (max_vector_extents d)"
    "all_in_range d (map (\<lambda>(p, n). (p, logical_block_size d div 2)) (max_vector_extents d))"
    "all_in_range d (dma_alignment_large_vectors d)" "all_in_range d (vector_length_extents d)"
proof -
  obtain L D P M B where s: "sizes d L D P M B" by (rule roomy_sizes [OF assms])
  note b = sizes_bounds [OF s] and f = sizes_fields [OF s] and inside = all_in_range_nat [OF s]
  show "all_in_range d [(0, buf_size d)]"
    by (simp add: all_in_range_def in_range_def)
  have "uint (dma_alignment d) = int D" using b by (simp only: f, intro uint_of_nat_u64) simp
  then show "all_in_range d [(uint (dma_alignment d), max_bytes d)]"
    using inside [of "[(D, M)]"] b f by simp
  show "all_in_range d (page_aligned_vectors d)"
    unfolding page_aligned_nat [OF s] upt_4 by (rule inside) (use b in simp)
  show "all_in_range d (dma_aligned_vectors d)"
    unfolding dma_aligned_nat [OF s] upt_4 by (rule inside) (use b in simp)
  show "all_in_range d (unaligned_vectors d)"
    unfolding unaligned_nat [OF s] upt_4 by (rule inside) (use b in auto)
  have "all_in_range d (nat_vecs [(2 * D - 1, 256 * L)])" by (rule inside) (use b in simp)
  moreover have "c_int (2 * dma_alignment d - 1) = int (2 * D - 1)"
    using c_int_double_dma [OF s] by (simp only: mult.commute)
  moreover have "logical_block_size d * 256 = word_of_nat (256 * L)" by (simp add: f)
  ultimately show "all_in_range d [(c_int (2 * dma_alignment d - 1), logical_block_size d * 256)]"
    by (simp only: nat_vecs_simps)
  show "all_in_range d (dma_alignment_vectors d)"
    unfolding dma_alignment_nat [OF s] by (rule inside) (use b in simp)
  show "all_in_range d (dma_alignment_large_vectors d)"
    unfolding large_nat [OF s] by (rule inside) (use b in auto)
  show "all_in_range d (vector_length_extents d)"
    unfolding vector_length_nat [OF s] by (rule inside) (use b in auto)
  have small: "i * D * 2 + k \<le> B" if "i < 320" "k \<le> L" for i k
  proof -
    have "i * D \<le> 319 * L" using that b by (intro mult_le_mono) simp_all
    then show ?thesis using that(2) b by linarith
  qed
  show "all_in_range d (max_vector_extents d)"
    unfolding max_vector_nat [OF s] by (rule inside) (use b small in auto)
  have half: "logical_block_size d div 2 = word_of_nat (L div 2)"
    using b word_of_nat_div [of L 2] by (simp add: f)
  have "map (\<lambda>(p, n). (p, logical_block_size d div 2)) (max_vector_extents d)
      = nat_vecs (map (\<lambda>i. (i * D * 2, L div 2)) [0..<320])"
    by (simp add: max_vector_nat [OF s] nat_vecs_def half)
  then show "all_in_range d (map (\<lambda>(p, n). (p, logical_block_size d div 2)) (max_vector_extents d))"
    by (simp only:) (rule inside, use small in auto)
  obtain n where n: "n \<le> P" "P - n \<le> L" and v: "unaligned_page_vectors d = nat_vecs (let K = L * max 2 (P div L) in
      [(n, P - n), (1 * 8 * K, K), (2 * 8 * K, K), (3 * 8 * K, K - (P - n))])"
    by (rule unaligned_page_nat [OF s])
  show "all_in_range d (unaligned_page_vectors d)"
    unfolding v Let_def by (rule inside) (use n b page_vector_bounds [OF s] in auto)
qed

end
