(* ===== verification/Dio_Safe.thy ===== *)
theory Dio_Safe
  imports Dio_Bounds
begin

text \<open>
  Every test of \<open>dio-offsets.c\<close> keeps all of the state but \<open>in_buf\<close> and never faults when the
  buffers are roomy: one rule for each way a test is put together, one lemma for all tests.
\<close>

section \<open>What the steps keep\<close>

definition same_config :: "dio \<Rightarrow> dio \<Rightarrow> bool" where
  "same_config d d' \<longleftrightarrow> d\<lparr>in_buf := in_buf d'\<rparr> = d'"

lemma same_config_refl [simp]: "same_config d d"
  by (simp add: same_config_def)

lemma same_config_trans: "same_config d d' \<Longrightarrow> same_config d' d'' \<Longrightarrow> same_config d d''"
  unfolding same_config_def by (metis dio.surjective dio.update_convs(10))

lemma same_config_in_buf [simp]: "same_config d (d'\<lparr>in_buf := m\<rparr>) \<longleftrightarrow> same_config d d'"
  by (cases d; cases d') (simp add: same_config_def)

lemma same_config_clear [simp]: "same_config d (clear_in d)"
  by (simp add: clear_in_def)

lemma same_config_fields:
  assumes "same_config d d'"
  shows "logical_block_size d' = logical_block_size d" "dma_alignment d' = dma_alignment d"
    "virt_boundary d' = virt_boundary d" "max_bytes d' = max_bytes d" "buf_size d' = buf_size d"
    "pagesize d' = pagesize d" "out_buf d' = out_buf d"
  using assms unfolding same_config_def by (cases d; cases d'; simp)+

lemma roomy_same: "same_config d d' \<Longrightarrow> roomy d \<Longrightarrow> roomy d'"
  by (simp add: roomy_def same_config_fields)

lemma in_range_same: "same_config d d' \<Longrightarrow> in_range d' x = in_range d x"
  by (simp add: in_range_def same_config_fields)

lemma all_in_range_same: "same_config d d' \<Longrightarrow> all_in_range d' xs = all_in_range d xs"
  by (simp add: all_in_range_def in_range_same cong: list.pred_cong)

text \<open>A step keeps everything but \<open>in_buf\<close> and never faults.\<close>

abbreviation keeps :: "dio \<Rightarrow> ('k, dio) dio_prog \<Rightarrow> bool" where
  "keeps d m \<equiv> safe m (same_config d)"

lemma vec_ok_out: "all_in_range d xs \<Longrightarrow> list_all (vec_ok d) (out_vecs xs)"
  by (auto simp: all_in_range_def out_vecs_def list_all_iff)

lemma vec_ok_in: "all_in_range d xs \<Longrightarrow> list_all (vec_ok d) (in_vecs xs)"
  by (auto simp: all_in_range_def in_vecs_def list_all_iff)

lemma safe_pwritev: "list_all (vec_ok d) iov \<Longrightarrow> safe (pwritev S d iov) (\<lambda>_. True)"
  by (simp add: pwritev_def safe_syscall)

lemma safe_preadv:
  "all_in_range d xs \<Longrightarrow> safe (preadv S d xs) (\<lambda>(ret, d'). same_config d d')"
  unfolding preadv_def all_in_range_def
  by (auto intro!: safe_andthen [OF safe_syscall [where Q = "\<lambda>_. True"]] safe_returns)

lemma safe_compare: "in_range d x \<Longrightarrow> safe (compare d x) (\<lambda>_. True)"
  by (simp add: compare_def safe_returns safe_exit)

lemma safe_compare_all: "all_in_range d xs \<Longrightarrow> safe (compare_all d xs) (\<lambda>d'. d' = d)"
  by (induction xs) (auto simp: all_in_range_def intro: safe_returns safe_andthen [OF safe_compare])

lemma keeps_read_back:
  assumes "all_in_range d xs" and "all_in_range d cmp"
  shows "keeps d (read_back S d xs cmp)"
  unfolding read_back_def
proof (rule safe_andthen [OF safe_preadv [OF assms(1)]], clarify)
  fix ret d'
  assume same: "same_config d d'"
  then have "all_in_range d' cmp" using assms(2) by (simp add: all_in_range_same)
  note cmp = safe_weaken [OF safe_compare_all [OF this]]
  show "keeps d (if ret < 0 then err else compare_all d' cmp)"
    by (cases "ret < 0") (auto simp: safe_exit same intro: cmp)
qed

lemma keeps_must_pass:
  assumes "all_in_range d xs"
  shows "keeps d (must_pass S d xs)"
  unfolding must_pass_def
  by (rule safe_andthen [OF safe_pwritev [OF vec_ok_out [OF assms]]])
    (simp add: safe_exit keeps_read_back [OF assms assms])

lemma keeps_may_fail:
  assumes "all_in_range d xs" and "keeps d rest"
  shows "keeps d (may_fail S d should_fail xs rest)"
  unfolding may_fail_def
  by (rule safe_andthen [OF safe_pwritev [OF vec_ok_out [OF assms(1)]]])
    (simp add: safe_exit safe_returns assms(2))

lemma keeps_must_fail: "list_all (vec_ok d) iov \<Longrightarrow> keeps d (must_fail S d iov)"
  unfolding must_fail_def
  by (rule safe_andthen [OF safe_pwritev]) (simp_all add: safe_exit safe_returns)

lemma keeps_write_or_read:
  assumes "all_in_range d xs"
  shows "keeps d (andthen (pwritev S d (out_vecs xs)) (\<lambda>ret. if ret < 0 then returns d else read_back S d xs xs))"
  by (rule safe_andthen [OF safe_pwritev [OF vec_ok_out [OF assms]]])
    (simp add: safe_returns keeps_read_back [OF assms assms])

text \<open>A test on the cleared buffer keeps what the test on the state itself keeps.\<close>

lemma keeps_clear: "keeps (clear_in d) m \<Longrightarrow> keeps d m"
  by (erule safe_weaken) (rule same_config_trans [OF same_config_clear])

lemma roomy_clear: "roomy d \<Longrightarrow> roomy (clear_in d)"
  by (rule roomy_same [OF same_config_clear])

lemma clear_fields [simp]:
  "logical_block_size (clear_in d) = logical_block_size d" "dma_alignment (clear_in d) = dma_alignment d"
  "max_bytes (clear_in d) = max_bytes d" "buf_size (clear_in d) = buf_size d" "pagesize (clear_in d) = pagesize d"
  "virt_boundary (clear_in d) = virt_boundary d" "out_buf (clear_in d) = out_buf d" "test_fd (clear_in d) = test_fd d"
  by (simp_all add: clear_in_def)

lemma layouts_clear [simp]:
  "page_aligned_vectors (clear_in d) = page_aligned_vectors d" "dma_aligned_vectors (clear_in d) = dma_aligned_vectors d"
  "max_vector_size (clear_in d) = max_vector_size d" "max_vector_extents (clear_in d) = max_vector_extents d"
  by (simp_all add: page_aligned_vectors_def dma_aligned_vectors_def max_vector_size_def max_vector_extents_def)

lemma list_all_upt: "list_all P (map f [a..<b]) \<longleftrightarrow> (\<forall>i. a \<le> i \<and> i < b \<longrightarrow> P (f i))"
  by (auto simp: list_all_iff)

lemma invalid_vectors_ok:
  assumes "roomy d"
  shows "list_all (vec_ok d) (invalid_start_vectors d)" and "list_all (vec_ok d) (invalid_middle_vectors d)"
proof -
  obtain L D P M B where s: "sizes d L D P M B" by (rule roomy_sizes [OF assms])
  note b = sizes_bounds [OF s] and f = sizes_fields [OF s]
  have vec: "in_range d (c_int (logical_block_size d * word_of_nat i * word_of_nat k), logical_block_size d)"
    if "i * k \<le> 2048" for i k
  proof -
    have "i * k * L \<le> 2048 * 65536" "i * k * L \<le> 2048 * L" using that b by (intro mult_le_mono; simp)+
    then have "i * k * L < 2147483648" "i * k * L + L \<le> B" using b by linarith+
    then have small: "i * k * L < 2 ^ 31" "i * k * L + L \<le> B" by simp_all
    have "c_int (logical_block_size d * word_of_nat i * word_of_nat k) = int (i * k * L)"
      using c_int_of_nat [OF small(1)] by (simp add: f mult.assoc mult.commute mult.left_commute)
    then show ?thesis unfolding f(1) by (simp only: f(1)) (rule in_range_nat, use f b small in simp_all)
  qed
  show "list_all (vec_ok d) (invalid_start_vectors d)"
    unfolding invalid_start_vectors_def list.pred_inject list_all_upt
    using vec [of _ 8] by simp
  show "list_all (vec_ok d) (invalid_middle_vectors d)"
    unfolding invalid_middle_vectors_def Let_def list_all_append list.pred_inject list_all_upt
    using vec [of _ 2] by simp
qed

lemma keeps_tests:
  assumes "roomy d"
  shows "keeps d (test_full_size_aligned S d)" "keeps d (test_dma_aligned S d)"
    "keeps d (test_page_aligned_vectors S d)" "keeps d (test_dma_aligned_vectors S d)"
    "keeps d (test_unaligned_page_vectors S d)" "keeps d (test_unaligned_vectors S d)"
    "keeps d (test_invalid_starting_addr S d)" "keeps d (test_invalid_middle_addr S d)"
    "keeps d (test_invalid_dma_alignment S d)" "keeps d (test_invalid_dma_vector_alignment S d)"
    "keeps d (test_max_vector_limits S d)" "keeps d (test_invalid_dma_vector_alignment_large S d)"
    "keeps d (test_invalid_dma_vector_length S d)"
proof -
  obtain L D P M B where s: "sizes d L D P M B" by (rule roomy_sizes [OF assms])
  note r = layouts_in_range [OF assms] and c = all_in_range_same [OF same_config_clear]
  note pass = keeps_clear [OF keeps_must_pass] and reads = keeps_clear [OF keeps_write_or_read]
  show "keeps d (test_full_size_aligned S d)" "keeps d (test_dma_aligned S d)"
    "keeps d (test_page_aligned_vectors S d)" "keeps d (test_dma_aligned_vectors S d)"
    unfolding test_full_size_aligned_def test_dma_aligned_def test_page_aligned_vectors_def test_dma_aligned_vectors_def
    by (rule pass, simp add: c r)+
  have "logical_block_size d \<noteq> 0" using assms by (auto simp: roomy_def)
  then show "keeps d (test_unaligned_page_vectors S d)" "keeps d (test_unaligned_vectors S d)"
    unfolding test_unaligned_page_vectors_def test_unaligned_vectors_def Let_def by (simp_all add: reads c r)
  show "keeps d (test_invalid_starting_addr S d)" "keeps d (test_invalid_middle_addr S d)"
    unfolding test_invalid_starting_addr_def test_invalid_middle_addr_def
    by (rule keeps_must_fail, rule invalid_vectors_ok [OF assms])+
  show "keeps d (test_invalid_dma_alignment S d)" "keeps d (test_invalid_dma_vector_alignment S d)"
    unfolding test_invalid_dma_alignment_def test_invalid_dma_vector_alignment_def Let_def
    by (rule keeps_clear, rule keeps_may_fail, simp add: c r, rule keeps_read_back, simp_all add: c r)+
  show "keeps d (test_max_vector_limits S d)"
  proof -
    have "dma_alignment d \<noteq> 0" using assms by (auto simp: roomy_def)
    then have cond: "\<not> (dma_alignment d = 0 \<or> c_int (logical_block_size d div dma_alignment d) = 0 \<or> max_vector_size d = 0)"
      using max_vector_size_nat [OF s] sizes_bounds(2) [OF s] by simp
    show ?thesis
      unfolding test_max_vector_limits_def Let_def if_not_P [OF cond]
      by (rule keeps_clear, rule keeps_may_fail, simp only: c r, rule keeps_read_back) (simp_all only: c r)
  qed
  show "keeps d (test_invalid_dma_vector_alignment_large S d)"
    unfolding test_invalid_dma_vector_alignment_large_def by (rule keeps_must_fail, rule vec_ok_out, rule r)
  show "keeps d (test_invalid_dma_vector_length S d)"
    unfolding test_invalid_dma_vector_length_def Let_def
    by (rule keeps_may_fail [OF r(12)], rule safe_andthen [OF safe_pwritev [OF vec_ok_in [OF r(12)]]])
      (auto simp: safe_exit r intro: safe_weaken [OF safe_compare_all])
qed

lemma keeps_run_list:
  "roomy d \<Longrightarrow> (\<And>t d. t \<in> set ts \<Longrightarrow> roomy d \<Longrightarrow> keeps d (t S d)) \<Longrightarrow> keeps d (run_list ts S d)"
proof (induction ts arbitrary: d)
  case Nil
  show ?case unfolding run_list.simps by (rule safe_returns) simp
next
  case (Cons t ts)
  have "keeps d' (run_list ts S d')" if "same_config d d'" for d'
    using Cons.prems that by (intro Cons.IH) (auto intro: roomy_same)
  then have rest: "keeps d (run_list ts S d')" if "same_config d d'" for d'
    using that by (blast intro: safe_weaken same_config_trans)
  show ?case using Cons.prems rest by (auto intro!: safe_andthen [where P = "same_config d"])
qed

end
