(* ===== verification/Dio_Device.thy ===== *)
theory Dio_Device
  imports Dio_Safe
begin

text \<open>
  What \<open>dio-offsets.c\<close> sees on a device that behaves like memory: the bytes of the vectors are
  gathered, stored, and scattered back, so the tests that must pass do pass.
\<close>

section \<open>Devices that behave like memory\<close>

text \<open>The proofs from here on follow concrete runs.\<close>

declare returns_run [simp] halt_run [simp]

text \<open>The bytes of the vectors in order, and the segments a read of them fills from the device.\<close>

definition gathered :: "mem \<Rightarrow> extent list \<Rightarrow> u8 list" where
  "gathered m xs = concat (map (\<lambda>(p, n). read_bytes p (unat n) m) xs)"

fun scattered :: "mem \<Rightarrow> int \<Rightarrow> extent list \<Rightarrow> segment list" where
  "scattered disk pos [] = []"
| "scattered disk pos ((p, n) # xs) = (p, read_bytes pos (unat n) disk) # scattered disk (pos + uint n) xs"

text \<open>
  A device that accepts some lists of vectors: a write of them stores their bytes from the start
  of the device, a read of them delivers the bytes stored there.
\<close>

definition faithful :: "'k dio_os \<Rightarrow> ('k \<Rightarrow> mem) \<Rightarrow> (extent list \<Rightarrow> bool) \<Rightarrow> bool" where
  "faithful S disk accepts \<longleftrightarrow> (\<forall>fd xs outb inb k. accepts xs \<longrightarrow>
     0 \<le> fst (dio_pwritev S fd (out_vecs xs) outb inb k)
     \<and> disk (snd (dio_pwritev S fd (out_vecs xs) outb inb k)) = write_bytes (0, gathered outb xs) (disk k)
     \<and> 0 \<le> fst (fst (dio_preadv S fd xs inb k))
     \<and> snd (fst (dio_preadv S fd xs inb k)) = write_all (scattered (disk k) 0 xs) inb)"

fun ascending :: "int \<Rightarrow> extent list \<Rightarrow> bool" where
  "ascending q [] \<longleftrightarrow> True"
| "ascending q ((p, n) # xs) \<longleftrightarrow> q \<le> p \<and> ascending (p + uint n) xs"

definition own_bytes :: "mem \<Rightarrow> extent list \<Rightarrow> segment list" where
  "own_bytes m = map (\<lambda>(p, n). (p, read_bytes p (unat n) m))"

lemma read_back_slice:
  "read_bytes (q + int (length pre)) (length bs) (write_bytes (q, pre @ bs @ post) m) = bs"
proof (rule nth_equalityI)
  fix j
  assume j: "j < length (read_bytes (q + int (length pre)) (length bs) (write_bytes (q, pre @ bs @ post) m))"
  then have "write_bytes (q, pre @ bs @ post) m (q + int (length pre + j)) = (pre @ bs @ post) ! (length pre + j)"
    by (intro write_bytes_inside) simp
  then show "read_bytes (q + int (length pre)) (length bs) (write_bytes (q, pre @ bs @ post) m) ! j = bs ! j"
    using j by (simp add: nth_append add.assoc)
qed simp

text \<open>What has been gathered and stored is scattered back to where it came from.\<close>

lemma scattered_gathered:
  "scattered (write_bytes (0, pre @ gathered m xs) disk) (int (length pre)) xs = own_bytes m xs"
proof (induction xs arbitrary: pre)
  case (Cons x xs)
  obtain p n where x: "x = (p, n)" by (cases x)
  let ?bs = "read_bytes p (unat n) m"
  have "int (length pre) + uint n = int (length (pre @ ?bs))" by simp
  then show ?case
    using Cons.IH [of "pre @ ?bs"] read_back_slice [of 0 pre ?bs "gathered m xs" disk]
    by (simp add: x gathered_def own_bytes_def)
qed (simp add: own_bytes_def)

lemma chain_own_bytes: "ascending q xs \<Longrightarrow> \<exists>r. chain q (own_bytes m xs) r"
proof (induction q xs rule: ascending.induct)
  case (2 q p n xs)
  then show ?case by (auto simp: own_bytes_def)
qed (auto simp: own_bytes_def)

lemma same_at_holds: "same_at d (p, n) \<longleftrightarrow> holds_at (p, read_bytes p (unat n) (out_buf d)) (in_buf d)"
  by (auto simp: same_at_def holds_at_iff)

lemma compare_all_same:
  "\<forall>x \<in> set xs. in_range d x \<and> same_at d x \<Longrightarrow> compare_all d xs w = Inr (d, w)"
  by (induction xs) (simp_all add: compare_def andthen_def)

lemma pwritev_runs:
  assumes "faithful S disk accepts" and "accepts xs" and "all_in_range d xs"
  obtains r w' where "pwritev S d (out_vecs xs) w = Inr (r, w')" and "0 \<le> r"
    and "disk (kst w') = write_bytes (0, gathered (out_buf d) xs) (disk (kst w))"
proof -
  obtain r k where k: "dio_pwritev S (test_fd d) (out_vecs xs) (out_buf d) (in_buf d) (kst w) = (r, k)" by fastforce
  then have "0 \<le> r" "disk k = write_bytes (0, gathered (out_buf d) xs) (disk (kst w))"
    using assms(1,2) unfolding faithful_def by (metis fst_conv snd_conv)+
  moreover have "pwritev S d (out_vecs xs) w = Inr (r, w\<lparr>kst := k, sys_log := sys_log w @ [Dio_Written (out_vecs xs) r]\<rparr>)"
    using k by (simp add: pwritev_def vec_ok_out [OF assms(3)] syscall_def)
  ultimately show thesis using that [of r "w\<lparr>kst := k, sys_log := sys_log w @ [Dio_Written (out_vecs xs) r]\<rparr>"] by simp
qed

lemma preadv_runs:
  assumes "faithful S disk accepts" and "accepts xs" and "all_in_range d xs"
  obtains r w' where "preadv S d xs w = Inr ((r, d\<lparr>in_buf := write_all (scattered (disk (kst w)) 0 xs) (in_buf d)\<rparr>), w')"
    and "0 \<le> r"
proof -
  obtain r m k where k: "dio_preadv S (test_fd d) xs (in_buf d) (kst w) = ((r, m), k)" by (metis prod.exhaust)
  then have "0 \<le> r" "m = write_all (scattered (disk (kst w)) 0 xs) (in_buf d)"
    using assms(1,2) unfolding faithful_def by (metis fst_conv snd_conv)+
  moreover have "preadv S d xs w = Inr ((r, d\<lparr>in_buf := m\<rparr>), w\<lparr>kst := k, sys_log := sys_log w @ [Dio_Read xs r]\<rparr>)"
    using k assms(3) by (simp add: preadv_def all_in_range_def syscall_def andthen_def)
  ultimately show thesis using that by simp
qed

text \<open>The state after the vectors have been written and read back.\<close>

definition round_trip :: "dio \<Rightarrow> extent list \<Rightarrow> dio" where
  "round_trip d xs = d\<lparr>in_buf := write_all (own_bytes (out_buf d) xs) (in_buf d)\<rparr>"

lemma round_trip_runs:
  assumes "faithful S disk accepts" and "accepts xs" and "all_in_range d xs"
  obtains r w' r' w'' where "pwritev S d (out_vecs xs) w = Inr (r, w')" and "0 \<le> r"
    and "preadv S d xs w' = Inr ((r', round_trip d xs), w'')" and "0 \<le> r'"
proof -
  obtain r w' where w: "pwritev S d (out_vecs xs) w = Inr (r, w')" "0 \<le> r"
    "disk (kst w') = write_bytes (0, gathered (out_buf d) xs) (disk (kst w))"
    by (rule pwritev_runs [OF assms])
  obtain r' w'' where "preadv S d xs w' = Inr ((r', d\<lparr>in_buf := write_all (scattered (disk (kst w')) 0 xs) (in_buf d)\<rparr>), w'')"
    "0 \<le> r'"
    by (rule preadv_runs [OF assms])
  then show thesis
    using that [OF w(1,2)] scattered_gathered [of "[]" "out_buf d" xs] by (simp add: round_trip_def w(3))
qed

lemma must_pass_faithful:
  assumes "faithful S disk accepts" and "accepts xs" and "all_in_range d xs" and "ascending 0 xs"
  obtains w' where "must_pass S d xs w = Inr (round_trip d xs, w')"
proof -
  obtain r w1 r' w2 where run: "pwritev S d (out_vecs xs) w = Inr (r, w1)" "0 \<le> r"
    "preadv S d xs w1 = Inr ((r', round_trip d xs), w2)" "0 \<le> r'"
    by (rule round_trip_runs [OF assms(1-3)])
  obtain q where "chain 0 (own_bytes (out_buf d) xs) q" using chain_own_bytes [OF assms(4)] by blast
  then have "\<forall>s \<in> set (own_bytes (out_buf d) xs). holds_at s (in_buf (round_trip d xs))"
    using write_all_holds by (simp add: round_trip_def)
  then have "\<forall>x \<in> set xs. in_range (round_trip d xs) x \<and> same_at (round_trip d xs) x"
    using assms(3) by (auto simp: all_in_range_def list_all_iff own_bytes_def same_at_holds round_trip_def in_range_def)
  then have "compare_all (round_trip d xs) xs w2 = Inr (round_trip d xs, w2)" by (rule compare_all_same)
  then show thesis using run by (intro that) (simp add: must_pass_def read_back_def andthen_def)
qed

lemma clear_same_at [simp]: "all_in_range (clear_in d) xs = all_in_range d xs"
  by (rule all_in_range_same) simp

lemma ascending_weaken: "ascending q xs \<Longrightarrow> q' \<le> q \<Longrightarrow> ascending q' xs"
  by (cases xs) auto

lemma ascending_strided:
  assumes "uint (word_of_nat D :: u64) = int D"
  shows "ascending (int (a * D * 2)) (nat_vecs (map (\<lambda>i. (i * D * 2, D)) [a..<a + n]))"
proof (induction n arbitrary: a)
  case (Suc n)
  have up: "[a..<a + Suc n] = a # [Suc a..<Suc a + n]" by (simp add: upt_rec)
  have "ascending (int (a * D * 2) + int D) (nat_vecs (map (\<lambda>i. (i * D * 2, D)) [Suc a..<Suc a + n]))"
    by (rule ascending_weaken [OF Suc.IH]) simp
  then show ?case unfolding up by (simp only: list.map nat_vecs_simps ascending.simps assms order_refl simp_thms)
qed (simp add: nat_vecs_def)

lemma layouts_ascending:
  assumes "roomy d"
  shows "ascending 0 (page_aligned_vectors d)" "ascending 0 (dma_aligned_vectors d)" "ascending 0 (max_vector_extents d)"
proof -
  obtain L D P M B where s: "sizes d L D P M B" by (rule roomy_sizes [OF assms])
  note b = sizes_bounds [OF s]
  have u: "uint (word_of_nat (2 * L) :: u64) = int (2 * L)" "uint (word_of_nat D :: u64) = int D"
    by (rule uint_of_nat_u64, use b in simp)+
  show "ascending 0 (page_aligned_vectors d)"
    unfolding page_aligned_nat [OF s] upt_4 list.map nat_vecs_simps ascending.simps u by simp
  show "ascending 0 (dma_aligned_vectors d)"
    unfolding dma_aligned_nat [OF s] upt_4 list.map nat_vecs_simps ascending.simps u using b by simp
  from ascending_strided [OF u(2), of 0 320] show "ascending 0 (max_vector_extents d)"
    unfolding max_vector_nat [OF s] by simp
qed

text \<open>
  C22. On a device that behaves like memory the first four tests (one large transfer, one at a DMA
  aligned address, page aligned vectors, DMA aligned vectors) all pass: what has been written is
  read back to where it came from.
\<close>

theorem dio_faithful_passes:
  assumes "roomy d" and "faithful S disk accepts"
    and "accepts [(0, buf_size d)]" and "accepts [(uint (dma_alignment d), max_bytes d)]"
    and "accepts (page_aligned_vectors d)" and "accepts (dma_aligned_vectors d)"
  shows "\<exists>d' w'. run_list [test_full_size_aligned, test_dma_aligned, test_page_aligned_vectors,
             test_dma_aligned_vectors] S d w = Inr (d', w') \<and> same_config d d'"
proof -
  have step: "\<exists>d' w'. must_pass S (clear_in d0) xs w = Inr (d', w') \<and> same_config d d'"
    if "same_config d d0" "accepts xs" "all_in_range d xs" "ascending 0 xs" for d0 xs w
  proof -
    note hyps = that
    have "all_in_range (clear_in d0) xs" using hyps by (simp add: all_in_range_same)
    then obtain w' where "must_pass S (clear_in d0) xs w = Inr (round_trip (clear_in d0) xs, w')"
      by (rule must_pass_faithful [OF assms(2) hyps(2) _ hyps(4)])
    moreover have "same_config d (round_trip (clear_in d0) xs)"
      using same_config_trans [OF hyps(1) same_config_clear] by (simp add: round_trip_def)
    ultimately show ?thesis by blast
  qed
  note r = layouts_in_range [OF assms(1)] and asc = layouts_ascending [OF assms(1)]
  have same: "page_aligned_vectors d0 = page_aligned_vectors d" "dma_aligned_vectors d0 = dma_aligned_vectors d"
    if "same_config d d0" for d0
    using that by (simp_all add: page_aligned_vectors_def dma_aligned_vectors_def same_config_fields)
  obtain d1 w1 where 1: "test_full_size_aligned S d w = Inr (d1, w1)" "same_config d d1"
    using step [OF same_config_refl assms(3) r(1), of w] by (auto simp: test_full_size_aligned_def)
  obtain d2 w2 where 2: "test_dma_aligned S d1 w1 = Inr (d2, w2)" "same_config d d2"
    using step [OF 1(2) assms(4) r(2), of w1] by (auto simp: test_dma_aligned_def same_config_fields [OF 1(2)])
  obtain d3 w3 where 3: "test_page_aligned_vectors S d2 w2 = Inr (d3, w3)" "same_config d d3"
    using step [OF 2(2) assms(5) r(3) asc(1), of w2] by (auto simp: test_page_aligned_vectors_def same [OF 2(2)])
  obtain d4 w4 where 4: "test_dma_aligned_vectors S d3 w3 = Inr (d4, w4)" "same_config d d4"
    using step [OF 3(2) assms(6) r(4) asc(2), of w3] by (auto simp: test_dma_aligned_vectors_def same [OF 3(2)])
  show ?thesis using 1 2 3 4 by (simp add: andthen_def)
qed

text \<open>A device in memory that accepts everything, for concrete runs.\<close>

definition vec_bytes :: "mem \<Rightarrow> mem \<Rightarrow> iovec \<Rightarrow> u8 list" where
  "vec_bytes outb inb v = (case v of
     (Null_Base, n) \<Rightarrow> [] | (Out_At p, n) \<Rightarrow> read_bytes p (unat n) outb | (In_At p, n) \<Rightarrow> read_bytes p (unat n) inb)"

definition mem_dev :: "mem dio_os" where
  "mem_dev = \<lparr>dio_open = (\<lambda>_ k. (3, k)), dio_page_size = 4096, dio_blkgetsize64 = (\<lambda>_ k. (Some (2 ^ 40), k)),
     dio_memalign = (\<lambda>_ _ k. (Some (\<lambda>_. 0), k)), dio_read = (\<lambda>_ _ m k. ((1, m), k)),
     dio_pwritev = (\<lambda>_ iov outb inb k. (1, write_bytes (0, concat (map (vec_bytes outb inb) iov)) k)),
     dio_preadv = (\<lambda>_ xs inb k. ((1, write_all (scattered k 0 xs) inb), k))\<rparr>"

lemma mem_dev_faithful: "faithful mem_dev (\<lambda>k. k) (\<lambda>_. True)"
proof -
  have "map (vec_bytes outb inb) (out_vecs xs) = map (\<lambda>(p, n). read_bytes p (unat n) outb) xs" for outb inb xs
    by (auto simp: out_vecs_def vec_bytes_def)
  then show ?thesis by (simp add: faithful_def mem_dev_def gathered_def)
qed

definition demo_dio :: dio where
  "demo_dio = \<lparr>test_fd = 3, logical_block_size = 512, dma_alignment = 32, virt_boundary = 1, max_segments = 128,
     max_bytes = 65536, buf_size = 4194304, pagesize = 4096, out_buf = (\<lambda>_. 7), in_buf = (\<lambda>_. 0)\<rparr>"

lemma demo_dio_roomy: "roomy demo_dio" "roomy (demo_dio\<lparr>in_buf := m\<rparr>)"
proof -
  have "\<exists>l m p. (512 :: u64) = 2 ^ l \<and> (32 :: u64) = 2 ^ m \<and> (4096 :: u64) = 2 ^ p
      \<and> m \<le> l \<and> m \<le> p \<and> l \<le> 16 \<and> l \<le> p + 2 \<and> 12 \<le> p \<and> p \<le> (16 :: nat)"
    by (intro exI [of _ 9] exI [of _ 5] exI [of _ 12]) simp
  then show "roomy demo_dio" "roomy (demo_dio\<lparr>in_buf := m\<rparr>)" by (simp_all add: roomy_def demo_dio_def)
qed

theorem dio_faithful_passes_witness:
  "\<exists>d' w'. run_list [test_full_size_aligned, test_dma_aligned, test_page_aligned_vectors,
     test_dma_aligned_vectors] mem_dev demo_dio \<lparr>kst = (\<lambda>_. 0), sys_log = []\<rparr> = Inr (d', w') \<and> same_config demo_dio d'"
  by (rule dio_faithful_passes [OF demo_dio_roomy(1) mem_dev_faithful]) simp_all

end
