(* ===== verification/Dio_Props.thy ===== *)
theory Dio_Props
  imports Dio_Device
begin

text \<open>
  The properties of \<open>dio-offsets.c\<close>: what the set-up guarantees, that no test leaves the buffers, and
  two tests that do not do what they are for.
\<close>

section \<open>Bounds\<close>

text \<open>
  C21. Under the limits of \<open>roomy\<close> (power-of-two sizes, a transfer limit of at least a block, buffers
  of at least 13 transfers, 4096 blocks and 25 pages) no test writes, reads or compares outside the
  two buffers, whatever the system calls answer, and no division by zero happens.
\<close>

theorem dio_tests_in_bounds:
  assumes "roomy d"
  shows "run_tests S d w \<noteq> Inl (Fault f)"
proof -
  have "keeps d (run_tests S d)"
    unfolding run_tests_def by (rule keeps_run_list [OF assms]) (auto intro: keeps_tests)
  then show ?thesis by (rule safe_no_fault)
qed

theorem dio_tests_in_bounds_witness:
  "run_tests mem_dev demo_dio \<lparr>kst = (\<lambda>_. 0), sys_log = []\<rparr> \<noteq> Inl (Fault Out_Of_Bounds)"
  by (rule dio_tests_in_bounds [OF demo_dio_roomy(1)])

text \<open>Without room for twelve transfers and a half, the last test hands vectors outside the buffer to the kernel.\<close>

lemma dio_few_segments_overrun:
  assumes "unat (max_bytes d) \<le> 2 ^ 24" and "unat (buf_size d) < 13 * unat (max_bytes d) - unat (max_bytes d) div 2"
  shows "test_invalid_dma_vector_length S d w = Inl (Fault Out_Of_Bounds)"
proof -
  define M B where "M = unat (max_bytes d)" and "B = unat (buf_size d)"
  have uB: "uint (buf_size d) = int B" by (simp add: B_def)
  have few: "B < 13 * M - M div 2" using assms(2) by (simp add: M_def B_def)
  have f: "max_bytes d = word_of_nat M" by (simp add: M_def)
  have M: "M \<le> 16777216" using assms(1) by (simp add: M_def)
  have u: "uint (max_bytes d * 12) = int (12 * M)"
    using uint_of_nat_u64 [of "12 * M"] M by (simp add: f mult.commute)
  have l: "uint (max_bytes d - max_bytes d div 2) = int (M - M div 2)"
    using word_of_nat_div [of M 2] word_of_nat_diff [of "M div 2" M] uint_of_nat_u64 [of "M - M div 2"] M
    by (simp add: f)
  have "\<not> in_range d (uint (max_bytes d * 12), max_bytes d - max_bytes d div 2)"
    using few by (simp add: in_range_def u l uB)
  then have "\<not> list_all (vec_ok d) (out_vecs (vector_length_extents d))"
    by (simp add: vector_length_extents_def out_vecs_def)
  then show ?thesis
    by (simp add: test_invalid_dma_vector_length_def may_fail_def pwritev_def andthen_def Let_def)
qed

section \<open>Two tests\<close>

lemma sdiv_nat: "int a sdiv int b = int (a div b)"
  by (simp add: signed_divide_int_def zdiv_int sgn_if)

text \<open>The byte behind the first vector of the test is still zero after reading back.\<close>

lemma upt_head: "[0..<320] = 0 # [1..<320 :: nat]"
  using upt_conv_Cons [of 0 320] by (simp only: One_nat_def zero_less_numeral simp_thms)

lemma gap_byte:
  assumes "sizes d L D P M B"
  shows "in_buf (round_trip (clear_in d) (max_vector_extents d)) (int D) = 0"
proof -
  note b = sizes_bounds [OF assms] and f = sizes_fields [OF assms]
  have uD: "uint (word_of_nat D :: u64) = int D" "unat (word_of_nat D :: u64) = D"
    by (rule uint_of_nat_u64 unat_of_nat_small, use b in simp)+
  let ?rest = "nat_vecs (map (\<lambda>i. (i * D * 2, D)) [1..<1 + 319])"
  have xs: "max_vector_extents d = (0, word_of_nat D) # ?rest"
    unfolding max_vector_nat [OF assms] upt_head list.map nat_vecs_simps by simp
  have n: "1 + 319 = (320 :: nat)" by simp
  obtain q where "chain (int (1 * D * 2)) (own_bytes (out_buf d) ?rest) q"
    using chain_own_bytes [OF ascending_strided [OF uD(1), of 1 319]] unfolding n by blast
  then have "write_all (own_bytes (out_buf d) ?rest) m (int D) = m (int D)" for m
    using b(2) by (intro write_all_outside) auto
  then have "in_buf (round_trip (clear_in d) (max_vector_extents d)) (int D)
      = write_bytes (0, read_bytes 0 D (out_buf d)) (in_buf (clear_in d)) (int D)"
    by (simp add: xs round_trip_def own_bytes_def uD)
  also have "\<dots> = in_buf (clear_in d) (int D)" by (rule write_bytes_outside) simp
  also have "\<dots> = 0" using b uint_of_nat_u64 [of B] by (simp add: clear_in_def f)
  finally show ?thesis .
qed

text \<open>
  \<open>test_max_vector_limits\<close> rejects a good device: for vectors shorter than half a block (and a
  device that has to accept them) it compares half a block at each vector, so a byte of \<open>out_buf\<close>
  in the gap behind the first vector that is not zero ends the program with an error, although
  every vector has been read back correctly.
\<close>

theorem max_vector_limits_rejects:
  assumes "roomy d" and "faithful S disk accepts" and "accepts (max_vector_extents d)"
    and "unat (dma_alignment d) < unat (logical_block_size d) div 2"
    and "unat (pagesize d) div unat (dma_alignment d) < 256" and "virt_boundary d \<le> dma_alignment d"
    and "out_buf d (uint (dma_alignment d)) \<noteq> 0"
  shows "test_max_vector_limits S d w = Inl (Exit 1)"
proof -
  obtain L D P M B where s: "sizes d L D P M B" by (rule roomy_sizes [OF assms(1)])
  note b = sizes_bounds [OF s] and f = sizes_fields [OF s] and r = layouts_in_range [OF assms(1)]
  have un: "unat (dma_alignment d) = D" "unat (logical_block_size d) = L" "unat (pagesize d) = P" "uint (dma_alignment d) = int D"
    unfolding f by (rule unat_of_nat_small unat_of_nat_small unat_of_nat_small uint_of_nat_u64, use b in simp)+
  let ?d = "clear_in d" and ?xs = "max_vector_extents d"
  let ?half = "logical_block_size d div 2" and ?r = "round_trip (clear_in d) (max_vector_extents d)"
  have "dma_alignment d \<noteq> 0" using assms(1) by (auto simp: roomy_def)
  then have cond: "\<not> (dma_alignment d = 0 \<or> c_int (logical_block_size d div dma_alignment d) = 0 \<or> max_vector_size d = 0)"
    using max_vector_size_nat [OF s] b(2) by simp
  have "sint (pagesize d) sdiv max_vector_size d = int (P div D)"
    using sint_u64_small [of "pagesize d"] b un by (simp add: max_vector_size_nat [OF s] sdiv_nat)
  moreover have "word_of_int (max_vector_size d) = dma_alignment d" by (simp add: max_vector_size_nat [OF s] f)
  ultimately have no_fail: "\<not> \<not> (sint (pagesize d) sdiv max_vector_size d < 256 \<and> virt_boundary d \<le> word_of_int (max_vector_size d))"
    using assms(5,6) un by simp
  have inside: "all_in_range ?d ?xs" by (simp add: r)
  obtain r1 w1 r2 w2 where run: "pwritev S ?d (out_vecs ?xs) w = Inr (r1, w1)" "0 \<le> r1"
    "preadv S ?d ?xs w1 = Inr ((r2, ?r), w2)" "0 \<le> r2"
    by (rule round_trip_runs [OF assms(2,3) inside])
  have half: "unat ?half = L div 2" by (simp add: unat_div un)
  have "\<not> same_at ?r (0, ?half)"
  proof
    assume "same_at ?r (0, ?half)"
    moreover have "D < L div 2" using assms(4) un by simp
    ultimately have "out_buf ?r (int D) = in_buf ?r (int D)" using half by (auto simp: same_at_def)
    then show False using assms(7) gap_byte [OF s] un by (simp add: round_trip_def)
  qed
  moreover have "in_range ?r (0, ?half)"
  proof -
    have "uint ?half = int (L div 2)" by (simp flip: half)
    moreover have "uint (buf_size d) = int B" unfolding f by (rule uint_of_nat_u64) (use b in simp)
    ultimately show ?thesis using b by (simp add: in_range_def round_trip_def)
  qed
  ultimately have "compare ?r (0, ?half) w2 = Inl (Exit 1)" by (simp add: compare_def)
  moreover have "map (\<lambda>(p, n). (p, ?half)) ?xs = (0, ?half) # map (\<lambda>(p, n). (p, ?half)) (tl ?xs)"
    unfolding max_vector_nat [OF s] upt_head list.map nat_vecs_simps list.sel by simp
  ultimately have "compare_all ?r (map (\<lambda>(p, n). (p, ?half)) ?xs) w2 = Inl (Exit 1)"
    by (simp add: andthen_def)
  then show ?thesis
    unfolding test_max_vector_limits_def Let_def if_not_P [OF cond] using run no_fail
    by (simp add: may_fail_def read_back_def andthen_def)
qed

theorem max_vector_limits_rejects_witness:
  "test_max_vector_limits mem_dev demo_dio \<lparr>kst = (\<lambda>_. 0), sys_log = []\<rparr> = Inl (Exit 1)"
  by (rule max_vector_limits_rejects [OF demo_dio_roomy(1) mem_dev_faithful]) (simp_all add: demo_dio_def)

text \<open>
  \<open>test_invalid_dma_vector_length\<close> never reads the device: its second transfer is a write again.
  On a device with byte alignment it succeeds only if the buffers agreed before it began.
\<close>

theorem vector_length_never_reads:
  assumes "test_invalid_dma_vector_length S d w = Inr (d', w')"
  shows "d' = d \<and> (dma_alignment d \<le> 1 \<longrightarrow> (\<forall>x \<in> set (vector_length_extents d). same_at d x))
    \<and> (\<exists>tr. sys_log w' = sys_log w @ tr \<and> (\<forall>xs r. Dio_Read xs r \<notin> set tr))"
proof -
  let ?no_read = "\<lambda>tr. \<forall>xs r. Dio_Read xs r \<notin> set tr"
  have writes: "logs (pwritev S d iov) (\<lambda>ret. ?no_read)" for iov
    by (auto simp: pwritev_def intro: logs_syscall logs_halt)
  have cmp: "logs (compare_all d xs) (\<lambda>r tr. tr = [] \<and> r = d \<and> (\<forall>x \<in> set xs. same_at d x))" for xs
  proof (induction xs)
    case (Cons x xs)
    have "logs (compare d x) (\<lambda>_ tr. tr = [] \<and> same_at d x)"
      by (simp add: compare_def logs_halt logs_returns)
    then show ?case unfolding compare_all.simps by (rule logs_andthen) (auto intro: logs_weaken [OF Cons.IH])
  next
    case Nil
    show ?case unfolding compare_all.simps by (rule logs_returns) simp
  qed
  let ?same = "\<forall>x \<in> set (vector_length_extents d). same_at d x"
  have second: "logs (andthen (pwritev S d (in_vecs (vector_length_extents d)))
      (\<lambda>ret. if ret < 0 then err else compare_all d (vector_length_extents d))) (\<lambda>r tr. r = d \<and> ?no_read tr \<and> ?same)"
    by (rule logs_andthen [OF writes]) (auto intro: logs_halt logs_weaken [OF cmp])
  have "logs (test_invalid_dma_vector_length S d) (\<lambda>r tr. r = d \<and> ?no_read tr \<and> (dma_alignment d \<le> 1 \<longrightarrow> ?same))"
    unfolding test_invalid_dma_vector_length_def may_fail_def Let_def
  proof (rule logs_andthen [OF writes])
    fix ret :: int and tr
    assume tr: "?no_read tr"
    let ?Q = "\<lambda>r tr'. r = d \<and> ?no_read (tr @ tr') \<and> (dma_alignment d \<le> 1 \<longrightarrow> ?same)"
    have done1: "logs (returns d) ?Q" if "1 < dma_alignment d"
      by (rule logs_returns) (use tr that in \<open>auto simp: not_le [symmetric]\<close>)
    have done2: "logs (andthen (pwritev S d (in_vecs (vector_length_extents d)))
        (\<lambda>ret. if ret < 0 then err else compare_all d (vector_length_extents d))) ?Q"
      by (rule logs_weaken [OF second]) (use tr in auto)
    show "logs (if ret < 0 then if 1 < dma_alignment d then returns d else err else if 1 < dma_alignment d then err
        else andthen (pwritev S d (in_vecs (vector_length_extents d)))
          (\<lambda>ret. if ret < 0 then err else compare_all d (vector_length_extents d))) ?Q"
      by (cases "ret < 0"; cases "1 < dma_alignment d") (simp_all only: if_True if_False logs_halt done1 done2)
  qed
  from logsD [OF this assms] obtain tr where "sys_log w' = sys_log w @ tr"
    "d' = d \<and> ?no_read tr \<and> (dma_alignment d \<le> 1 \<longrightarrow> ?same)" by metis
  then show ?thesis by blast
qed

definition byte_dio :: dio where
  "byte_dio = demo_dio\<lparr>dma_alignment := 1, out_buf := (\<lambda>_. 0)\<rparr>"

theorem vector_length_never_reads_witness:
  "\<exists>d' w'. test_invalid_dma_vector_length mem_dev byte_dio \<lparr>kst = (\<lambda>_. 7), sys_log = []\<rparr> = Inr (d', w')
     \<and> (\<forall>xs r. Dio_Read xs r \<notin> set (sys_log w'))"
proof -
  let ?xs = "vector_length_extents byte_dio"
  have inside: "list_all (in_range byte_dio) ?xs"
    by (simp add: vector_length_extents_def byte_dio_def demo_dio_def in_range_def)
  then have ok: "list_all (vec_ok byte_dio) (out_vecs ?xs)" "list_all (vec_ok byte_dio) (in_vecs ?xs)"
    by (auto simp: list_all_iff out_vecs_def in_vecs_def)
  have "\<forall>x \<in> set ?xs. in_range byte_dio x \<and> same_at byte_dio x"
    using inside by (auto simp: list_all_iff same_at_def byte_dio_def demo_dio_def)
  then have cmp: "compare_all byte_dio ?xs w = Inr (byte_dio, w)" for w :: "(mem, dio_event) sys_world"
    by (rule compare_all_same)
  have dma: "\<not> 1 < dma_alignment byte_dio" by (simp add: byte_dio_def)
  have "\<exists>d' w'. test_invalid_dma_vector_length mem_dev byte_dio \<lparr>kst = (\<lambda>_. 7), sys_log = []\<rparr> = Inr (d', w')"
    unfolding test_invalid_dma_vector_length_def may_fail_def Let_def
    by (simp add: ok cmp dma pwritev_def andthen_def syscall_def mem_dev_def)
  then obtain d' w' where run: "test_invalid_dma_vector_length mem_dev byte_dio \<lparr>kst = (\<lambda>_. 7), sys_log = []\<rparr> = Inr (d', w')"
    by blast
  then show ?thesis using vector_length_never_reads [OF run] by auto
qed

end
