(* ===== verification/Dio_Setup.thy ===== *)
theory Dio_Setup
  imports Dio_Props
begin

text \<open>
  What the set-up of \<open>dio-offsets.c\<close> guarantees: the parameters that pass its checks, the limits
  they are cut to, and that the buffers it sizes are roomy enough for all tests.
\<close>

section \<open>Powers of two\<close>

lemma and_pred_eq_zero:
  assumes "n \<noteq> 0" and "n AND (n - 1) = (0 :: nat)"
  obtains k where "n = 2 ^ k"
proof -
  obtain k where lo: "2 ^ k \<le> n" and hi: "n < 2 ^ Suc k"
    using ex_power_ivl1 [of 2 n] assms(1) by auto
  have top: "bit m k" if "2 ^ k \<le> m" "m < 2 ^ Suc k" for m :: nat
  proof -
    have "m div 2 ^ k = 1" using that by (intro div_nat_eqI) simp_all
    then show ?thesis by (simp add: bit_iff_odd)
  qed
  have "n = 2 ^ k"
  proof (rule ccontr)
    assume "n \<noteq> 2 ^ k"
    then have "2 ^ k \<le> n - 1" using lo by simp
    then have "bit (n AND (n - 1)) k" using lo hi by (simp add: bit_and_iff top)
    then show False using assms(2) by simp
  qed
  then show thesis by (rule that)
qed

lemma power_of_2_exp:
  assumes "power_of_2 x"
  obtains k where "unat x = 2 ^ k" and "x = 2 ^ k" and "k < 64"
proof -
  have ne: "x \<noteq> 0" and zero: "x AND (x - 1) = 0" using assms by (auto simp: power_of_2_def)
  have "unat (x AND (x - 1)) = unat x AND unat (x - 1)" by (rule unsigned_and_eq)
  moreover have "unat (x - 1) = unat x - 1" by (rule unat_minus_1) (use ne in \<open>simp add: unat_gt_0\<close>)
  ultimately have "unat x \<noteq> 0" "unat x AND (unat x - 1) = 0" using ne zero by (simp_all add: unat_eq_zero)
  then obtain k where k: "unat x = 2 ^ k" by (rule and_pred_eq_zero)
  have "(2 :: nat) ^ k < 2 ^ 64" using unsigned_less [of x, where 'a = nat] by (simp add: k)
  then have "k < 64" by (rule power_less_imp_less_exp [rotated]) simp
  moreover have "x = 2 ^ k" using arg_cong [OF k, of "word_of_nat :: nat \<Rightarrow> u64"] by simp
  ultimately show thesis using k that by blast
qed

lemma and_pred_exp: "w AND (2 ^ l - 1) = take_bit l w" for w :: u64
  by (simp add: take_bit_eq_mask mask_eq_exp_minus_1)

lemma unat_take_bit: "unat (take_bit l w) = unat w mod 2 ^ l" for w :: u64
  by (simp only: unsigned_take_bit_eq take_bit_nat_def)

section \<open>The parameters\<close>

lemma clamp_params_fields [simp]:
  "logical_block_size (clamp_params d) = logical_block_size d" "dma_alignment (clamp_params d) = dma_alignment d"
  "virt_boundary (clamp_params d) = virt_boundary d"
  by (simp_all add: clamp_params_def Let_def)

lemma clamp_params_limits:
  assumes "logical_block_size d = 2 ^ l"
  shows "unat (max_segments (clamp_params d)) \<le> 4096" and "unat (max_bytes (clamp_params d)) \<le> 16777216"
    and "2 ^ l dvd unat (max_bytes (clamp_params d))"
proof -
  show "unat (max_segments (clamp_params d)) \<le> 4096"
    by (auto simp: clamp_params_def Let_def word_less_nat_alt not_less)
  define m where "m = (if 16777216 < max_bytes d then 16777216 else max_bytes d)"
  have m: "unat m \<le> 16777216" by (auto simp: m_def word_less_nat_alt not_less)
  have "max_bytes (clamp_params d) = m - take_bit l m"
    by (auto simp: clamp_params_def Let_def m_def assms and_pred_exp)
  moreover have "unat (m - take_bit l m) = unat m - unat m mod 2 ^ l"
    by (simp add: unat_sub word_le_nat_alt unat_take_bit)
  ultimately have e: "unat (max_bytes (clamp_params d)) = unat m - unat m mod 2 ^ l" by simp
  show "unat (max_bytes (clamp_params d)) \<le> 16777216" using m by (simp add: e)
  show "2 ^ l dvd unat (max_bytes (clamp_params d))" by (simp add: e dvd_minus_mod)
qed

lemma init_args_value:
  assumes "init_args S argv w = Inr (d, w')"
  obtains d0 where "good_params d0" and "d = (clamp_params d0)\<lparr>pagesize := dio_page_size S\<rparr>"
  using assms unfolding init_args_def Let_def
  by (auto elim!: andthen_InrE split: if_splits)

text \<open>
  C24. When \<open>init_args\<close> accepts its arguments, the block size, the DMA alignment and the virtual
  boundary are powers of two, the alignment divides the block, the boundary is off or at least a
  block, at most 4096 segments and 16 MiB remain, and the transfer limit is a whole number of blocks.
\<close>

theorem dio_args_checked:
  assumes "init_args S argv w = Inr (d, w')"
  shows "\<exists>l m v. logical_block_size d = 2 ^ l \<and> dma_alignment d = 2 ^ m \<and> virt_boundary d = 2 ^ v
      \<and> l < 64 \<and> m \<le> l \<and> v < 64 \<and> (v = 0 \<or> l \<le> v)
      \<and> unat (max_segments d) \<le> 4096 \<and> unat (max_bytes d) \<le> 16384 * 1024 \<and> 2 ^ l dvd unat (max_bytes d)"
proof -
  obtain d0 where good: "good_params d0" and d: "d = (clamp_params d0)\<lparr>pagesize := dio_page_size S\<rparr>"
    by (rule init_args_value [OF assms])
  obtain v where v: "unat (virt_boundary d0) = 2 ^ v" "virt_boundary d0 = 2 ^ v" "v < 64"
    using good power_of_2_exp by (auto simp: good_params_def)
  obtain m where m: "unat (dma_alignment d0) = 2 ^ m" "dma_alignment d0 = 2 ^ m"
    using good power_of_2_exp by (auto simp: good_params_def)
  obtain l where l: "unat (logical_block_size d0) = 2 ^ l" "logical_block_size d0 = 2 ^ l" "l < 64"
    using good power_of_2_exp by (auto simp: good_params_def)
  have "m \<le> l" using good m(1) l(1) by (simp add: good_params_def word_less_nat_alt not_less)
  moreover have "(2 :: nat) ^ v \<le> 1 \<or> (2 :: nat) ^ l \<le> 2 ^ v"
    using good v(1) l(1) by (auto simp: good_params_def word_less_nat_alt not_less)
  then have "v = 0 \<or> l \<le> v" using power_le_imp_le_exp [of "2 :: nat" v 0] power_le_imp_le_exp [of "2 :: nat" l v] by auto
  ultimately show ?thesis
    using clamp_params_limits [OF l(2)] l v m by (intro exI [of _ l] exI [of _ m] exI [of _ v]) (simp add: d)
qed

definition demo_argv :: "string list" where
  "demo_argv = [''dio-offsets'', ''/dev/sda'', ''128'', ''1280'', ''3'', ''0'', ''512'']"

lemma demo_magnitudes:
  "magnitude 0 ''128'' = 128" "magnitude 0 ''1280'' = 1280" "magnitude 0 ''3'' = 3" "magnitude 0 ''0'' = 0"
  "magnitude 0 ''512'' = 512"
  by code_simp+

lemma demo_signs:
  "strip_sign (dropWhile is_space ''128'') = (False, ''128'')" "strip_sign (dropWhile is_space ''1280'') = (False, ''1280'')"
  "strip_sign (dropWhile is_space ''3'') = (False, ''3'')" "strip_sign (dropWhile is_space ''0'') = (False, ''0'')"
  "strip_sign (dropWhile is_space ''512'') = (False, ''512'')"
  by code_simp+

lemma demo_numbers:
  "strtoul 0 ''128'' = 128" "strtoul 0 ''1280'' = 1280" "strtoul 0 ''3'' = 3" "strtoul 0 ''0'' = 0" "strtoul 0 ''512'' = 512"
  unfolding strtoul_def demo_signs Let_def prod.case demo_magnitudes by simp_all

definition demo_params :: dio where
  "demo_params = \<lparr>test_fd = 3, logical_block_size = 512, dma_alignment = 4, virt_boundary = 1, max_segments = 128,
     max_bytes = 1310720, buf_size = 0, pagesize = 4096, out_buf = (\<lambda>_. 0), in_buf = (\<lambda>_. 0)\<rparr>"

lemma demo_init_args: "\<exists>w'. init_args mem_dev demo_argv w = Inr (demo_params, w')"
  by (simp add: init_args_def demo_argv_def argument_def andthen_def syscall_def mem_dev_def demo_numbers Let_def
      good_params_def power_of_2_def clamp_params_def dio_static_def demo_params_def)

theorem dio_args_checked_witness:
  "\<exists>d w'. init_args mem_dev demo_argv \<lparr>kst = (\<lambda>_. 0), sys_log = []\<rparr> = Inr (d, w') \<and> unat (max_bytes d) \<le> 16384 * 1024"
  using demo_init_args dio_args_checked by blast

section \<open>The buffers\<close>

lemma init_buffers_value:
  assumes "init_buffers S d0 w = Inr (d, w')"
  obtains wanted dev fd k inb outb where "wanted_size d0 = Some wanted" and "fst (dio_blkgetsize64 S fd k) = Some dev"
    and "d = d0\<lparr>buf_size := (if dev < wanted then dev else wanted), in_buf := inb, out_buf := outb\<rparr>"
proof -
  obtain wanted where s: "wanted_size d0 = Some wanted"
    using assms by (auto simp: init_buffers_def split: option.splits)
  obtain dev k where k: "dio_blkgetsize64 S (test_fd d0) (kst w) = (Some dev, k)"
    using assms by (auto simp: init_buffers_def s andthen_def syscall_def split: option.splits prod.splits)
  obtain inb outb where "d = d0\<lparr>buf_size := (if dev < wanted then dev else wanted), in_buf := inb, out_buf := outb\<rparr>"
    using assms unfolding init_buffers_def s option.case Let_def
    by (auto simp: andthen_def syscall_def k emit_def split: option.splits prod.splits if_splits sum.splits)
  then show thesis using that [OF s, of "test_fd d0" "kst w"] k by simp
qed

lemma wanted_size_lower:
  assumes "logical_block_size d = 2 ^ l" and "l \<le> 16" and "unat (max_bytes d) \<le> 16777216"
    and "unat (max_segments d) \<le> 4096" and "wanted_size d = Some s"
  shows "4096 * 2 ^ l \<le> unat s" and "unat (max_bytes d) * unat (max_segments d) div 2 \<le> unat s"
    and "2 ^ l * unat (max_segments d) \<le> unat (max_bytes d) * unat (max_segments d) div 2"
proof -
  define L M N where "L = (2 :: nat) ^ l" and "M = unat (max_bytes d)" and "N = unat (max_segments d)"
  have L: "1 \<le> L" "L \<le> 65536" using power_increasing [of l 16 "2 :: nat"] assms(2) by (simp_all add: L_def)
  have f: "logical_block_size d = word_of_nat L" "max_bytes d = word_of_nat M" "max_segments d = word_of_nat N"
    by (simp_all add: assms(1) L_def M_def N_def)
  have "M * N \<le> 16777216 * 4096" using assms(3,4) unfolding M_def N_def by (rule mult_le_mono)
  then have MN: "M * N \<le> 68719476736" by simp
  have "L * N \<le> 65536 * 4096" using L assms(4) unfolding N_def by (intro mult_le_mono) simp_all
  then have LN: "L * N \<le> 268435456" by simp
  have size0: "max_bytes d * max_segments d div 2 = word_of_nat (M * N div 2)"
    using word_of_nat_div [of "M * N" 2] MN by (simp add: f)
  have u0: "unat (word_of_nat (M * N div 2) :: u64) = M * N div 2"
    by (rule unat_of_nat_small) (use MN in simp)
  have u1: "unat (logical_block_size d * 1024 * 4) = 4096 * L"
    using unat_of_nat_small [of "4096 * L", where 'a = 64] L by (simp add: f mult.commute)
  have u2: "unat (logical_block_size d * max_segments d) = L * N"
    using unat_of_nat_small [of "L * N", where 'a = 64] LN by (simp add: f)
  define size1 where "size1 = (if word_of_nat (M * N div 2) < logical_block_size d * 1024 * 4
    then logical_block_size d * 1024 * 4 else (word_of_nat (M * N div 2) :: u64))"
  have size1: "unat size1 = max (4096 * L) (M * N div 2)"
  proof -
    have "unat size1 = (if M * N div 2 < 4096 * L then 4096 * L else M * N div 2)"
      unfolding size1_def word_less_nat_alt u0 u1 by (simp only: if_distrib [where f = unat] u0 u1)
    then show ?thesis by (simp add: max_def)
  qed
  have guard: "L * N \<le> M * N div 2" and s: "s = (if take_bit l size1 \<noteq> 0
      then (size1 + (2 ^ l - 1)) AND NOT (mask l) else size1)"
    using assms(5) unfolding wanted_size_def Let_def size0 size1_def [symmetric]
    by (auto simp: word_less_nat_alt u0 u2 [unfolded assms(1)] not_less assms(1) and_pred_exp mask_eq_exp_minus_1 split: if_splits)
  have "unat size1 \<le> unat s"
  proof (cases "take_bit l size1 = 0")
    case False
    have um: "unat (2 ^ l - 1 :: u64) = L - 1"
      using unat_of_nat_small [of "L - 1", where 'a = 64] L by (simp add: L_def of_nat_diff)
    have "unat size1 + (L - 1) < 18446744073709551616" using size1 MN L by simp
    then have "unat (size1 + (2 ^ l - 1)) = unat size1 + (L - 1)"
      using unat_of_nat_small [of "unat size1 + (L - 1)", where 'a = 64] by (simp add: unat_word_ariths(1) um)
    then have "unat s = (unat size1 + (L - 1)) div L * L"
      using False by (simp add: s unat_and_not_mask L_def)
    moreover have "unat size1 \<le> (unat size1 + (L - 1)) div L * L"
      using div_mult_mod_eq [of "unat size1 + (L - 1)" L] mod_less_divisor [of L "unat size1 + (L - 1)"] L(1) by linarith
    ultimately show ?thesis by simp
  qed (simp add: s)
  then show "4096 * 2 ^ l \<le> unat s" "unat (max_bytes d) * unat (max_segments d) div 2 \<le> unat s"
    "2 ^ l * unat (max_segments d) \<le> unat (max_bytes d) * unat (max_segments d) div 2"
    using guard by (simp_all add: size1 L_def M_def N_def)
qed

text \<open>
  C23. The set-up sizes the buffers for all tests: with a block of 512 bytes to 64 KiB, pages of 4 to
  64 KiB that are not smaller than the alignment nor a quarter of the block, at least 26 segments
  and a device that is not smaller than the buffers, the state it leaves is roomy.
\<close>

theorem dio_setup_roomy:
  assumes "init_args S argv w = Inr (d0, w0)" and "init_buffers S d0 w0 = Inr (d, w1)"
    and "dio_page_size S = 2 ^ p" and "12 \<le> p" and "p \<le> 16"
    and "512 \<le> unat (logical_block_size d0)" and "unat (logical_block_size d0) \<le> 65536"
    and "unat (logical_block_size d0) \<le> 4 * unat (dio_page_size S)"
    and "unat (dma_alignment d0) \<le> unat (dio_page_size S)" and "26 \<le> unat (max_segments d0)"
    and "\<forall>fd k dev wanted. fst (dio_blkgetsize64 S fd k) = Some dev \<longrightarrow> wanted_size d0 = Some wanted \<longrightarrow> wanted \<le> dev"
  shows "roomy d"
proof -
  obtain a where good: "good_params a" and d0: "d0 = (clamp_params a)\<lparr>pagesize := dio_page_size S\<rparr>"
    by (rule init_args_value [OF assms(1)])
  obtain l where l: "unat (logical_block_size a) = 2 ^ l" "logical_block_size a = 2 ^ l" "l < 64"
    using good power_of_2_exp by (auto simp: good_params_def)
  obtain m where m: "unat (dma_alignment a) = 2 ^ m" "dma_alignment a = 2 ^ m"
    using good power_of_2_exp by (auto simp: good_params_def)
  have page: "unat (dio_page_size S) = 2 ^ p"
    using assms(3,5) unat_of_nat_small [of "2 ^ p", where 'a = 64] power_increasing [of p 16 "2 :: nat"] by simp
  have "m \<le> l" using good m(1) l(1) by (simp add: good_params_def word_less_nat_alt not_less)
  moreover have "m \<le> p" using assms(9) by (simp add: d0 m(1) page)
  moreover have l16: "l \<le> 16"
    using assms(7) power_le_imp_le_exp [of "2 :: nat" l 16] by (simp add: d0 l(1))
  moreover have "l \<le> p + 2"
    using assms(8) power_le_imp_le_exp [of "2 :: nat" l "p + 2"] by (simp add: d0 l(1) page power_add)
  ultimately have exps: "\<exists>l m p. logical_block_size d0 = 2 ^ l \<and> dma_alignment d0 = 2 ^ m \<and> pagesize d0 = 2 ^ p
        \<and> m \<le> l \<and> m \<le> p \<and> l \<le> 16 \<and> l \<le> p + 2 \<and> 12 \<le> p \<and> p \<le> 16"
    using l m assms(3-5) by (intro exI [of _ l] exI [of _ m] exI [of _ p]) (simp add: d0)
  obtain wanted dev fd k inb outb where s: "wanted_size d0 = Some wanted" "fst (dio_blkgetsize64 S fd k) = Some dev"
    and d: "d = d0\<lparr>buf_size := (if dev < wanted then dev else wanted), in_buf := inb, out_buf := outb\<rparr>"
    by (rule init_buffers_value [OF assms(2)])
  have "wanted \<le> dev" using assms(11) s by blast
  then have "\<not> dev < wanted" by (simp add: not_less)
  then have size: "buf_size d = wanted" by (simp add: d)
  define M N where "M = unat (max_bytes d0)" and "N = unat (max_segments d0)"
  have limits: "unat (max_bytes d0) \<le> 16777216" "unat (max_segments d0) \<le> 4096" "logical_block_size d0 = 2 ^ l"
    using clamp_params_limits [OF l(2)] l by (simp_all add: d0)
  note low = wanted_size_lower [OF limits(3) l16 limits(1,2) s(1)]
  have "M * 26 \<le> M * N" using assms(10) unfolding N_def by (rule mult_le_mono2)
  then have "M * 26 div 2 \<le> M * N div 2" by (rule div_le_mono)
  then have "13 * M \<le> unat wanted" using low(2) unfolding M_def N_def by linarith
  moreover have "2 ^ l * N \<le> M * N"
    unfolding M_def N_def by (rule order_trans [OF low(3)]) simp
  then have "2 ^ l \<le> M" using assms(10) by (simp add: N_def)
  moreover have "(512 :: nat) \<le> 2 ^ l" using assms(6) by (simp add: d0 l(1))
  then have "25 * 65536 \<le> unat wanted" using low(1) by linarith
  moreover have "(2 :: nat) ^ p \<le> 65536" using assms(5) power_increasing [of p 16 "2 :: nat"] by simp
  ultimately show ?thesis
    using exps low(1) page by (simp add: roomy_def size) (simp add: d d0 l(1) M_def)
qed

lemma demo_wanted_size: "wanted_size demo_params = Some 83886080"
  by (simp add: wanted_size_def demo_params_def Let_def)

lemma demo_init_buffers:
  "\<exists>d w'. init_buffers mem_dev demo_params w = Inr (d, w')"
  by (simp add: init_buffers_def demo_wanted_size andthen_def syscall_def mem_dev_def emit_def Let_def)

theorem dio_setup_roomy_witness:
  "\<exists>d0 w0 d w1. init_args mem_dev demo_argv \<lparr>kst = (\<lambda>_. 0), sys_log = []\<rparr> = Inr (d0, w0)
     \<and> init_buffers mem_dev d0 w0 = Inr (d, w1) \<and> roomy d"
proof -
  obtain w0 where a: "init_args mem_dev demo_argv \<lparr>kst = (\<lambda>_. 0), sys_log = []\<rparr> = Inr (demo_params, w0)"
    using demo_init_args by blast
  obtain d w1 where b: "init_buffers mem_dev demo_params w0 = Inr (d, w1)" using demo_init_buffers by blast
  have "roomy d"
    by (rule dio_setup_roomy [OF a b, of 12]) (simp_all add: mem_dev_def demo_wanted_size, simp_all add: demo_params_def)
  then show ?thesis using a b by blast
qed

text \<open>
  \<open>main\<close> asks for one argument, but \<open>init_args\<close> reads six: with the file alone the file is opened (and
  truncated) before \<open>strtoul\<close> is handed the NULL behind the last argument.
\<close>

lemma dio_missing_arguments:
  assumes "length argv = 2" and "0 \<le> fst (dio_open S (argv ! 1) (kst w))"
  shows "dio_main S argv w = Inl (Fault Null_Deref)"
proof (cases "dio_open S (argv ! 1) (kst w)")
  case (Pair fd k)
  then show ?thesis using assms by (simp add: dio_main_def init_args_def argument_def andthen_def syscall_def)
qed

end
