(* ===== verification/Pcimem.thy ===== *)
theory Pcimem
  imports C_Lib Sys_Prog
begin

text \<open>
  \<open>pcimem.c\<close>: dump or write a range of a PCI resource. The mapped resource is a parameter; a
  read or write outside the mapping is a fault. The lines the program prints are events.
\<close>

section \<open>System\<close>

text \<open>
  Addresses are distances from the start of the mapping; the first argument of \<open>pm_read\<close> and
  \<open>pm_write\<close> is the width in bytes. A read gives the value already extended to 64 bits.
\<close>

record 'k pm_os =
  pm_open :: "string \<Rightarrow> 'k \<Rightarrow> int \<times> 'k"
  pm_page_size :: u64
  pm_mmap :: "int \<Rightarrow> u64 \<Rightarrow> u64 \<Rightarrow> 'k \<Rightarrow> bool \<times> 'k"
  pm_read :: "nat \<Rightarrow> int \<Rightarrow> 'k \<Rightarrow> u64 \<times> 'k"
  pm_write :: "nat \<Rightarrow> int \<Rightarrow> u64 \<Rightarrow> 'k \<Rightarrow> unit \<times> 'k"
  pm_munmap :: "'k \<Rightarrow> int \<times> 'k"

datatype pm_event =
    Pm_Opened string int
  | Pm_Mapped bool
  | Pm_Read int u64
  | Pm_Line int u64
  | Pm_Dots
  | Pm_Write int u64
  | Pm_Written u64 u64
  | Pm_Unmapped int
  | Pm_Closed int

type_synonym ('k, 'a) pm_prog = "('k, pm_event, 'a) sys_prog"

section \<open>Arguments\<close>

text \<open>A character of a C string, whose terminator can be read but nothing behind it.\<close>

definition char_at :: "string \<Rightarrow> nat \<Rightarrow> fault + char" where
  "char_at s i = (if i < length s then Inr (s ! i) else if i = length s then Inr (CHR 0x00) else Inl Out_Of_Bounds)"

definition tolower :: "char \<Rightarrow> char" where
  "tolower c = (let n = char_code c in if 65 \<le> n \<and> n \<le> 90 then char_of (n + 32) else c)"

text \<open>The type and the number of items: a word, once, unless the third argument says otherwise.\<close>

definition access_of :: "string list \<Rightarrow> fault + (char \<times> int)" where
  "access_of argv =
     (if 3 < length argv then
        seq (char_at (argv ! 3) 0) (\<lambda>c0. seq (char_at (argv ! 3) 1) (\<lambda>c1.
          Inr (tolower c0, if c1 = CHR ''*'' then as_int (uint (strtoul 0 (drop 2 (argv ! 3)))) else 1)))
      else Inr (CHR ''w'', 1))"

definition width_of :: "char \<Rightarrow> nat option" where
  "width_of c = (if c = CHR ''b'' then Some 1 else if c = CHR ''h'' then Some 2
     else if c = CHR ''w'' then Some 4 else if c = CHR ''d'' then Some 8 else None)"

section \<open>The dump\<close>

record pm_range =
  target :: int
  target_base :: int
  items_count :: int
  type_width :: nat
  map_size :: int

text \<open>\<open>target_base\<close> is the page of the target; the mapping reaches to the end of the last item.\<close>

definition range_of :: "u64 \<Rightarrow> u64 \<Rightarrow> int \<Rightarrow> nat \<Rightarrow> pm_range" where
  "range_of page tgt items width =
     (let base = tgt AND NOT (page - 1);
          need = sint tgt + as_int (items * int width) - sint base
      in \<lparr>target = sint tgt, target_base = sint base, items_count = items, type_width = width,
          map_size = (if 4096 < need then as_int need else 4096)\<rparr>)"

definition in_mapping :: "pm_range \<Rightarrow> int \<Rightarrow> bool" where
  "in_mapping r a \<longleftrightarrow> 0 \<le> a \<and> a + int (type_width r) \<le> map_size r"

definition virt_addr :: "pm_range \<Rightarrow> nat \<Rightarrow> int" where
  "virt_addr r i = target r + int i * int (type_width r) - target_base r"

definition access :: "pm_range \<Rightarrow> int \<Rightarrow> ('k, 'a) pm_prog \<Rightarrow> ('k, 'a) pm_prog" where
  "access r a m = (if in_mapping r a then m else halt (Fault Out_Of_Bounds))"

text \<open>
  The loop over the items, with \<open>prev_read_result\<close> and \<open>read_result_dupped\<close>: a value that is the same
  as the one before is not printed, the first of a run of them prints dots.
\<close>

fun pm_loop :: "'k pm_os \<Rightarrow> pm_range \<Rightarrow> nat list \<Rightarrow> u64 \<Rightarrow> bool \<Rightarrow> ('k, unit) pm_prog" where
  "pm_loop S r [] prev dupped = returns ()"
| "pm_loop S r (i # is) prev dupped =
     access r (virt_addr r i) (andthen (syscall (pm_read S (type_width r) (virt_addr r i)) (Pm_Read (virt_addr r i))) (\<lambda>v.
       if v \<noteq> prev \<or> i = 0
       then andthen (emit (Pm_Line (as_int (target r + int i * int (type_width r))) v)) (\<lambda>_. pm_loop S r is v False)
       else if \<not> dupped then andthen (emit Pm_Dots) (\<lambda>_. pm_loop S r is v True)
       else pm_loop S r is v True))"

text \<open>The write goes to the address of the last item that was read.\<close>

definition pm_store :: "'k pm_os \<Rightarrow> pm_range \<Rightarrow> u64 \<Rightarrow> ('k, unit) pm_prog" where
  "pm_store S r v =
     (if items_count r \<le> 0 then halt (Fault Uninitialised)
      else let a = virt_addr r (nat (items_count r) - 1) in
      access r a (andthen (syscall (pm_write S (type_width r) a v) (\<lambda>_. Pm_Write a v)) (\<lambda>_.
        andthen (syscall (pm_read S (type_width r) a) (Pm_Read a)) (\<lambda>back. emit (Pm_Written v back)))))"

definition pm_session :: "'k pm_os \<Rightarrow> pm_range \<Rightarrow> u64 option \<Rightarrow> ('k, unit) pm_prog" where
  "pm_session S r data =
     andthen (pm_loop S r [0..<nat (items_count r)] 0 False) (\<lambda>_.
       case data of None \<Rightarrow> returns () | Some v \<Rightarrow> pm_store S r v)"

definition pm_main :: "'k pm_os \<Rightarrow> string list \<Rightarrow> ('k, int) pm_prog" where
  "pm_main S argv =
     (if length argv < 3 then halt (Exit 1)
      else let tgt = strtoul 0 (argv ! 2) in
      (case access_of argv of Inl f \<Rightarrow> halt (Fault f) | Inr (c, items) \<Rightarrow>
      (case width_of c of None \<Rightarrow> halt (Exit 2) | Some width \<Rightarrow>
         andthen (syscall (pm_open S (argv ! 1)) (Pm_Opened (argv ! 1))) (\<lambda>fd. if fd = - 1 then halt (Exit 1) else
         let r = range_of (pm_page_size S) tgt items width in
         andthen (syscall (pm_mmap S fd (word_of_int (map_size r)) (word_of_int (target_base r))) Pm_Mapped) (\<lambda>ok.
         if \<not> ok then halt (Exit 1) else
         andthen (pm_session S r (if 4 < length argv then Some (strtoul 0 (argv ! 4)) else None)) (\<lambda>_.
         andthen (syscall (pm_munmap S) Pm_Unmapped) (\<lambda>ret. if ret = - 1 then halt (Exit 1) else
         andthen (emit (Pm_Closed fd)) (\<lambda>_. returns 0))))))))"

section \<open>Bounds\<close>

text \<open>The ranges whose arithmetic fits: the target is not negative and the bytes fit an \<open>int\<close>.\<close>

definition fits :: "u64 \<Rightarrow> u64 \<Rightarrow> int \<Rightarrow> nat \<Rightarrow> bool" where
  "fits page tgt items width \<longleftrightarrow> (\<exists>k. page = 2 ^ k \<and> k \<le> 16) \<and> unat tgt < 2 ^ 62
     \<and> 0 \<le> items \<and> items * int width + 65536 < 2 ^ 31"

lemma range_of_fits:
  assumes "fits page tgt items width"
  shows "0 \<le> target (range_of page tgt items width) - target_base (range_of page tgt items width)"
    and "target (range_of page tgt items width) + items * int width - target_base (range_of page tgt items width)
      \<le> map_size (range_of page tgt items width)"
proof -
  obtain k where k: "page = 2 ^ k" "k \<le> 16" using assms by (auto simp: fits_def)
  have base: "unat (tgt AND NOT (page - 1)) = unat tgt div 2 ^ k * 2 ^ k"
    using unat_and_not_mask [of tgt k] by (simp add: k(1) mask_eq_exp_minus_1)
  have le: "unat tgt div 2 ^ k * 2 ^ k \<le> unat tgt" by simp
  have gap: "unat tgt - unat tgt div 2 ^ k * 2 ^ k < 65536"
  proof -
    have "unat tgt - unat tgt div 2 ^ k * 2 ^ k = unat tgt mod 2 ^ k" by (simp add: minus_div_mult_eq_mod)
    also have "\<dots> < 2 ^ k" by simp
    also have "\<dots> \<le> 2 ^ 16" using k(2) by (intro power_increasing) simp_all
    finally show ?thesis by simp
  qed
  have t: "sint tgt = int (unat tgt)" using assms by (intro sint_u64_small) (simp add: fits_def)
  have b: "sint (tgt AND NOT (page - 1)) = int (unat tgt div 2 ^ k * 2 ^ k)"
  proof -
    have "unat tgt < 4611686018427387904" using assms by (simp add: fits_def)
    then have "unat tgt div 2 ^ k * 2 ^ k < 9223372036854775808" using le by linarith
    then have "unat tgt div 2 ^ k * 2 ^ k < 2 ^ 63" by simp
    then show ?thesis using sint_u64_small [of "tgt AND NOT (page - 1)"] unfolding base by simp
  qed
  define diff where "diff = int (unat tgt) - int (unat tgt div 2 ^ k * 2 ^ k)"
  have diff: "0 \<le> diff" "diff < 65536" using le gap unfolding diff_def by linarith+
  have items: "0 \<le> items * int width" "items * int width + 65536 < 2147483648" using assms by (simp_all add: fits_def)
  then have ai: "as_int (items * int width) = items * int width" by (intro as_int_small) simp_all
  have an: "as_int (diff + items * int width) = diff + items * int width"
    using diff items by (intro as_int_small) simp_all
  have need: "int (unat tgt) + items * int width - int (unat tgt div 2 ^ k * 2 ^ k) = diff + items * int width"
    by (simp add: diff_def)
  show "0 \<le> target (range_of page tgt items width) - target_base (range_of page tgt items width)"
    unfolding range_of_def Let_def pm_range.select_convs t b using diff(1) by (simp only: diff_def)
  show "target (range_of page tgt items width) + items * int width - target_base (range_of page tgt items width)
      \<le> map_size (range_of page tgt items width)"
    unfolding range_of_def Let_def pm_range.select_convs t b ai need an by simp
qed

lemma item_in_mapping:
  assumes "fits page tgt items width" and "int i < items"
  shows "in_mapping (range_of page tgt items width) (virt_addr (range_of page tgt items width) i)"
proof -
  have "(int i + 1) * int width \<le> items * int width" using assms(2) by (intro mult_right_mono) simp_all
  then have "int i * int width + int width \<le> items * int width" by (simp only: distrib_right mult_1)
  moreover have "0 \<le> int i * int width" by (rule mult_nonneg_nonneg) simp_all
  moreover have tw: "type_width (range_of page tgt items width) = width" by (simp add: range_of_def Let_def)
  ultimately show ?thesis
    using range_of_fits [OF assms(1)] unfolding in_mapping_def virt_addr_def tw by linarith
qed

lemma safe_access: "in_mapping r a \<Longrightarrow> safe m Q \<Longrightarrow> safe (access r a m) Q"
  by (simp add: access_def)

lemma safe_loop: "\<forall>i \<in> set is. in_mapping r (virt_addr r i) \<Longrightarrow> safe (pm_loop S r is prev dupped) (\<lambda>_. True)"
proof (induction "is" arbitrary: prev dupped)
  case Nil
  show ?case unfolding pm_loop.simps by (rule safe_returns) simp
next
  case (Cons i "is")
  then show ?case
    unfolding pm_loop.simps
    by (intro safe_access safe_andthen [OF safe_syscall [where Q = "\<lambda>_. True"]])
      (auto intro: safe_andthen [OF safe_emit [where Q = "\<lambda>_. True"]])
qed

text \<open>
  C27. When the arithmetic fits (pages of at most 64 KiB, less than 2 GiB of items), the mapping covers
  every item, so neither the dump nor the write leaves it; the write needs at least one item.
\<close>

theorem pcimem_in_bounds:
  assumes "fits page tgt items width" and "data = None \<or> 0 < items"
  shows "pm_session S (range_of page tgt items width) data w \<noteq> Inl (Fault f)"
proof -
  let ?r = "range_of page tgt items width"
  have n: "items_count ?r = items" by (simp add: range_of_def Let_def)
  have inside: "\<forall>i \<in> set [0..<nat items]. in_mapping ?r (virt_addr ?r i)"
    using item_in_mapping [OF assms(1)] by (simp add: zless_nat_eq_int_zless)
  have store: "safe (pm_store S ?r v) (\<lambda>_. True)" if "0 < items" for v
  proof -
    have "in_mapping ?r (virt_addr ?r (nat items - 1))"
      by (rule item_in_mapping [OF assms(1)]) (use that in simp)
    then show ?thesis
      using that unfolding pm_store_def Let_def n
      by (auto intro!: safe_access safe_andthen [OF safe_syscall [where Q = "\<lambda>_. True"]] safe_emit)
  qed
  have "safe (pm_session S ?r data) (\<lambda>_. True)"
    unfolding pm_session_def n
    by (rule safe_andthen [OF safe_loop [OF inside]])
      (use assms(2) store in \<open>auto intro: safe_returns split: option.splits\<close>)
  then show ?thesis by (rule safe_no_fault)
qed

theorem pcimem_in_bounds_witness:
  "pm_session \<lparr>pm_open = (\<lambda>_ k. (3, k)), pm_page_size = 4096, pm_mmap = (\<lambda>_ _ _ k. (True, k)), pm_read = (\<lambda>_ a k. (k a, k)),
     pm_write = (\<lambda>_ a v k. ((), k(a := v))), pm_munmap = (\<lambda>k. (0, k))\<rparr> (range_of 4096 0x1ff8 16 4) (Some 7)
     \<lparr>kst = (\<lambda>_. 0), sys_log = []\<rparr> \<noteq> Inl (Fault Out_Of_Bounds)"
proof (rule pcimem_in_bounds)
  have "\<exists>k. (4096 :: u64) = 2 ^ k \<and> k \<le> 16" by (rule exI [of _ 12]) simp
  then show "fits 4096 0x1ff8 16 4" by (simp add: fits_def)
qed simp

section \<open>The dump is lossless\<close>

text \<open>
  The values read and the lines printed, and how a reader gets the values back: a line gives the
  value of the item at its offset, an item without a line has the value of the one before, dots
  carry nothing.
\<close>

definition values_read :: "pm_event list \<Rightarrow> u64 list" where
  "values_read tr = concat (map (\<lambda>e. case e of Pm_Read a v \<Rightarrow> [v] | _ \<Rightarrow> []) tr)"

definition lines_printed :: "pm_event list \<Rightarrow> (int \<times> u64) option list" where
  "lines_printed tr = concat (map (\<lambda>e. case e of Pm_Line a v \<Rightarrow> [Some (a, v)] | Pm_Dots \<Rightarrow> [None] | _ \<Rightarrow> []) tr)"

fun recover :: "int list \<Rightarrow> (int \<times> u64) option list \<Rightarrow> u64 \<Rightarrow> u64 list" where
  "recover [] ls prev = []"
| "recover (o1 # offs) (None # ls) prev = recover (o1 # offs) ls prev"
| "recover (o1 # offs) (Some (a, v) # ls) prev =
     (if a = o1 then v # recover offs ls v else prev # recover offs (Some (a, v) # ls) prev)"
| "recover (o1 # offs) [] prev = prev # recover offs [] prev"

lemma dump_simps [simp]:
  "values_read [] = []" "values_read (Pm_Read a v # tr) = v # values_read tr" "values_read (Pm_Line a v # tr) = values_read tr"
  "values_read (Pm_Dots # tr) = values_read tr" "lines_printed [] = []" "lines_printed (Pm_Read a v # tr) = lines_printed tr"
  "lines_printed (Pm_Line a v # tr) = Some (a, v) # lines_printed tr" "lines_printed (Pm_Dots # tr) = None # lines_printed tr"
  by (simp_all add: values_read_def lines_printed_def)

definition item_offset :: "pm_range \<Rightarrow> nat \<Rightarrow> int" where
  "item_offset r i = as_int (target r + int i * int (type_width r))"

text \<open>Lines of later items do not concern an item whose offset is not among theirs.\<close>

definition lines_of :: "int list \<Rightarrow> (int \<times> u64) option list \<Rightarrow> bool" where
  "lines_of offs ls \<longleftrightarrow> (\<forall>a v. Some (a, v) \<in> set ls \<longrightarrow> a \<in> set offs)"

lemma recover_skip:
  "lines_of offs ls \<Longrightarrow> o1 \<notin> set offs \<Longrightarrow> recover (o1 # offs) ls prev = prev # recover offs ls prev"
proof (induction ls)
  case (Cons l ls)
  show ?case
  proof (cases l)
    case None
    then have "recover (o1 # offs) (l # ls) prev = prev # recover offs ls prev"
      using Cons by (simp add: lines_of_def)
    moreover have "recover offs (None # ls) prev = recover offs ls prev" by (cases offs) simp_all
    ultimately show ?thesis using None by simp
  next
    case (Some p)
    then show ?thesis using Cons.prems by (cases p) (auto simp: lines_of_def)
  qed
qed simp

definition recovers :: "pm_range \<Rightarrow> nat list \<Rightarrow> u64 \<Rightarrow> pm_event list \<Rightarrow> bool" where
  "recovers r is prev tr \<longleftrightarrow> lines_of (map (item_offset r) is) (lines_printed tr)
     \<and> recover (map (item_offset r) is) (lines_printed tr) prev = values_read tr"

lemma recovers_line:
  "recovers r is v tr \<Longrightarrow> recovers r (i # is) prev (Pm_Read a v # Pm_Line (item_offset r i) v # tr)"
  by (auto simp: recovers_def lines_of_def)

lemma recovers_same:
  "recovers r is v tr \<Longrightarrow> item_offset r i \<notin> set (map (item_offset r) is) \<Longrightarrow> recovers r (i # is) v (Pm_Read a v # tr)"
  unfolding recovers_def by (auto simp: recover_skip) (auto simp: lines_of_def)

lemma recovers_dots:
  "recovers r (i # is) v (Pm_Read a v # tr) \<Longrightarrow> recovers r (i # is) v (Pm_Read a v # Pm_Dots # tr)"
  by (auto simp: recovers_def lines_of_def)

lemma logs_pm_loop:
  "distinct (map (item_offset r) is) \<Longrightarrow> logs (pm_loop S r is prev dupped) (\<lambda>_ tr. recovers r is prev tr)"
proof (induction "is" arbitrary: prev dupped)
  case Nil
  show ?case unfolding pm_loop.simps by (rule logs_returns) (simp add: recovers_def lines_of_def)
next
  case (Cons i "is")
  have IH: "logs (pm_loop S r is v b) (\<lambda>_ tr. recovers r is v tr)" for v b
    using Cons.prems by (intro Cons.IH) simp
  have fresh: "item_offset r i \<notin> set (map (item_offset r) is)" using Cons.prems(1) by simp
  show ?case
    unfolding pm_loop.simps access_def
  proof (intro logs_if logs_halt logs_syscall_then logs_emit_then)
    fix v
    show "logs (pm_loop S r is v False) (\<lambda>_ tr. recovers r (i # is) prev
        (Pm_Read (virt_addr r i) v # Pm_Line (as_int (target r + int i * int (type_width r))) v # tr))"
      by (rule logs_weaken [OF IH]) (simp only: recovers_line item_offset_def [symmetric])
    assume "\<not> (v \<noteq> prev \<or> i = 0)"
    then have v: "v = prev" by simp
    show "logs (pm_loop S r is v True) (\<lambda>_ tr. recovers r (i # is) prev (Pm_Read (virt_addr r i) v # Pm_Dots # tr))"
      "logs (pm_loop S r is v True) (\<lambda>_ tr. recovers r (i # is) prev (Pm_Read (virt_addr r i) v # tr))"
      unfolding v by (rule logs_weaken [OF IH], intro recovers_dots recovers_same fresh, assumption)+
  qed
qed

lemma as_int_inj: "as_int a = as_int b \<Longrightarrow> a mod 2 ^ 32 = b mod 2 ^ 32"
proof -
  assume "as_int a = as_int b"
  then have "(word_of_int a :: s32) = word_of_int b" unfolding as_int_def by (rule signed_word_eqI)
  then show ?thesis by (simp add: word_of_int_eq_iff take_bit_eq_mod)
qed

lemma distinct_offsets:
  assumes "0 < type_width r" and "int n * int (type_width r) \<le> 2 ^ 32"
  shows "distinct (map (item_offset r) [0..<n])"
proof -
  have "i = j" if "item_offset r i = item_offset r j" "i < n" "j < n" for i j
  proof -
    let ?w = "int (type_width r)"
    have "(target r + int i * ?w) mod 2 ^ 32 = (target r + int j * ?w) mod 2 ^ 32"
      using that(1) unfolding item_offset_def by (rule as_int_inj)
    then have dvd: "(2 ^ 32 :: int) dvd int i * ?w - int j * ?w" by (simp add: mod_eq_dvd_iff)
    have bound: "0 \<le> int k * ?w \<and> int k * ?w < 2 ^ 32" if "k < n" for k
    proof -
      have "(int k + 1) * ?w \<le> int n * ?w" using that by (intro mult_right_mono) simp_all
      then show ?thesis using assms by (simp add: distrib_right)
    qed
    have "\<bar>int i * ?w - int j * ?w\<bar> < 2 ^ 32" using bound [OF that(2)] bound [OF that(3)] by linarith
    then have "int i * ?w - int j * ?w = 0" using dvd_imp_le_int [OF _ dvd] by force
    then show ?thesis using assms(1) by simp
  qed
  then show ?thesis by (auto simp: distinct_map inj_on_def)
qed

text \<open>
  C28. The dump can be read back: although runs of equal values are not printed, the lines determine
  every value that was read, as long as the items span at most 4 GiB.
\<close>

theorem pcimem_dump_lossless:
  assumes "0 < type_width r" and "int (nat (items_count r)) * int (type_width r) \<le> 2 ^ 32"
    and "pm_session S r None w = Inr ((), w')" and "sys_log w = []"
  shows "recover (map (item_offset r) [0..<nat (items_count r)]) (lines_printed (sys_log w')) 0 = values_read (sys_log w')"
proof -
  have "logs (pm_session S r None) (\<lambda>_ tr. recovers r [0..<nat (items_count r)] 0 tr)"
    unfolding pm_session_def option.case
    by (rule logs_andthen [OF logs_pm_loop [OF distinct_offsets [OF assms(1,2)]]]) (auto intro: logs_returns)
  from logsD [OF this assms(3)] show ?thesis using assms(4) by (auto simp: recovers_def)
qed

definition demo_pci :: "(int \<Rightarrow> u64) pm_os" where
  "demo_pci = \<lparr>pm_open = (\<lambda>_ k. (3, k)), pm_page_size = 4096, pm_mmap = (\<lambda>_ _ _ k. (True, k)), pm_read = (\<lambda>_ a k. (k a, k)),
     pm_write = (\<lambda>_ a v k. ((), k(a := v))), pm_munmap = (\<lambda>k. (0, k))\<rparr>"

definition demo_range :: pm_range where
  "demo_range = \<lparr>target = 0, target_base = 0, items_count = 4, type_width = 4, map_size = 4096\<rparr>"

theorem pcimem_dump_lossless_witness:
  "\<exists>w'. pm_session demo_pci demo_range None \<lparr>kst = (\<lambda>a. if a = 12 then 9 else 5), sys_log = []\<rparr> = Inr ((), w')
     \<and> lines_printed (sys_log w') = [Some (0, 5), None, Some (12, 9)] \<and> values_read (sys_log w') = [5, 5, 5, 9]
     \<and> recover [0, 4, 8, 12] (lines_printed (sys_log w')) 0 = values_read (sys_log w')"
proof -
  have up: "[0..<nat (items_count demo_range)] = [0, 1, 2, 3]" by (simp add: demo_range_def upt_rec)
  have off: "map (item_offset demo_range) [0, 1, 2, 3] = [0, 4, 8, 12]"
    by (simp add: item_offset_def demo_range_def as_int_small)
  obtain w' where run: "pm_session demo_pci demo_range None \<lparr>kst = (\<lambda>a. if a = 12 then 9 else 5), sys_log = []\<rparr> = Inr ((), w')"
    "lines_printed (sys_log w') = [Some (0, 5), None, Some (12, 9)]" "values_read (sys_log w') = [5, 5, 5, 9]"
    unfolding pm_session_def up
    by (simp add: access_def in_mapping_def virt_addr_def demo_range_def demo_pci_def andthen_def syscall_def emit_def
        returns_run as_int_small)
  have "recover (map (item_offset demo_range) [0..<nat (items_count demo_range)]) (lines_printed (sys_log w')) 0
      = values_read (sys_log w')"
    by (rule pcimem_dump_lossless [OF _ _ run(1)]) (simp_all add: demo_range_def)
  then show ?thesis using run unfolding up off by blast
qed

end
