(* ===== verification/Discont_Io.thy ===== *)
theory Discont_Io
  imports Byte_Mem C_Lib Sys_Prog
begin

text \<open>
  \<open>discontiguous-io.cpp\<close>: read or write an SG device through a scatter list. The kernel and the
  standard input are parameters; the buffer is a byte memory whose bounds the program's own
  accesses are checked against. Addresses are distances from the start of the buffer.
\<close>

section \<open>Scatter lists\<close>

record sg_iovec =
  iov_base :: int
  iov_len :: u64

type_synonym iovec_t = "sg_iovec list"

definition append_iov :: "int \<Rightarrow> u64 \<Rightarrow> iovec_t \<Rightarrow> iovec_t" where
  "append_iov addr n v = v @ [\<lparr>iov_base = addr, iov_len = n\<rparr>]"

definition data_len :: "iovec_t \<Rightarrow> u64" where
  "data_len v = fold (\<lambda>p n. n + iov_len p) v 0"

text \<open>\<open>trunc\<close>: the loop with its running sum \<open>s\<close>; the entry that reaches \<open>n\<close> is cut, the rest dropped.\<close>

fun trunc_from :: "u64 \<Rightarrow> u64 \<Rightarrow> iovec_t \<Rightarrow> fault + iovec_t" where
  "trunc_from n s [] = Inr []"
| "trunc_from n s (p # ps) =
     (let s = s + iov_len p in
      if n \<le> s then
        (let l = iov_len p - (s - n) in
         if 0 < l \<or> (l = 0 \<and> n = 0) then Inr [p\<lparr>iov_len := l\<rparr>] else Inl Assert_Failed)
      else seq (trunc_from n s ps) (\<lambda>qs. Inr (p # qs)))"

definition trunc :: "u64 \<Rightarrow> iovec_t \<Rightarrow> fault + iovec_t" where
  "trunc n v = trunc_from n 0 v"

definition in_buf :: "int \<Rightarrow> int \<Rightarrow> u64 \<Rightarrow> bool" where
  "in_buf size_of_buf a n \<longleftrightarrow> 0 \<le> a \<and> a + int (unat n) \<le> size_of_buf"

text \<open>\<open>iovec_t::write\<close>: the bytes of the segments, in order.\<close>

fun iov_write :: "int \<Rightarrow> mem \<Rightarrow> iovec_t \<Rightarrow> fault + u8 list" where
  "iov_write sz mm [] = Inr []"
| "iov_write sz mm (p # ps) =
     (if in_buf sz (iov_base p) (iov_len p)
      then seq (iov_write sz mm ps) (\<lambda>bs. Inr (read_bytes (iov_base p) (unat (iov_len p)) mm @ bs))
      else Inl Out_Of_Bounds)"

section \<open>Hexadecimal dump\<close>

definition hex_digits :: "nat \<Rightarrow> nat \<Rightarrow> string" where
  "hex_digits w n = map (\<lambda>i. ''0123456789abcdef'' ! (n div 16 ^ i mod 16)) (rev [0..<w])"

definition dump_line :: "u64 \<Rightarrow> u8 list \<Rightarrow> string" where
  "dump_line a bs = hex_digits 16 (unat a) @ '':''
     @ concat (map (\<lambda>(j, b). (if j mod 4 = 0 then '' '' else []) @ hex_digits 2 (unat b)) (enumerate 0 bs))
     @ ''  '' @ map (\<lambda>b. if 32 \<le> unat b \<and> unat b < 128 then char_of (unat b) else CHR ''.'') bs @ [CHR 0x0A]"

function dumphex :: "u64 \<Rightarrow> u8 list \<Rightarrow> string" where
  "dumphex a bs = (if bs = [] then [] else dump_line a (take 16 bs) @ dumphex (a + 16) (drop 16 bs))"
  by auto
termination by (relation "measure (length \<circ> snd)") auto

declare dumphex.simps [simp del]

section \<open>System\<close>

datatype sg_dir = From_Dev | To_Dev

record sg_hdr =
  dxfer_direction :: sg_dir
  cmdp :: "u8 list"
  iovec_count :: u16
  dxfer_len :: u32
  dxferp :: iovec_t
  mx_sb_len :: u8
  timeout_ms :: u32

record sg_reply =
  sg_status :: u8
  msg_status :: u8
  host_status :: u16
  driver_status :: u16
  resid :: s32
  sb_len_wr :: u8
  sense :: "u8 list"

text \<open>\<open>sg_io\<close> gets the memory and returns it, with the return value and what it stores in the header.\<close>

record 'k sg_os =
  sg_open :: "string \<Rightarrow> 'k \<Rightarrow> int \<times> 'k"
  sg_blkssz :: "'k \<Rightarrow> (int \<times> u32) \<times> 'k"
  sg_version_num :: "'k \<Rightarrow> (int \<times> int) \<times> 'k"
  sg_io :: "sg_hdr \<Rightarrow> mem \<Rightarrow> 'k \<Rightarrow> (int \<times> sg_reply \<times> mem) \<times> 'k"
  sg_stdin :: "nat \<Rightarrow> 'k \<Rightarrow> u8 list \<times> 'k"
  sense_addr :: u64

datatype sg_event =
    Sg_Opened string int
  | Sg_Block_Size int u32
  | Sg_Version int int
  | Sg_Command sg_hdr int
  | Sg_Sense string
  | Sg_Input "u8 list"
  | Sg_Wrote int u64
  | Sg_Read int
  | Sg_Output "u8 list"
  | Sg_Closed int

type_synonym ('k, 'a) sg_prog = "('k, sg_event, 'a) sys_prog"

definition lift_fault :: "fault + 'a \<Rightarrow> ('k, 'a) sg_prog" where
  "lift_fault r = (case r of Inl f \<Rightarrow> halt (Fault f) | Inr x \<Rightarrow> returns x)"

section \<open>Commands\<close>

definition MAX_READ_WRITE_6_LBA :: u32 where "MAX_READ_WRITE_6_LBA = 0x1fffff"
definition MAX_READ_WRITE_6_LENGTH :: u64 where "MAX_READ_WRITE_6_LENGTH = 0xff"

text \<open>The header of a READ(6) or WRITE(6); \<open>iovec_count\<close> is a 16-bit field.\<close>

definition sg_header :: "sg_dir \<Rightarrow> u8 \<Rightarrow> u32 \<Rightarrow> u32 \<Rightarrow> iovec_t \<Rightarrow> sg_hdr" where
  "sg_header dir opcode block_size lba v =
     \<lparr>dxfer_direction = dir,
      cmdp = [opcode, ucast (drop_bit 16 lba), ucast (drop_bit 8 lba), ucast lba, ucast (data_len v div ucast block_size), 0],
      iovec_count = word_of_nat (length v), dxfer_len = ucast (data_len v), dxferp = v, mx_sb_len = 32, timeout_ms = 1000\<rparr>"

definition sg_result :: "sg_reply \<Rightarrow> u32" where
  "sg_result r = ucast (sg_status r) OR push_bit 8 (ucast (msg_status r)) OR push_bit 16 (ucast (host_status r))
     OR push_bit 24 (ucast (driver_status r))"

definition dump_sense :: "'k sg_os \<Rightarrow> sg_reply \<Rightarrow> ('k, unit) sg_prog" where
  "dump_sense S r =
     (if sg_status r \<noteq> 2 then returns ()
      else if length (sense r) < unat (sb_len_wr r) then halt (Fault Out_Of_Bounds)
      else emit (Sg_Sense (dumphex (sense_addr S) (take (unat (sb_len_wr r)) (sense r)))))"

definition sg_submit :: "'k sg_os \<Rightarrow> sg_hdr \<Rightarrow> iovec_t \<Rightarrow> mem \<Rightarrow> ('k, int \<times> mem) sg_prog" where
  "sg_submit S h v mm =
     andthen (syscall (sg_io S h mm) (\<lambda>(ret, _). Sg_Command h ret)) (\<lambda>(ret, r, mm').
       if ret < 0 then returns (- 1, mm')
       else if sg_result r \<noteq> 0 then andthen (dump_sense S r) (\<lambda>_. returns (- 1, mm'))
       else returns (sint (data_len v - scast (resid r)), mm'))"

definition sg_read :: "'k sg_os \<Rightarrow> u32 \<Rightarrow> u32 \<Rightarrow> iovec_t \<Rightarrow> mem \<Rightarrow> ('k, int \<times> mem) sg_prog" where
  "sg_read S block_size lba v mm =
     (if MAX_READ_WRITE_6_LBA < lba then returns (- 1, mm)
      else if data_len v = 0 then returns (- 1, mm)
      else if block_size = 0 then halt (Fault Div_By_Zero)
      else if data_len v mod ucast block_size \<noteq> 0 then returns (- 1, mm)
      else if MAX_READ_WRITE_6_LENGTH < data_len v div ucast block_size then returns (- 1, mm)
      else andthen (syscall (sg_version_num S) (\<lambda>(ret, ver). Sg_Version ret ver)) (\<lambda>(ret, ver).
        if ret < 0 \<or> ver < 30000 then returns (- 1, mm)
        else sg_submit S (sg_header From_Dev 0x08 block_size lba v) v mm))"

definition sg_write :: "'k sg_os \<Rightarrow> u32 \<Rightarrow> u32 \<Rightarrow> iovec_t \<Rightarrow> mem \<Rightarrow> ('k, int \<times> mem) sg_prog" where
  "sg_write S block_size lba v mm =
     (if MAX_READ_WRITE_6_LBA < lba then returns (- 1, mm)
      else if data_len v = 0 then returns (- 1, mm)
      else if block_size = 0 then halt (Fault Div_By_Zero)
      else if data_len v mod ucast block_size \<noteq> 0 then returns (- 1, mm)
      else if MAX_READ_WRITE_6_LENGTH < data_len v div ucast block_size then returns (- 1, mm)
      else andthen (syscall (sg_version_num S) (\<lambda>(ret, ver). Sg_Version ret ver)) (\<lambda>(ret, ver).
        if ret < 0 then returns (- 1, mm) else if ver < 30000 then returns (- 1, mm)
        else sg_submit S (sg_header To_Dev 0x0a block_size lba v) v mm))"

section \<open>Main program\<close>

record sg_args =
  sg_len :: u64
  sg_offs :: u32
  scattered :: bool
  to_write :: bool

datatype sg_opt = Sg_l string | Sg_o string | Sg_s | Sg_w | Sg_usage

text \<open>The options are those \<open>getopt\<close> delivers; \<open>-h\<close> and anything unknown print the usage and leave.\<close>

fun sg_options :: "sg_opt list \<Rightarrow> sg_args \<Rightarrow> sg_args option" where
  "sg_options [] a = Some a"
| "sg_options (Sg_l s # os) a = sg_options os (a\<lparr>sg_len := strtoul 0 s\<rparr>)"
| "sg_options (Sg_o s # os) a = sg_options os (a\<lparr>sg_offs := ucast (strtoul 0 s)\<rparr>)"
| "sg_options (Sg_s # os) a = sg_options os (a\<lparr>scattered := True\<rparr>)"
| "sg_options (Sg_w # os) a = sg_options os (a\<lparr>to_write := True\<rparr>)"
| "sg_options (Sg_usage # os) a = None"

definition sg_defaults :: sg_args where
  "sg_defaults = \<lparr>sg_len = 512, sg_offs = 0, scattered = False, to_write = False\<rparr>"

definition sg_buf_size :: "sg_args \<Rightarrow> int" where
  "sg_buf_size a = (if scattered a then uint (sg_len a * 2) else uint (sg_len a))"

text \<open>Scattered: segments of four bytes, four bytes apart. The indices are C \<open>int\<close>s.\<close>

definition sg_layout :: "sg_args \<Rightarrow> iovec_t" where
  "sg_layout a =
     (if scattered a
      then fold (\<lambda>i. append_iov (4 + as_int (int i * 8)) (min 4 (sg_len a - word_of_int (as_int (int i * 4)))))
             [0..<unat (sg_len a div 4)] []
      else append_iov 0 (sg_len a) [])"

text \<open>
  Standard input into the segments. \<open>gcount\<close> is what the previous call delivered; a call that
  delivers too little ends the loop and the entry gets the difference of the two counts.
\<close>

fun sg_input :: "'k sg_os \<Rightarrow> int \<Rightarrow> iovec_t \<Rightarrow> nat \<Rightarrow> mem \<Rightarrow> ('k, iovec_t \<times> mem) sg_prog" where
  "sg_input S sz [] prevgcount mm = returns ([], mm)"
| "sg_input S sz (p # ps) prevgcount mm =
     (if in_buf sz (iov_base p) (iov_len p)
      then andthen (syscall (sg_stdin S (unat (iov_len p))) Sg_Input) (\<lambda>bs.
        let mm' = write_bytes (iov_base p, bs) mm in
        if length bs < unat (iov_len p)
        then returns (p\<lparr>iov_len := word_of_nat (length bs) - word_of_nat prevgcount\<rparr> # ps, mm')
        else andthen (sg_input S sz ps (length bs) mm') (\<lambda>(qs, mm''). returns (p # qs, mm'')))
      else halt (Fault Out_Of_Bounds))"

definition sg_session :: "'k sg_os \<Rightarrow> sg_args \<Rightarrow> u32 \<Rightarrow> ('k, unit) sg_prog" where
  "sg_session S a block_size =
     (let v = sg_layout a; sz = sg_buf_size a; mm = (\<lambda>_. 0); lba = sg_offs a div block_size in
      if to_write a
      then andthen (sg_input S sz v 0 mm) (\<lambda>(v', mm').
        andthen (sg_write S block_size lba v' mm') (\<lambda>(written, _).
          if 0 \<le> written then emit (Sg_Wrote written (data_len v')) else returns ()))
      else andthen (sg_read S block_size lba v mm) (\<lambda>(n, mm').
        if n < 0 then returns ()
        else andthen (emit (Sg_Read n)) (\<lambda>_.
          andthen (lift_fault (seq (trunc (word_of_int n) v) (iov_write sz mm'))) (\<lambda>bs. emit (Sg_Output bs)))))"

definition sg_checked :: "'k sg_os \<Rightarrow> sg_args \<Rightarrow> int \<times> u32 \<Rightarrow> ('k, unit) sg_prog" where
  "sg_checked S a p = (case p of (ret, bs) \<Rightarrow>
     if ret < 0 then returns ()
     else if bs = 0 then halt (Fault Div_By_Zero)
     else if sg_offs a mod bs \<noteq> 0 then returns ()
     else sg_session S a bs)"

text \<open>The destructor of \<open>file_descriptor\<close>, which runs when its block is left.\<close>

definition file_descriptor_end :: "int \<Rightarrow> ('k, unit) sg_prog" where
  "file_descriptor_end m_fd = (if 0 \<le> m_fd then emit (Sg_Closed m_fd) else returns ())"

definition sg_main :: "'k sg_os \<Rightarrow> sg_opt list \<Rightarrow> string option \<Rightarrow> ('k, int) sg_prog" where
  "sg_main S opts dev =
     (case sg_options opts sg_defaults of None \<Rightarrow> returns 0 | Some a \<Rightarrow>
     (case dev of None \<Rightarrow> returns 0 | Some d \<Rightarrow>
        andthen (syscall (sg_open S d) (Sg_Opened d)) (\<lambda>fd. if fd < 0 then andthen (file_descriptor_end fd) (\<lambda>_. returns 0) else
        andthen (syscall (sg_blkssz S) (\<lambda>p. Sg_Block_Size (fst p) (snd p))) (\<lambda>p.
        andthen (sg_checked S a p) (\<lambda>_.
        andthen (file_descriptor_end fd) (\<lambda>_. returns 0))))))"

lemma file_descriptor_end_simps:
  "fd < 0 \<Longrightarrow> andthen (file_descriptor_end fd) f = f ()" "\<not> fd < 0 \<Longrightarrow> file_descriptor_end fd = emit (Sg_Closed fd)"
  by (simp_all add: file_descriptor_end_def andthen_def returns_def fun_eq_iff)

lemma sg_main_unfold:
  "sg_main S opts dev =
     (case sg_options opts sg_defaults of None \<Rightarrow> returns 0 | Some a \<Rightarrow>
     (case dev of None \<Rightarrow> returns 0 | Some d \<Rightarrow>
        andthen (syscall (sg_open S d) (Sg_Opened d)) (\<lambda>fd. if fd < 0 then returns 0 else
        andthen (syscall (sg_blkssz S) (\<lambda>p. Sg_Block_Size (fst p) (snd p))) (\<lambda>p.
        andthen (sg_checked S a p) (\<lambda>_.
        andthen (emit (Sg_Closed fd)) (\<lambda>_. returns 0))))))"
  by (simp add: sg_main_def file_descriptor_end_simps cong: if_cong option.case_cong)

end
