(* ===== verification/Discont_Iov.thy ===== *)
theory Discont_Iov
  imports Discont_Io
begin

text \<open>
  Lemmas about the scatter lists of \<open>discontiguous-io.cpp\<close>: what \<open>data_len\<close> and \<open>trunc\<close> compute, and
  that bytes stored through a list of segments that do not overlap are read back through it.
\<close>

section \<open>Lengths\<close>

definition iov_total :: "iovec_t \<Rightarrow> nat" where
  "iov_total v = sum_list (map (\<lambda>p. unat (iov_len p)) v)"

lemma total_simps [simp]: "iov_total [] = 0" "iov_total (p # ps) = unat (iov_len p) + iov_total ps" "iov_total (v @ v') = iov_total v + iov_total v'"
  by (simp_all add: iov_total_def)

lemma data_len_total: "data_len v = word_of_nat (iov_total v)"
proof -
  have "fold (\<lambda>p n. n + iov_len p) v s = s + word_of_nat (iov_total v)" for s
    by (induction v arbitrary: s) (simp_all add: algebra_simps)
  then show ?thesis by (simp add: data_len_def)
qed

lemma unat_data_len: "iov_total v < 2 ^ 64 \<Longrightarrow> unat (data_len v) = iov_total v"
  unfolding data_len_total by (rule unat_of_nat_small) simp

section \<open>Truncation\<close>

text \<open>The first \<open>n\<close> bytes of a scatter list.\<close>

fun cut_iov :: "nat \<Rightarrow> iovec_t \<Rightarrow> iovec_t" where
  "cut_iov n [] = []"
| "cut_iov n (p # ps) = (if n \<le> unat (iov_len p) then [p\<lparr>iov_len := word_of_nat n\<rparr>] else p # cut_iov (n - unat (iov_len p)) ps)"

lemma trunc_from_cut:
  "unat s < unat n \<or> n = 0 \<and> s = 0 \<Longrightarrow> unat s + iov_total v < 2 ^ 64 \<Longrightarrow> trunc_from n s v = Inr (cut_iov (unat n - unat s) v)"
proof (induction v arbitrary: s)
  case (Cons p ps)
  have sum: "unat (s + iov_len p) = unat s + unat (iov_len p)"
    using Cons.prems(2) by (subst unat_add_lem [THEN iffD1]) simp_all
  show ?case
  proof (cases "n \<le> s + iov_len p")
    case True
    then have le: "unat n - unat s \<le> unat (iov_len p)" using sum by (simp add: word_le_nat_alt)
    define l where "l = iov_len p - (s + iov_len p - n)"
    have l: "l = n - s" unfolding l_def by simp
    have "s \<le> n" using Cons.prems(1) by (auto simp: word_le_nat_alt)
    then have ul: "unat l = unat n - unat s" unfolding l by (rule unat_sub)
    then have "l = word_of_nat (unat n - unat s)" by (metis of_nat_unat ucast_id)
    moreover have "0 < l \<or> l = 0 \<and> n = 0"
    proof -
      have "unat s < unat n \<Longrightarrow> 0 < l" using ul by (simp add: word_less_nat_alt)
      then show ?thesis using Cons.prems(1) l by auto
    qed
    ultimately show ?thesis using True le by (simp add: Let_def l_def [symmetric])
  next
    case False
    then have lt: "unat s + unat (iov_len p) < unat n" using sum by (simp add: word_le_nat_alt)
    then have "trunc_from n (s + iov_len p) ps = Inr (cut_iov (unat n - unat (s + iov_len p)) ps)"
      using Cons.prems(2) by (intro Cons.IH) (simp_all add: sum)
    moreover have "\<not> unat n - unat s \<le> unat (iov_len p)" using lt by linarith
    ultimately show ?thesis using False by (simp add: Let_def sum)
  qed
qed simp

lemma trunc_cut: "iov_total v < 2 ^ 64 \<Longrightarrow> trunc n v = Inr (cut_iov (unat n) v)"
  unfolding trunc_def by (subst trunc_from_cut) (auto simp: word_neq_0_conv unat_gt_0)

section \<open>Storing and gathering\<close>

definition gather :: "mem \<Rightarrow> iovec_t \<Rightarrow> u8 list" where
  "gather mm v = concat (map (\<lambda>p. read_bytes (iov_base p) (unat (iov_len p)) mm) v)"

fun fill :: "iovec_t \<Rightarrow> u8 list \<Rightarrow> segment list" where
  "fill [] d = []"
| "fill (p # ps) d = (iov_base p, take (unat (iov_len p)) d) # fill ps (drop (unat (iov_len p)) d)"

lemma gather_simps [simp]: "gather mm [] = []"
  "gather mm (p # ps) = read_bytes (iov_base p) (unat (iov_len p)) mm @ gather mm ps"
  by (simp_all add: gather_def)

lemma length_gather: "length (gather mm v) = iov_total v"
  by (induction v) simp_all

lemma iov_write_gather:
  "\<forall>p \<in> set v. in_buf sz (iov_base p) (iov_len p) \<Longrightarrow> iov_write sz mm v = Inr (gather mm v)"
  by (induction v) simp_all

lemma take_read_bytes: "n \<le> k \<Longrightarrow> take n (read_bytes p k mm) = read_bytes p n mm"
  by (simp add: read_bytes_def take_map)

lemma gather_cut: "n < 2 ^ 64 \<Longrightarrow> gather mm (cut_iov n v) = take n (gather mm v)"
  by (induction v arbitrary: n) (auto simp: unat_of_nat_small take_read_bytes)

lemma in_buf_shorter:
  assumes "in_buf sz a n" and "k \<le> unat n"
  shows "in_buf sz a (word_of_nat k)"
proof -
  have "k < 2 ^ LENGTH(64)" using assms(2) unsigned_less [of n, where 'a = nat] by (rule le_less_trans)
  then have "unat (word_of_nat k :: u64) = k" by (rule unat_of_nat_small)
  then show ?thesis using assms unfolding in_buf_def by linarith
qed

lemma cut_in_buf:
  "\<forall>p \<in> set v. in_buf sz (iov_base p) (iov_len p) \<Longrightarrow> \<forall>p \<in> set (cut_iov n v). in_buf sz (iov_base p) (iov_len p)"
  by (induction v arbitrary: n) (auto intro: in_buf_shorter)

lemma fill_take: "iov_total v \<le> n \<Longrightarrow> fill v (take n d) = fill v d"
proof (induction v arbitrary: n d)
  case (Cons p ps)
  have "fill ps (take (n - unat (iov_len p)) (drop (unat (iov_len p)) d)) = fill ps (drop (unat (iov_len p)) d)"
    using Cons.prems by (intro Cons.IH) simp
  then show ?case using Cons.prems by (simp add: drop_take min_absorb1)
qed simp

lemma gather_of_held:
  "length d = iov_total v \<Longrightarrow> \<forall>s \<in> set (fill v d). holds_at s mm \<Longrightarrow> gather mm v = d"
proof (induction v arbitrary: d)
  case (Cons p ps)
  have "holds_at (iov_base p, take (unat (iov_len p)) d) mm" using Cons.prems(2) by simp
  then have "read_bytes (iov_base p) (unat (iov_len p)) mm = take (unat (iov_len p)) d"
    using Cons.prems(1) by (simp add: holds_at_def min_absorb2)
  moreover have "gather mm ps = drop (unat (iov_len p)) d" using Cons by (intro Cons.IH) simp_all
  ultimately show ?case by (simp only: gather_simps append_take_drop_id)
qed simp

lemma gather_write_all:
  "chain a (fill v d) b \<Longrightarrow> length d = iov_total v \<Longrightarrow> gather (write_all (fill v d) mm) v = d"
  by (rule gather_of_held) (simp_all add: write_all_holds)

section \<open>The two layouts\<close>

definition scatter :: "nat \<Rightarrow> iovec_t" where
  "scatter n = map (\<lambda>i. \<lparr>iov_base = 4 + int i * 8, iov_len = 4\<rparr>) [0..<n]"

lemma total_scatter [simp]: "iov_total (scatter n) = 4 * n"
  by (induction n) (simp_all add: scatter_def iov_total_def)

lemma length_scatter [simp]: "length (scatter n) = n"
  by (simp add: scatter_def)

text \<open>The arguments for which the C \<open>int\<close>s of the layout loop do not overflow.\<close>

definition small_args :: "sg_args \<Rightarrow> bool" where
  "small_args a \<longleftrightarrow> unat (sg_len a) < 2 ^ 30"

lemma layout_scattered:
  assumes "small_args a" and "scattered a"
  shows "sg_layout a = scatter (unat (sg_len a) div 4)"
proof -
  have append: "fold (\<lambda>i. append_iov (f i) (g i)) xs v = v @ map (\<lambda>i. \<lparr>iov_base = f i, iov_len = g i\<rparr>) xs"
    for f :: "nat \<Rightarrow> int" and g xs v
    by (induction xs arbitrary: v) (simp_all add: append_iov_def)
  have n: "unat (sg_len a div 4) = unat (sg_len a) div 4" by (simp add: unat_div)
  have entry: "as_int (int i * 8) = int i * 8" "min 4 (sg_len a - word_of_int (as_int (int i * 4))) = 4"
    if "i < unat (sg_len a) div 4" for i
  proof -
    have small: "unat (sg_len a) < 1073741824" using assms(1) by (simp add: small_args_def)
    have i: "4 * i + 4 \<le> unat (sg_len a)" using that by linarith
    then have "int i * 8 < 2147483648" "int i * 4 < 2147483648" using small by linarith+
    then show "as_int (int i * 8) = int i * 8" by (intro as_int_small) simp_all
    have four: "as_int (int i * 4) = int i * 4" using \<open>int i * 4 < 2147483648\<close> by (intro as_int_small) simp_all
    have w: "word_of_int (int i * 4) = (word_of_nat (4 * i) :: u64)" by (simp add: mult.commute)
    have u: "unat (word_of_nat (4 * i) :: u64) = 4 * i" using i small by (intro unat_of_nat_small) simp
    have "unat (sg_len a - word_of_nat (4 * i)) = unat (sg_len a) - 4 * i"
      using i unat_sub [of "word_of_nat (4 * i)" "sg_len a"] unfolding word_le_nat_alt u by simp
    then have "4 \<le> sg_len a - word_of_nat (4 * i)" using i by (simp add: word_le_nat_alt)
    then show "min 4 (sg_len a - word_of_int (as_int (int i * 4))) = 4" unfolding four w by (simp add: min_absorb1)
  qed
  show ?thesis
    using assms(2) unfolding sg_layout_def append n scatter_def by (auto simp: entry)
qed

lemma layout_contiguous: "\<not> scattered a \<Longrightarrow> sg_layout a = [\<lparr>iov_base = 0, iov_len = sg_len a\<rparr>]"
  by (simp add: sg_layout_def append_iov_def)

lemma chain_scatter: "m \<le> n \<Longrightarrow> chain (int m * 8) (fill (map (\<lambda>i. \<lparr>iov_base = 4 + int i * 8, iov_len = 4\<rparr>) [m..<n]) d) (int n * 8)"
proof (induction "n - m" arbitrary: m d)
  case (Suc k)
  then have m: "m < n" by simp
  have "chain (int (Suc m) * 8) (fill (map (\<lambda>i. \<lparr>iov_base = 4 + int i * 8, iov_len = 4\<rparr>) [Suc m..<n]) (drop 4 d)) (int n * 8)"
    using Suc.hyps(2) m by (intro Suc.hyps(1)) simp_all
  then have "chain (4 + int m * 8 + int (length (take 4 d)))
      (fill (map (\<lambda>i. \<lparr>iov_base = 4 + int i * 8, iov_len = 4\<rparr>) [Suc m..<n]) (drop 4 d)) (int n * 8)"
    by (rule chain_mono) simp
  then show ?case using m by (simp add: upt_conv_Cons)
qed simp

lemma layout_chain:
  assumes "small_args a"
  shows "chain 0 (fill (sg_layout a) d) (sg_buf_size a)"
proof (cases "scattered a")
  case True
  have "unat (sg_len a) < 1073741824" using assms by (simp add: small_args_def)
  then have "unat (sg_len a * 2) = unat (sg_len a) * 2" by (simp add: unat_word_ariths)
  then have two: "uint (sg_len a * 2) = int (unat (sg_len a) * 2)" by (simp only: uint_nat)
  have "unat (sg_len a) div 4 * 8 \<le> unat (sg_len a) * 2" by linarith
  then have "int (unat (sg_len a) div 4) * 8 \<le> int (unat (sg_len a) * 2)" by linarith
  from chain_weaken [OF chain_scatter this, of 0 d] show ?thesis
    using True unfolding layout_scattered [OF assms True] scatter_def sg_buf_size_def two by simp
next
  case False
  have "int (min (length d) (unat (sg_len a))) \<le> uint (sg_len a)" by (metis min.cobounded2 of_nat_le_iff uint_nat)
  then show ?thesis using False by (simp add: layout_contiguous sg_buf_size_def)
qed

end
