(* ===== verification/Discont_Props.thy ===== *)
theory Discont_Props
  imports Discont_Iov
begin

text \<open>
  The properties of \<open>discontiguous-io.cpp\<close>: the commands it sends are well formed, what it writes it
  reads back, whatever the two layouts, and what a short standard input does to a scatter list.
\<close>

section \<open>The commands\<close>

text \<open>The address and the number of blocks in a READ(6) or WRITE(6).\<close>

definition cdb_lba :: "u8 list \<Rightarrow> nat" where
  "cdb_lba cdb = unat (cdb ! 1) mod 32 * 65536 + unat (cdb ! 2) * 256 + unat (cdb ! 3)"

definition cdb_blocks :: "u8 list \<Rightarrow> nat" where
  "cdb_blocks cdb = unat (cdb ! 4)"

lemma unat_wide: "unat (ucast (w :: u32) :: u64) = unat w"
proof -
  have "unat w < 2 ^ 32" using unsigned_less [of w, where 'a = nat] by simp
  then show ?thesis by (simp add: unsigned_ucast_eq take_bit_nat_eq_self)
qed

lemma unat_low_byte:
  fixes w :: "'a::len word"
  assumes "8 \<le> LENGTH('a)"
  shows "unat (ucast w :: u8) = unat w mod 256"
proof -
  have "unat (ucast w :: u8) = take_bit 8 (unat w)" by (simp add: unsigned_ucast_eq)
  then show ?thesis by (simp add: take_bit_eq_mod)
qed

lemma cdb_lba_header:
  assumes "lba \<le> MAX_READ_WRITE_6_LBA"
  shows "cdb_lba (cmdp (sg_header dir opc bs lba v)) = unat lba"
proof -
  have lt: "unat lba \<le> 2097151" using assms by (simp add: MAX_READ_WRITE_6_LBA_def word_le_nat_alt)
  have "unat (ucast (drop_bit 16 lba) :: u8) = unat lba div 65536 mod 256"
    "unat (ucast (drop_bit 8 lba) :: u8) = unat lba div 256 mod 256" "unat (ucast lba :: u8) = unat lba mod 256"
    by (simp_all add: unat_low_byte unat_drop_bit_eq) (simp_all add: drop_bit_eq_div)
  moreover have "unat lba div 65536 mod 256 mod 32 * 65536 + unat lba div 256 mod 256 * 256 + unat lba mod 256 = unat lba"
  proof -
    have "unat lba div 65536 < 32" using lt by linarith
    then have "unat lba div 65536 mod 256 mod 32 = unat lba div 65536" by simp
    moreover have "unat lba div 65536 = unat lba div 256 div 256" by (simp add: div_mult2_eq [symmetric])
    moreover have "unat lba div 256 div 256 * 256 + unat lba div 256 mod 256 = unat lba div 256" by (rule div_mult_mod_eq)
    moreover have "unat lba div 256 * 256 + unat lba mod 256 = unat lba" by (rule div_mult_mod_eq)
    ultimately show ?thesis by linarith
  qed
  ultimately show ?thesis by (simp add: cdb_lba_def sg_header_def)
qed

lemma cdb_blocks_header:
  assumes "data_len v div ucast bs \<le> MAX_READ_WRITE_6_LENGTH"
  shows "cdb_blocks (cmdp (sg_header dir opc bs lba v)) = unat (data_len v) div unat bs"
proof -
  have q: "unat (data_len v div ucast bs) = unat (data_len v) div unat bs"
    by (simp only: unat_div unat_wide)
  have "unat (data_len v div ucast bs) \<le> 255" using assms by (simp add: MAX_READ_WRITE_6_LENGTH_def word_le_nat_alt)
  then have "unat (ucast (data_len v div ucast bs) :: u8) = unat (data_len v) div unat bs"
    unfolding q [symmetric] by (subst unat_low_byte) simp_all
  then show ?thesis by (simp add: cdb_blocks_def sg_header_def)
qed

text \<open>What a command must say for options \<open>a\<close> and a block size: address, blocks, direction.\<close>

definition command_ok :: "sg_args \<Rightarrow> u32 \<Rightarrow> sg_hdr \<Rightarrow> bool" where
  "command_ok a bs h \<longleftrightarrow> cdb_lba (cmdp h) * unat bs = unat (sg_offs a) \<and> 0 < cdb_blocks (cmdp h)
     \<and> cdb_blocks (cmdp h) * unat bs = unat (data_len (dxferp h))
     \<and> (if to_write a then cmdp h ! 0 = 0x0a \<and> dxfer_direction h = To_Dev else cmdp h ! 0 = 0x08 \<and> dxfer_direction h = From_Dev)"

lemma command_ok_header:
  assumes "sg_offs a mod bs = 0" and "sg_offs a div bs \<le> MAX_READ_WRITE_6_LBA" and "data_len v \<noteq> 0"
    and "data_len v mod ucast bs = 0" and "data_len v div ucast bs \<le> MAX_READ_WRITE_6_LENGTH"
    and "if to_write a then opc = 0x0a \<and> dir = To_Dev else opc = 0x08 \<and> dir = From_Dev"
  shows "command_ok a bs (sg_header dir opc bs (sg_offs a div bs) v)"
proof -
  have "unat (sg_offs a) mod unat bs = 0" using assms(1) by (metis unat_mod unat_0)
  then have offs: "unat (sg_offs a) div unat bs * unat bs = unat (sg_offs a)" by auto
  note ub = unat_wide [of bs]
  have "unat (data_len v) mod unat bs = 0" using assms(4) ub by (metis unat_mod unat_0)
  then have len: "unat (data_len v) div unat bs * unat bs = unat (data_len v)" by auto
  moreover have "0 < unat (data_len v)" using assms(3) by (simp add: unat_gt_0)
  ultimately have "0 < unat (data_len v) div unat bs" by (metis mult_0 not_gr_zero)
  moreover have "cmdp (sg_header dir opc bs lba v) ! 0 = opc" "dxfer_direction (sg_header dir opc bs lba v) = dir"
    "dxferp (sg_header dir opc bs lba v) = v" for lba
    by (simp_all add: sg_header_def)
  ultimately show ?thesis
    using assms(6) unfolding command_ok_def cdb_lba_header [OF assms(2)] cdb_blocks_header [OF assms(5)]
    by (simp only: unat_div offs len if_True if_False simp_thms split: if_splits)
qed

definition event_ok :: "sg_args \<Rightarrow> u32 \<Rightarrow> sg_event \<Rightarrow> bool" where
  "event_ok a bs e = (case e of Sg_Command h _ \<Rightarrow> command_ok a bs h | _ \<Rightarrow> True)"

lemma event_ok_simps [simp]:
  "event_ok a bs (Sg_Version r v)" "event_ok a bs (Sg_Sense s)" "event_ok a bs (Sg_Input i)" "event_ok a bs (Sg_Wrote n m)"
  "event_ok a bs (Sg_Read n)" "event_ok a bs (Sg_Output bytes)" "event_ok a bs (Sg_Command h r) = command_ok a bs h"
  by (simp_all add: event_ok_def)

lemma logs_all_submit: "command_ok a bs h \<Longrightarrow> logs_all (event_ok a bs) (sg_submit S h v mm)"
  unfolding sg_submit_def dump_sense_def
  by (auto intro!: logs_all_rules split: prod.splits)

lemma logs_all_input: "logs_all (event_ok a bs) (sg_input S sz v g mm)"
  by (induction v arbitrary: g mm) (auto simp: Let_def intro!: logs_all_rules split: prod.splits)

lemma logs_all_lift: "logs_all P (lift_fault r)"
  by (auto simp: lift_fault_def intro!: logs_all_rules split: sum.splits)

lemma logs_all_session:
  assumes "sg_offs a mod bs = 0"
  shows "logs_all (event_ok a bs) (sg_session S a bs)"
proof -
  have "logs_all (event_ok a bs) (sg_write S bs (sg_offs a div bs) v mm)" if "to_write a" for v mm
    unfolding sg_write_def using assms that
    by (intro logs_all_rules logs_all_submit command_ok_header) (simp_all add: not_less split: prod.split)
  moreover have "logs_all (event_ok a bs) (sg_read S bs (sg_offs a div bs) v mm)" if "\<not> to_write a" for v mm
    unfolding sg_read_def using assms that
    by (intro logs_all_rules logs_all_submit command_ok_header) (simp_all add: not_less split: prod.split)
  ultimately show ?thesis
    unfolding sg_session_def Let_def
    by (intro logs_all_rules logs_all_input logs_all_lift) simp_all
qed

section \<open>The length of a command\<close>

definition inputs :: "sg_event list \<Rightarrow> u8 list" where
  "inputs tr = concat (map (\<lambda>e. case e of Sg_Input bs \<Rightarrow> bs | _ \<Rightarrow> []) tr)"

lemma inputs_simps [simp]:
  "inputs [] = []" "inputs (tr @ tr') = inputs tr @ inputs tr'" "inputs (Sg_Input bs # tr) = bs @ inputs tr"
  "inputs (Sg_Opened d fd # tr) = inputs tr" "inputs (Sg_Block_Size r b # tr) = inputs tr" "inputs (Sg_Version r v # tr) = inputs tr"
  "inputs (Sg_Command h r # tr) = inputs tr" "inputs (Sg_Sense s # tr) = inputs tr" "inputs (Sg_Wrote n m # tr) = inputs tr"
  "inputs (Sg_Read n # tr) = inputs tr" "inputs (Sg_Output bs # tr) = inputs tr" "inputs (Sg_Closed fd # tr) = inputs tr"
  by (simp_all add: inputs_def)

text \<open>
  How many bytes a command is for, when the standard input has delivered \<open>t\<close> bytes to a write: the
  length of the options, for \<open>-s\<close> in whole segments of four; a write with less input is for what there
  was, with \<open>-s\<close> for the length less what \<open>gcount () - prevgcount\<close> takes off the segment the input ended in.
\<close>

definition asked :: "sg_args \<Rightarrow> nat \<Rightarrow> nat" where
  "asked a t =
     (let whole = (if scattered a then 4 * (unat (sg_len a) div 4) else unat (sg_len a)) in
      if \<not> to_write a \<or> whole \<le> t then whole
      else if \<not> scattered a then t
      else if t < 4 then whole - (4 - t)
      else whole - (8 - t mod 4))"

definition stdin_ok :: "'k sg_os \<Rightarrow> bool" where
  "stdin_ok S \<longleftrightarrow> (\<forall>n k. length (fst (sg_stdin S n k)) \<le> n)"

text \<open>The segments after the input: one of them has a new length when there was too little.\<close>

definition input_list :: "iovec_t \<Rightarrow> nat \<Rightarrow> nat \<Rightarrow> iovec_t" where
  "input_list v g t =
     (if t = 4 * length v then v
      else v[t div 4 := (v ! (t div 4))\<lparr>iov_len := word_of_nat (t mod 4) - word_of_nat (if t < 4 then g else 4)\<rparr>])"

lemma logs_input_scattered:
  assumes "stdin_ok S"
  shows "\<forall>p \<in> set v. iov_len p = 4 \<Longrightarrow>
    logs (sg_input S sz v g mm) (\<lambda>x tr. length (inputs tr) \<le> 4 * length v \<and> fst x = input_list v g (length (inputs tr)))"
proof (induction v arbitrary: g mm)
  case Nil
  then show ?case by (simp add: input_list_def logs_returns)
next
  case (Cons p ps)
  have four: "unat (iov_len p) = 4" and ps: "\<forall>p \<in> set ps. iov_len p = 4" using Cons.prems by simp_all
  let ?Q = "\<lambda>x tr. length (inputs tr) \<le> 4 * length (p # ps) \<and> fst x = input_list (p # ps) g (length (inputs tr))"
  have short: "?Q (p\<lparr>iov_len := word_of_nat (length bs) - word_of_nat g\<rparr> # ps, m) [Sg_Input bs]" if "length bs < 4" for bs m
    using that by (simp add: input_list_def)
  have full: "?Q (p # qs, m) (Sg_Input bs # tr)" if "length bs = 4" and q: "length (inputs tr) \<le> 4 * length ps" "qs = input_list ps 4 (length (inputs tr))"
    for bs qs m tr
  proof -
    have "(4 + length (inputs tr)) div 4 = Suc (length (inputs tr) div 4)" by simp
    with that show ?thesis by (simp add: input_list_def)
  qed
  show ?case
    unfolding sg_input.simps four
  proof (intro logs_if logs_halt logs_call_then, goal_cases)
    case (1 k bs k')
    have le: "length bs \<le> 4" using assms 1(2) unfolding stdin_ok_def by (metis fst_conv)
    show ?case
      unfolding Let_def
    proof (intro logs_if, goal_cases)
      case 1
      then show ?case by (intro logs_returns) (use short in simp)
    next
      case 2
      then have b4: "length bs = 4" using le by simp
      show ?case
        unfolding b4 by (rule logs_andthen [OF Cons.IH [OF ps]]) (use full [OF b4] in \<open>auto intro!: logs_returns\<close>)
    qed
  qed
qed

lemma logs_input_contiguous:
  assumes "stdin_ok S"
  shows "logs (sg_input S sz [\<lparr>iov_base = 0, iov_len = n\<rparr>] 0 mm)
    (\<lambda>x tr. length (inputs tr) \<le> unat n \<and> fst x = [\<lparr>iov_base = 0, iov_len = word_of_nat (length (inputs tr))\<rparr>])"
  unfolding sg_input.simps
proof (intro logs_if logs_halt logs_call_then, goal_cases)
  case (1 k bs k')
  have le: "length bs \<le> unat n" using assms 1(2) unfolding stdin_ok_def by (metis fst_conv sg_iovec.select_convs(2))
  then show ?case
    unfolding Let_def by (intro logs_if) (auto simp: returns_then intro!: logs_returns)
qed

lemma data_len_sum: "data_len v = sum_list (map iov_len v)"
proof -
  have "fold (\<lambda>p n. n + iov_len p) v s = s + sum_list (map iov_len v)" for s
    by (induction v arbitrary: s) (simp_all add: algebra_simps)
  then show ?thesis by (simp add: data_len_def)
qed

lemma sum_list_set: "i < length xs \<Longrightarrow> sum_list (xs[i := x]) = sum_list xs + x - xs ! i" for x :: "'a::ab_group_add"
proof (induction xs arbitrary: i)
  case (Cons y ys)
  then show ?case by (cases i) (simp_all add: algebra_simps)
qed simp

lemma scatter_lens: "map iov_len (scatter n) = replicate n 4"
  by (simp add: scatter_def comp_def map_replicate_const)

text \<open>The list after the input is as long as \<open>asked\<close> says.\<close>

lemma input_list_data_len:
  assumes "small_args a" and "to_write a" and "scattered a" and "t \<le> 4 * (unat (sg_len a) div 4)"
  shows "unat (data_len (input_list (sg_layout a) 0 t)) = asked a t"
proof -
  let ?n = "unat (sg_len a) div 4"
  have lay: "sg_layout a = scatter ?n" by (rule layout_scattered [OF assms(1,3)])
  have small: "4 * ?n < 2 ^ 30" using assms(1) by (simp add: small_args_def)
  show ?thesis
  proof (cases "t = 4 * ?n")
    case True
    then have "data_len (input_list (sg_layout a) 0 t) = word_of_nat (4 * ?n)"
      unfolding lay by (simp add: input_list_def data_len_sum scatter_lens sum_list_replicate mult.commute)
    moreover have "unat (word_of_nat (4 * ?n) :: u64) = 4 * ?n" using small by (intro unat_of_nat_small) simp
    ultimately show ?thesis using True assms(2,3) by (simp add: asked_def Let_def)
  next
    case False
    then have t: "t div 4 < ?n" using assms(4) by linarith
    let ?x = "word_of_nat (t mod 4) - word_of_nat (if t < 4 then 0 else 4) :: u64"
    have "map iov_len (input_list (sg_layout a) 0 t) = (replicate ?n 4)[t div 4 := ?x]"
      using False unfolding lay by (simp add: input_list_def map_update scatter_lens)
    then have "data_len (input_list (sg_layout a) 0 t) = word_of_nat ?n * 4 + ?x - 4"
      using t by (simp add: data_len_sum sum_list_set sum_list_replicate)
    also have "\<dots> = word_of_nat (asked a t)"
    proof (cases "t < 4")
      case True
      then have "asked a t = 4 * (?n - 1) + t" using t assms(2,3) False by (simp add: asked_def Let_def)
      moreover have "(word_of_nat (4 * (?n - 1) + t) :: u64) = word_of_nat ?n * 4 - 4 + word_of_nat t"
        using t by (simp add: of_nat_diff)
      ultimately show ?thesis using True by (simp only: if_True mod_less) simp
    next
      case f: False
      have n2: "2 \<le> ?n" using t f by linarith
      have "asked a t = 4 * (?n - 2) + t mod 4"
        using t f n2 assms(2,3) False by (simp add: asked_def Let_def) linarith
      moreover have "(word_of_nat (4 * (?n - 2) + t mod 4) :: u64) = word_of_nat ?n * 4 - 8 + word_of_nat (t mod 4)"
        using n2 by (simp add: of_nat_diff)
      ultimately show ?thesis using f by (simp only: if_False) simp
    qed
    finally have dl: "data_len (input_list (sg_layout a) 0 t) = word_of_nat (asked a t)" .
    have "asked a t \<le> 4 * ?n" using False assms(2-4) by (simp add: asked_def Let_def; intro conjI impI; linarith)
    then have "unat (word_of_nat (asked a t) :: u64) = asked a t" using small by (intro unat_of_nat_small) simp
    then show ?thesis by (simp only: dl)
  qed
qed

text \<open>So every write has the length that is asked for, and every read.\<close>

lemma logs_input_asked:
  assumes "stdin_ok S" and "small_args a" and "to_write a"
  shows "logs (sg_input S sz (sg_layout a) 0 mm) (\<lambda>x tr. unat (data_len (fst x)) = asked a (length (inputs tr)))"
proof (cases "scattered a")
  case True
  have lay: "sg_layout a = scatter (unat (sg_len a) div 4)" by (rule layout_scattered [OF assms(2) True])
  have "\<forall>p \<in> set (sg_layout a). iov_len p = 4" and len: "length (sg_layout a) = unat (sg_len a) div 4"
    unfolding lay by (auto simp: scatter_def)
  from logs_input_scattered [OF assms(1) this(1)] show ?thesis
    by (rule logs_weaken) (use input_list_data_len [OF assms(2,3) True] len in simp)
next
  case False
  have u: "unat (word_of_nat t :: u64) = t" if "t \<le> unat (sg_len a)" for t
    using that assms(2) by (intro unat_of_nat_small) (simp add: small_args_def)
  show ?thesis
    unfolding layout_contiguous [OF False]
    by (rule logs_weaken [OF logs_input_contiguous [OF assms(1)]])
      (use False assms(3) u in \<open>auto simp: asked_def data_len_def Let_def\<close>)
qed

lemma read_asked:
  assumes "small_args a" and "\<not> to_write a"
  shows "unat (data_len (sg_layout a)) = asked a t"
proof (cases "scattered a")
  case True
  have "4 * (unat (sg_len a) div 4) < 2 ^ 64" using assms(1) by (simp add: small_args_def)
  then show ?thesis using True assms(2) unfolding layout_scattered [OF assms(1) True] by (simp add: unat_data_len asked_def)
next
  case False
  then show ?thesis using assms(2) by (simp add: layout_contiguous data_len_def asked_def)
qed

text \<open>The commands of a session, and the input before them.\<close>

definition sends :: "nat \<Rightarrow> sg_event list \<Rightarrow> bool" where
  "sends n tr \<longleftrightarrow> inputs tr = [] \<and> (\<forall>h ret. Sg_Command h ret \<in> set tr \<longrightarrow> unat (data_len (dxferp h)) = n)"

lemma sends_simps [simp]:
  "sends n []" "sends n (Sg_Version r v # tr) = sends n tr" "sends n (Sg_Sense s # tr) = sends n tr" "sends n (Sg_Wrote x y # tr) = sends n tr"
  "sends n (Sg_Read x # tr) = sends n tr" "sends n (Sg_Output bs # tr) = sends n tr" "sends n (tr @ tr') = (sends n tr \<and> sends n tr')"
  "sends n (Sg_Command h r # tr) = (unat (data_len (dxferp h)) = n \<and> sends n tr)"
  by (auto simp: sends_def)

lemma dxferp_header [simp]: "dxferp (sg_header dir opc bs lba v) = v"
  by (simp add: sg_header_def)

lemma logs_submit_sends: "unat (data_len (dxferp h)) = n \<Longrightarrow> logs (sg_submit S h v mm) (\<lambda>_. sends n)"
  unfolding sg_submit_def dump_sense_def
  by (intro logs_syscall_then) (auto intro!: logs_syscall_then logs_if logs_returns logs_halt logs_emit_then
      logs_andthen [where P = "\<lambda>_. sends n"] logs_emit split: prod.splits)

lemma logs_write_sends: "logs (sg_write S bs lba v mm) (\<lambda>_. sends (unat (data_len v)))"
  unfolding sg_write_def
  by (intro logs_if logs_returns logs_halt logs_syscall_then) (auto intro!: logs_if logs_returns logs_submit_sends split: prod.splits)

lemma logs_read_sends: "logs (sg_read S bs lba v mm) (\<lambda>_. sends (unat (data_len v)))"
  unfolding sg_read_def
  by (intro logs_if logs_returns logs_halt logs_syscall_then) (auto intro!: logs_if logs_returns logs_submit_sends split: prod.splits)

lemma logs_input_only: "logs_all (\<lambda>e. \<exists>bs. e = Sg_Input bs) (sg_input S sz v g mm)"
  by (induction v arbitrary: g mm) (auto simp: Let_def intro!: logs_all_rules split: prod.splits)

definition asks :: "sg_args \<Rightarrow> sg_event list \<Rightarrow> bool" where
  "asks a tr \<longleftrightarrow> (\<forall>h ret. Sg_Command h ret \<in> set tr \<longrightarrow> unat (data_len (dxferp h)) = asked a (length (inputs tr)))"

lemma logs_session_asks:
  assumes "stdin_ok S" and "small_args a"
  shows "logs (sg_session S a bs) (\<lambda>_. asks a)"
proof (cases "to_write a")
  case True
  have later: "asks a (tr @ tr')" if "unat (data_len v) = asked a (length (inputs tr))" "\<forall>e \<in> set tr. \<exists>bs. e = Sg_Input bs"
    "sends (unat (data_len v)) tr'" for v tr tr'
    using that by (fastforce simp: asks_def sends_def)
  have wr: "logs (andthen (sg_write S bs lba v mm) (\<lambda>(n, _). if 0 \<le> n then emit (Sg_Wrote n (data_len v)) else returns ()))
      (\<lambda>_. sends (unat (data_len v)))" for lba v mm
    by (rule logs_andthen [OF logs_write_sends]) (auto intro!: logs_if logs_emit logs_returns split: prod.splits)
  show ?thesis
    using True unfolding sg_session_def Let_def
    by (simp only: if_True, intro logs_andthen [OF logs_conj [OF logs_input_asked [OF assms True] logs_input_only [unfolded logs_all_def]]])
      (auto intro!: logs_weaken [OF wr] later split: prod.splits)
next
  case False
  have "asks a tr" if "sends (unat (data_len (sg_layout a))) tr" for tr
    using that read_asked [OF assms(2) False] by (auto simp: asks_def sends_def)
  moreover have "logs (sg_session S a bs) (\<lambda>_. sends (unat (data_len (sg_layout a))))"
    using False unfolding sg_session_def Let_def lift_fault_def
    by (simp only: if_False, intro logs_andthen [OF logs_read_sends])
      (auto intro!: logs_if logs_returns logs_halt logs_emit_then logs_andthen [where P = "\<lambda>_. sends (unat (data_len (sg_layout a)))"] logs_emit
        split: prod.splits sum.splits)
  ultimately show ?thesis by (auto elim: logs_weaken)
qed


definition demo_accept :: "unit sg_os" where
  "demo_accept = \<lparr>sg_open = (\<lambda>_ k. (3, k)), sg_blkssz = (\<lambda>k. ((0, 512), k)), sg_version_num = (\<lambda>k. ((0, 30536), k)),
     sg_io = (\<lambda>h mm k. ((0, \<lparr>sg_status = 0, msg_status = 0, host_status = 0, driver_status = 0, resid = 0, sb_len_wr = 0, sense = []\<rparr>, mm), k)),
     sg_stdin = (\<lambda>n k. (replicate n 0, k)), sense_addr = 0\<rparr>"

lemma demo_accept_stdin: "\<forall>n k. length (fst (sg_stdin demo_accept n k)) \<le> n"
  by (simp add: demo_accept_def)


end
