(* ===== verification/Discont_Roundtrip.thy ===== *)
theory Discont_Roundtrip
  imports Discont_Props
begin

text \<open>
  \<open>discontiguous-io.cpp\<close> on a device that stores what it is given: data written from standard input
  is printed back by a later run, with either layout for the writer and for the reader.
\<close>

section \<open>A faithful device\<close>

text \<open>\<open>disk\<close> and \<open>inp\<close> read the device content and the standard input off the system's state.\<close>

definition no_error :: sg_reply where
  "no_error = \<lparr>sg_status = 0, msg_status = 0, host_status = 0, driver_status = 0, resid = 0, sb_len_wr = 0, sense = []\<rparr>"

definition sg_calls_work :: "'k sg_os \<Rightarrow> u32 \<Rightarrow> ('k \<Rightarrow> nat \<Rightarrow> u8) \<Rightarrow> ('k \<Rightarrow> u8 list) \<Rightarrow> bool" where
  "sg_calls_work S bs disk inp \<longleftrightarrow>
     (\<forall>d k. \<exists>fd k'. sg_open S d k = (fd, k') \<and> 0 \<le> fd \<and> disk k' = disk k \<and> inp k' = inp k)
   \<and> (\<forall>k. \<exists>k'. sg_blkssz S k = ((0, bs), k') \<and> disk k' = disk k \<and> inp k' = inp k)
   \<and> (\<forall>k. \<exists>ver k'. sg_version_num S k = ((0, ver), k') \<and> 30000 \<le> ver \<and> disk k' = disk k \<and> inp k' = inp k)
   \<and> (\<forall>n k. \<exists>k'. sg_stdin S n k = (take n (inp k), k') \<and> inp k' = drop n (inp k) \<and> disk k' = disk k)"

definition disk_bytes :: "(nat \<Rightarrow> u8) \<Rightarrow> nat \<Rightarrow> nat \<Rightarrow> u8 list" where
  "disk_bytes d a n = map (\<lambda>i. d (a + i)) [0..<n]"

definition disk_store :: "nat \<Rightarrow> u8 list \<Rightarrow> (nat \<Rightarrow> u8) \<Rightarrow> nat \<Rightarrow> u8" where
  "disk_store a xs d = (\<lambda>i. if a \<le> i \<and> i < a + length xs then xs ! (i - a) else d i)"

text \<open>A command whose scatter list is complete moves the addressed bytes through its segments.\<close>

definition complete :: "u32 \<Rightarrow> sg_hdr \<Rightarrow> bool" where
  "complete bs h \<longleftrightarrow> unat (iovec_count h) = length (dxferp h) \<and> unat (dxfer_len h) = iov_total (dxferp h)
     \<and> iov_total (dxferp h) = cdb_blocks (cmdp h) * unat bs"

definition sg_stores :: "'k sg_os \<Rightarrow> u32 \<Rightarrow> ('k \<Rightarrow> nat \<Rightarrow> u8) \<Rightarrow> ('k \<Rightarrow> u8 list) \<Rightarrow> bool" where
  "sg_stores S bs disk inp \<longleftrightarrow> (\<forall>h mm k. complete bs h \<longrightarrow>
     (dxfer_direction h = From_Dev \<longrightarrow>
        (\<exists>k'. sg_io S h mm k = ((0, no_error, write_all (fill (dxferp h)
            (disk_bytes (disk k) (cdb_lba (cmdp h) * unat bs) (iov_total (dxferp h)))) mm), k')
          \<and> disk k' = disk k \<and> inp k' = inp k))
   \<and> (dxfer_direction h = To_Dev \<longrightarrow>
        (\<exists>mm' k'. sg_io S h mm k = ((0, no_error, mm'), k') \<and> inp k' = inp k
          \<and> disk k' = disk_store (cdb_lba (cmdp h) * unat bs) (gather mm (dxferp h)) (disk k))))"

lemma disk_bytes_store: "n = length xs \<Longrightarrow> disk_bytes (disk_store a xs d) a n = xs"
  unfolding disk_bytes_def by (rule nth_equalityI) (simp_all add: disk_store_def)

section \<open>Arguments that fit\<close>

definition sg_fits :: "u32 \<Rightarrow> sg_args \<Rightarrow> bool" where
  "sg_fits bs a \<longleftrightarrow> 0 < unat bs \<and> unat (sg_offs a) mod unat bs = 0 \<and> unat (sg_offs a) div unat bs \<le> 0x1fffff
     \<and> 0 < unat (sg_len a) \<and> unat (sg_len a) mod unat bs = 0 \<and> unat (sg_len a) div unat bs \<le> 255
     \<and> unat (sg_len a) < 2 ^ 30 \<and> (scattered a \<longrightarrow> unat (sg_len a) mod 4 = 0 \<and> unat (sg_len a) < 2 ^ 18)"

lemma fits_small: "sg_fits bs a \<Longrightarrow> small_args a"
  by (simp add: sg_fits_def small_args_def)

lemma layout_fits:
  assumes "sg_fits bs a"
  shows "iov_total (sg_layout a) = unat (sg_len a)" and "length (sg_layout a) < 2 ^ 16"
proof -
  have *: "iov_total (sg_layout a) = unat (sg_len a) \<and> length (sg_layout a) < 2 ^ 16"
  proof (cases "scattered a")
    case True
    have "unat (sg_len a) mod 4 = 0" "unat (sg_len a) < 262144" using assms True by (simp_all add: sg_fits_def)
    then have "4 * (unat (sg_len a) div 4) = unat (sg_len a)" "unat (sg_len a) div 4 < 65536" by auto
    then show ?thesis unfolding layout_scattered [OF fits_small [OF assms] True] by simp
  next
    case False
    then show ?thesis by (simp add: layout_contiguous)
  qed
  show "iov_total (sg_layout a) = unat (sg_len a)" using * ..
  show "length (sg_layout a) < 2 ^ 16" using * ..
qed

lemma layout_in_buf:
  assumes "small_args a"
  shows "\<forall>p \<in> set (sg_layout a). in_buf (sg_buf_size a) (iov_base p) (iov_len p)"
proof (cases "scattered a")
  case True
  have small: "unat (sg_len a) < 1073741824" using assms by (simp add: small_args_def)
  then have "unat (sg_len a * 2) = unat (sg_len a) * 2" by (simp add: unat_word_ariths)
  then have two: "uint (sg_len a * 2) = int (unat (sg_len a) * 2)" by (simp only: uint_nat)
  have "4 + int i * 8 + 4 \<le> int (unat (sg_len a) * 2)" if "i < unat (sg_len a) div 4" for i
    using that by linarith
  then show ?thesis
    using True unfolding layout_scattered [OF assms True] scatter_def sg_buf_size_def two in_buf_def by auto
next
  case False
  then show ?thesis by (simp add: layout_contiguous sg_buf_size_def in_buf_def)
qed

lemma layout_data_len: "sg_fits bs a \<Longrightarrow> data_len (sg_layout a) = sg_len a"
  by (simp add: data_len_total layout_fits(1))

text \<open>The checks before a command pass, and the command is complete.\<close>

lemma fits_checks:
  assumes "sg_fits bs a"
  shows "sg_offs a mod bs = 0" and "\<not> MAX_READ_WRITE_6_LBA < sg_offs a div bs" and "sg_len a \<noteq> 0" and "bs \<noteq> 0"
    and "sg_len a mod ucast bs = 0" and "\<not> MAX_READ_WRITE_6_LENGTH < sg_len a div ucast bs"
proof -
  show "sg_offs a mod bs = 0" using assms by (intro word_unat_eq_iff [THEN iffD2]) (simp add: unat_mod sg_fits_def)
  show "\<not> MAX_READ_WRITE_6_LBA < sg_offs a div bs"
    using assms by (simp add: not_less word_le_nat_alt unat_div sg_fits_def MAX_READ_WRITE_6_LBA_def)
  show "sg_len a \<noteq> 0" "bs \<noteq> 0" using assms by (auto simp: sg_fits_def)
  show "sg_len a mod ucast bs = 0" using assms by (intro word_unat_eq_iff [THEN iffD2]) (simp add: unat_mod unat_wide sg_fits_def)
  show "\<not> MAX_READ_WRITE_6_LENGTH < sg_len a div ucast bs"
    using assms by (simp add: not_less word_le_nat_alt unat_div unat_wide sg_fits_def MAX_READ_WRITE_6_LENGTH_def)
qed

lemma fits_complete:
  assumes "sg_fits bs a"
  shows "complete bs (sg_header dir opc bs lba (sg_layout a))"
proof -
  have len: "unat (sg_len a) < 2 ^ LENGTH(32)" using assms by (simp add: sg_fits_def)
  have "data_len (sg_layout a) div ucast bs \<le> MAX_READ_WRITE_6_LENGTH"
    using fits_checks(6) [OF assms] by (simp add: layout_data_len [OF assms])
  from cdb_blocks_header [OF this] have "cdb_blocks (cmdp (sg_header dir opc bs lba (sg_layout a))) = unat (sg_len a) div unat bs"
    by (simp add: layout_data_len [OF assms])
  moreover have "unat (sg_len a) div unat bs * unat bs = unat (sg_len a)" using assms by (auto simp: sg_fits_def)
  moreover have "unat (ucast (sg_len a) :: u32) = unat (sg_len a)"
    using len by (simp add: unsigned_ucast_eq take_bit_nat_eq_self)
  moreover have "unat (word_of_nat (length (sg_layout a)) :: u16) = length (sg_layout a)"
    using layout_fits(2) [OF assms] by (intro unat_of_nat_small) simp
  ultimately show ?thesis
    by (simp add: complete_def sg_header_def layout_data_len [OF assms] layout_fits(1) [OF assms])
qed

lemma fits_address:
  assumes "sg_fits bs a"
  shows "cdb_lba (cmdp (sg_header dir opc bs (sg_offs a div bs) v)) * unat bs = unat (sg_offs a)"
proof -
  have "sg_offs a div bs \<le> MAX_READ_WRITE_6_LBA" using fits_checks(2) [OF assms] by simp
  then show ?thesis using assms by (auto simp: cdb_lba_header unat_div sg_fits_def)
qed


section \<open>Runs\<close>

text \<open>Only the bytes the program prints from the device are \<open>printed\<close>.\<close>

definition printed :: "sg_event list \<Rightarrow> u8 list" where
  "printed tr = concat (map (\<lambda>e. case e of Sg_Output bs \<Rightarrow> bs | _ \<Rightarrow> []) tr)"

lemma printed_simps [simp]:
  "printed [] = []" "printed (tr @ tr') = printed tr @ printed tr'" "printed [Sg_Output bs] = bs" "printed [Sg_Opened d fd] = []"
  "printed [Sg_Block_Size r b] = []" "printed [Sg_Version r v] = []" "printed [Sg_Command h r] = []" "printed [Sg_Input bs] = []"
  "printed [Sg_Wrote n m] = []" "printed [Sg_Read n] = []" "printed [Sg_Closed fd] = []"
  by (simp_all add: printed_def)

text \<open>A run reaches a value in a world with the given content, input and output.\<close>

definition reaches :: "('k \<Rightarrow> nat \<Rightarrow> u8) \<Rightarrow> ('k \<Rightarrow> u8 list) \<Rightarrow> ('k, 'a) sg_prog \<Rightarrow> ('k, sg_event) sys_world \<Rightarrow> 'a
    \<Rightarrow> (nat \<Rightarrow> u8) \<times> u8 list \<times> u8 list \<Rightarrow> bool" where
  "reaches disk inp m w x q \<longleftrightarrow> (\<exists>w'. m w = Inr (x, w') \<and> q = (disk (kst w'), inp (kst w'), printed (sys_log w')))"

definition look :: "('k \<Rightarrow> nat \<Rightarrow> u8) \<Rightarrow> ('k \<Rightarrow> u8 list) \<Rightarrow> ('k, sg_event) sys_world \<Rightarrow> (nat \<Rightarrow> u8) \<times> u8 list \<times> u8 list" where
  "look disk inp w = (disk (kst w), inp (kst w), printed (sys_log w))"

lemma reaches_andthen:
  assumes "reaches disk inp m w x q" and "\<And>w'. look disk inp w' = q \<Longrightarrow> reaches disk inp (f x) w' y r"
  shows "reaches disk inp (andthen m f) w y r"
  using assms unfolding reaches_def look_def by (fastforce simp: andthen_value)

lemma reaches_returns: "look disk inp w = q \<Longrightarrow> reaches disk inp (returns x) w x q"
  by (simp add: reaches_def look_def returns_run)

lemma reaches_emit: "look disk inp w = (d, i, out) \<Longrightarrow> reaches disk inp (emit e) w () (d, i, out @ printed [e])"
  by (auto simp: reaches_def look_def emit_def)

lemma reaches_syscall:
  assumes "look disk inp w = (d0, i0, out)" and "f (kst w) = (x, k')" and "disk k' = d" and "inp k' = i" and "printed [ev x] = []"
  shows "reaches disk inp (syscall f ev) w x (d, i, out)"
  using assms by (simp add: reaches_def syscall_def look_def)

lemma calls_reach:
  assumes "sg_calls_work S bs disk inp" and "look disk inp w = (d, i, out)"
  obtains fd ver where "reaches disk inp (syscall (sg_open S dev) (Sg_Opened dev)) w fd (d, i, out)" and "0 \<le> fd"
    and "reaches disk inp (syscall (sg_blkssz S) (\<lambda>p. Sg_Block_Size (fst p) (snd p))) w (0, bs) (d, i, out)"
    and "reaches disk inp (syscall (sg_version_num S) (\<lambda>(ret, ver). Sg_Version ret ver)) w (0, ver) (d, i, out)" and "30000 \<le> ver"
proof -
  have w: "disk (kst w) = d" "inp (kst w) = i" using assms(2) by (simp_all add: look_def)
  obtain fd k1 where k1: "sg_open S dev (kst w) = (fd, k1)" "0 \<le> fd" "disk k1 = d" "inp k1 = i"
    using assms(1) unfolding sg_calls_work_def w [symmetric] by blast
  obtain k2 where k2: "sg_blkssz S (kst w) = ((0, bs), k2)" "disk k2 = d" "inp k2 = i"
    using assms(1) unfolding sg_calls_work_def w [symmetric] by blast
  obtain ver k3 where k3: "sg_version_num S (kst w) = ((0, ver), k3)" "30000 \<le> ver" "disk k3 = d" "inp k3 = i"
    using assms(1) unfolding sg_calls_work_def w [symmetric] by blast
  show ?thesis
  proof (rule that [of fd ver])
    show "reaches disk inp (syscall (sg_open S dev) (Sg_Opened dev)) w fd (d, i, out)"
      by (rule reaches_syscall, fact assms(2), fact k1(1), fact k1(3), fact k1(4), simp)
    show "reaches disk inp (syscall (sg_blkssz S) (\<lambda>p. Sg_Block_Size (fst p) (snd p))) w (0, bs) (d, i, out)"
      by (rule reaches_syscall, fact assms(2), fact k2(1), fact k2(2), fact k2(3), simp)
    show "reaches disk inp (syscall (sg_version_num S) (\<lambda>(ret, ver). Sg_Version ret ver)) w (0, ver) (d, i, out)"
      by (rule reaches_syscall, fact assms(2), fact k3(1), fact k3(3), fact k3(4), simp)
  qed (fact k1(2), fact k3(2))
qed

lemma input_reaches:
  assumes "sg_calls_work S bs disk inp"
  shows "\<forall>p \<in> set v. in_buf sz (iov_base p) (iov_len p) \<Longrightarrow> look disk inp w = (d, i, out) \<Longrightarrow> iov_total v \<le> length i \<Longrightarrow>
    reaches disk inp (sg_input S sz v g mm) w (v, write_all (fill v i) mm) (d, drop (iov_total v) i, out)"
proof (induction v arbitrary: w g mm i)
  case Nil
  then show ?case by (simp add: reaches_returns)
next
  case (Cons p ps)
  let ?n = "unat (iov_len p)"
  obtain k' where k': "sg_stdin S ?n (kst w) = (take ?n i, k')" "inp k' = drop ?n i" "disk k' = d"
    using assms Cons.prems(2) unfolding sg_calls_work_def look_def by (metis prod.inject)
  have "reaches disk inp (syscall (sg_stdin S ?n) Sg_Input) w (take ?n i) (d, drop ?n i, out)"
    by (rule reaches_syscall, fact Cons.prems(2), fact k'(1), fact k'(3), fact k'(2), simp)
  moreover have "reaches disk inp (andthen (sg_input S sz ps ?n (write_bytes (iov_base p, take ?n i) mm))
      (\<lambda>(qs, mm''). returns (p # qs, mm''))) w' (p # ps, write_all (fill (p # ps) i) mm) (d, drop (iov_total (p # ps)) i, out)"
    if "look disk inp w' = (d, drop ?n i, out)" for w'
  proof (rule reaches_andthen [OF Cons.IH [OF _ that]])
    show "\<forall>p \<in> set ps. in_buf sz (iov_base p) (iov_len p)" "iov_total ps \<le> length (drop ?n i)" using Cons.prems by simp_all
  qed (simp add: reaches_returns add.commute)
  ultimately show ?case
    using Cons.prems(1,3) unfolding sg_input.simps Let_def
    by simp (rule reaches_andthen, assumption, simp add: min_absorb2)
qed


lemma reaches_if: "(c \<Longrightarrow> reaches disk inp m w x q) \<Longrightarrow> (\<not> c \<Longrightarrow> reaches disk inp m' w x q) \<Longrightarrow> reaches disk inp (if c then m else m') w x q"
  by simp

lemma submit_reaches:
  assumes "sg_io S h mm (kst w) = ((0, no_error, mm'), k')" and "look disk inp w = (d, i, out)"
    and "disk k' = d'" and "inp k' = i" and "unat (data_len v) < 2 ^ 63"
  shows "reaches disk inp (sg_submit S h v mm) w (uint (data_len v), mm') (d', i, out)"
proof -
  have "sint (data_len v) = uint (data_len v)" unfolding uint_nat using assms(5) by (rule sint_u64_small)
  then have val: "sint (data_len v - scast (resid no_error)) = uint (data_len v)" by (simp add: no_error_def)
  have ok: "sg_result no_error = 0" by (simp add: sg_result_def no_error_def)
  have "reaches disk inp (syscall (sg_io S h mm) (\<lambda>(ret, _). Sg_Command h ret)) w (0, no_error, mm') (d', i, out)"
    by (rule reaches_syscall, fact assms(2), fact assms(1), fact assms(3), fact assms(4), simp)
  then show ?thesis
    unfolding sg_submit_def
    by (rule reaches_andthen) (simp only: prod.case ok val less_irrefl if_False not_False_eq_True simp_thms, rule reaches_returns)
qed

lemma read_reaches:
  assumes "sg_calls_work S bs disk inp" and "sg_stores S bs disk inp" and "sg_fits bs a" and "look disk inp w = (d, i, out)"
  shows "reaches disk inp (sg_read S bs (sg_offs a div bs) (sg_layout a) mm) w
    (uint (sg_len a), write_all (fill (sg_layout a) (disk_bytes d (unat (sg_offs a)) (unat (sg_len a)))) mm) (d, i, out)"
proof -
  let ?h = "sg_header From_Dev 0x08 bs (sg_offs a div bs) (sg_layout a)"
  have h: "dxferp ?h = sg_layout a" "dxfer_direction ?h = From_Dev" by (simp_all add: sg_header_def)
  have small: "unat (data_len (sg_layout a)) < 2 ^ 63"
    using assms(3) unfolding layout_data_len [OF assms(3)] by (simp add: sg_fits_def)
  obtain ver where ver: "30000 \<le> ver"
    "reaches disk inp (syscall (sg_version_num S) (\<lambda>(ret, ver). Sg_Version ret ver)) w (0, ver) (d, i, out)"
    using calls_reach [OF assms(1,4)] by metis
  have submit: "reaches disk inp (sg_submit S ?h (sg_layout a) mm) w'
      (uint (sg_len a), write_all (fill (sg_layout a) (disk_bytes d (unat (sg_offs a)) (unat (sg_len a)))) mm) (d, i, out)"
    if w': "look disk inp w' = (d, i, out)" for w'
  proof -
    have kd: "disk (kst w') = d" "inp (kst w') = i" using w' by (simp_all add: look_def)
    obtain k' where k': "sg_io S ?h mm (kst w') = ((0, no_error, write_all (fill (dxferp ?h)
            (disk_bytes (disk (kst w')) (cdb_lba (cmdp ?h) * unat bs) (iov_total (dxferp ?h)))) mm), k')"
      "disk k' = disk (kst w')" "inp k' = inp (kst w')"
      using assms(2) fits_complete [OF assms(3)] h(2) unfolding sg_stores_def by blast
    show ?thesis
      using submit_reaches [OF k'(1) w' k'(2) [unfolded kd] k'(3) [unfolded kd] small]
      unfolding h(1) kd fits_address [OF assms(3)] layout_fits(1) [OF assms(3)] layout_data_len [OF assms(3)] .
  qed
  show ?thesis
    unfolding sg_read_def layout_data_len [OF assms(3)] fits_checks(5) [OF assms(3)]
    using fits_checks [OF assms(3)] ver(1)
    by (simp, intro reaches_andthen [OF ver(2)]) (simp add: submit)
qed

lemma write_reaches:
  assumes "sg_calls_work S bs disk inp" and "sg_stores S bs disk inp" and "sg_fits bs a" and "look disk inp w = (d, i, out)"
  shows "reaches disk inp (andthen (sg_write S bs (sg_offs a div bs) (sg_layout a) mm) (\<lambda>(n, _). returns n)) w
    (uint (sg_len a)) (disk_store (unat (sg_offs a)) (gather mm (sg_layout a)) d, i, out)"
proof -
  let ?h = "sg_header To_Dev 0x0a bs (sg_offs a div bs) (sg_layout a)"
  have h: "dxferp ?h = sg_layout a" "dxfer_direction ?h = To_Dev" by (simp_all add: sg_header_def)
  have small: "unat (data_len (sg_layout a)) < 2 ^ 63"
    using assms(3) unfolding layout_data_len [OF assms(3)] by (simp add: sg_fits_def)
  obtain ver where ver: "30000 \<le> ver"
    "reaches disk inp (syscall (sg_version_num S) (\<lambda>(ret, ver). Sg_Version ret ver)) w (0, ver) (d, i, out)"
    using calls_reach [OF assms(1,4)] by metis
  have submit: "\<exists>mm'. reaches disk inp (sg_submit S ?h (sg_layout a) mm) w' (uint (sg_len a), mm')
      (disk_store (unat (sg_offs a)) (gather mm (sg_layout a)) d, i, out)"
    if w': "look disk inp w' = (d, i, out)" for w'
  proof -
    have kd: "disk (kst w') = d" "inp (kst w') = i" using w' by (simp_all add: look_def)
    obtain mm' k' where k': "sg_io S ?h mm (kst w') = ((0, no_error, mm'), k')" "inp k' = inp (kst w')"
      "disk k' = disk_store (cdb_lba (cmdp ?h) * unat bs) (gather mm (dxferp ?h)) (disk (kst w'))"
      using assms(2) fits_complete [OF assms(3)] h(2) unfolding sg_stores_def by blast
    show ?thesis
      using submit_reaches [OF k'(1) w' k'(3) [unfolded kd] k'(2) [unfolded kd] small]
      unfolding h(1) kd fits_address [OF assms(3)] layout_data_len [OF assms(3)] by blast
  qed
  have submit': "reaches disk inp (andthen (sg_submit S ?h (sg_layout a) mm) (\<lambda>(n, _). returns n)) w'
      (uint (sg_len a)) (disk_store (unat (sg_offs a)) (gather mm (sg_layout a)) d, i, out)"
    if w': "look disk inp w' = (d, i, out)" for w'
  proof -
    obtain mm' where "reaches disk inp (sg_submit S ?h (sg_layout a) mm) w' (uint (sg_len a), mm')
      (disk_store (unat (sg_offs a)) (gather mm (sg_layout a)) d, i, out)" using submit [OF w'] by blast
    then show ?thesis by (rule reaches_andthen) (simp add: reaches_returns)
  qed
  show ?thesis
    unfolding sg_write_def layout_data_len [OF assms(3)] fits_checks(5) [OF assms(3)]
    using fits_checks [OF assms(3)] ver(1) submit'
    by (simp add: andthen_assoc, intro reaches_andthen [OF ver(2)]) simp
qed


text \<open>The two kinds of session.\<close>

lemma read_session:
  assumes "sg_calls_work S bs disk inp" and "sg_stores S bs disk inp" and "sg_fits bs a" and "look disk inp w = (d, i, out)"
    and "\<not> to_write a"
  shows "reaches disk inp (sg_session S a bs) w () (d, i, out @ disk_bytes d (unat (sg_offs a)) (unat (sg_len a)))"
proof -
  let ?v = "sg_layout a" and ?bytes = "disk_bytes d (unat (sg_offs a)) (unat (sg_len a))"
  let ?mm = "write_all (fill ?v ?bytes) (\<lambda>_. 0)"
  have small: "small_args a" using assms(3) by (rule fits_small)
  have len: "iov_total ?v = unat (sg_len a)" "length ?bytes = unat (sg_len a)"
    using layout_fits(1) [OF assms(3)] by (simp_all add: disk_bytes_def)
  have lt: "unat (sg_len a) < 2 ^ 64" using assms(3) by (simp add: sg_fits_def)
  have "trunc (word_of_int (uint (sg_len a))) ?v = Inr (cut_iov (unat (sg_len a)) ?v)"
    using lt by (simp add: trunc_cut len)
  moreover have "iov_write (sg_buf_size a) ?mm (cut_iov (unat (sg_len a)) ?v) = Inr (gather ?mm (cut_iov (unat (sg_len a)) ?v))"
    by (intro iov_write_gather cut_in_buf layout_in_buf small)
  moreover have "gather ?mm (cut_iov (unat (sg_len a)) ?v) = ?bytes"
    using lt by (simp add: gather_cut gather_write_all [OF layout_chain [OF small]] len)
  ultimately have lifted: "lift_fault (seq (trunc (word_of_int (uint (sg_len a))) ?v) (iov_write (sg_buf_size a) ?mm)) = returns ?bytes"
    by (simp add: lift_fault_def)
  have "reaches disk inp (andthen (emit (Sg_Read (uint (sg_len a)))) (\<lambda>_. andthen (returns ?bytes) (\<lambda>bs. emit (Sg_Output bs)))) w' ()
      (d, i, out @ ?bytes)" if "look disk inp w' = (d, i, out)" for w'
    unfolding returns_then
    by (rule reaches_andthen [OF reaches_emit [OF that]]) (use reaches_emit [where e = "Sg_Output ?bytes"] in simp)
  moreover have "\<not> uint (sg_len a) < 0" by simp
  ultimately show ?thesis
    using assms(5) unfolding sg_session_def Let_def
    by (simp only: if_False, intro reaches_andthen [OF read_reaches [OF assms(1-4)]]) (simp only: prod.case lifted if_False)
qed

lemma write_session:
  assumes "sg_calls_work S bs disk inp" and "sg_stores S bs disk inp" and "sg_fits bs a" and "look disk inp w = (d, i, out)"
    and "to_write a" and "unat (sg_len a) \<le> length i"
  shows "reaches disk inp (sg_session S a bs) w ()
    (disk_store (unat (sg_offs a)) (take (unat (sg_len a)) i) d, drop (unat (sg_len a)) i, out)"
proof -
  let ?v = "sg_layout a" and ?n = "unat (sg_len a)"
  let ?mm = "write_all (fill ?v i) (\<lambda>_. 0)"
  have small: "small_args a" using assms(3) by (rule fits_small)
  have len: "iov_total ?v = ?n" using layout_fits(1) [OF assms(3)] .
  have mm: "gather ?mm ?v = take ?n i"
    using gather_write_all [OF layout_chain [OF small], of "take ?n i"] assms(6) by (simp add: len fill_take)
  have inp: "reaches disk inp (sg_input S (sg_buf_size a) ?v 0 (\<lambda>_. 0)) w (?v, ?mm) (d, drop ?n i, out)"
    using input_reaches [OF assms(1) layout_in_buf [OF small] assms(4)] assms(6) unfolding len by blast
  have shape: "andthen (sg_write S bs lba ?v m0) (\<lambda>(written, _). if 0 \<le> written then emit (Sg_Wrote written x) else returns ())
      = andthen (andthen (sg_write S bs lba ?v m0) (\<lambda>(n, _). returns n)) (\<lambda>n. if 0 \<le> n then emit (Sg_Wrote n x) else returns ())" for lba m0 x
    by (simp add: andthen_assoc case_prod_beta' returns_then)
  have "reaches disk inp (if 0 \<le> uint (sg_len a) then emit (Sg_Wrote (uint (sg_len a)) x) else returns ()) w' () (d', i', out')"
    if "look disk inp w' = (d', i', out')" for w' d' i' out' x
    using reaches_emit [OF that, of "Sg_Wrote (uint (sg_len a)) x"] by simp
  then show ?thesis
    using assms(5) unfolding sg_session_def Let_def
    by (simp only: if_True, intro reaches_andthen [OF inp])
      (simp only: prod.case shape, intro reaches_andthen [OF write_reaches [OF assms(1-3), where mm = ?mm, unfolded mm]])
qed

lemma main_reaches:
  assumes "sg_calls_work S bs disk inp" and "sg_fits bs a" and "look disk inp w = (d, i, out)"
    and "sg_options opts sg_defaults = Some a"
    and "\<And>w'. look disk inp w' = (d, i, out) \<Longrightarrow> reaches disk inp (sg_session S a bs) w' () (d', i', out')"
  shows "reaches disk inp (sg_main S opts (Some dev)) w 0 (d', i', out')"
proof -
  have checked: "sg_checked S a (0, bs) = sg_session S a bs"
    using fits_checks(1,4) [OF assms(2)] by (simp add: sg_checked_def)
  have finish: "reaches disk inp (andthen (emit (Sg_Closed fd)) (\<lambda>_. returns 0)) w' 0 (d', i', out')"
    if "look disk inp w' = (d', i', out')" for w' fd
    using reaches_emit [OF that, of "Sg_Closed fd"] by (intro reaches_andthen) (auto intro: reaches_returns)
  obtain fd where fd: "0 \<le> fd" "reaches disk inp (syscall (sg_open S dev) (Sg_Opened dev)) w fd (d, i, out)"
    using calls_reach [OF assms(1,3)] by metis
  have rest: "reaches disk inp (andthen (sg_checked S a (0, bs)) (\<lambda>_. andthen (emit (Sg_Closed fd)) (\<lambda>_. returns 0))) w' 0 (d', i', out')"
    if "look disk inp w' = (d, i, out)" for w'
    unfolding checked by (rule reaches_andthen [OF assms(5) [OF that] finish])
  have "reaches disk inp (andthen (syscall (sg_blkssz S) (\<lambda>p. Sg_Block_Size (fst p) (snd p)))
      (\<lambda>p. andthen (sg_checked S a p) (\<lambda>_. andthen (emit (Sg_Closed fd)) (\<lambda>_. returns 0)))) w' 0 (d', i', out')"
    if w': "look disk inp w' = (d, i, out)" for w'
  proof -
    have "reaches disk inp (syscall (sg_blkssz S) (\<lambda>p. Sg_Block_Size (fst p) (snd p))) w' (0, bs) (d, i, out)"
      using calls_reach [OF assms(1) w'] by metis
    then show ?thesis by (rule reaches_andthen) (rule rest)
  qed
  then show ?thesis
    unfolding sg_main_unfold assms(4) option.case using fd(1)
    by (intro reaches_andthen [OF fd(2)]) simp
qed


text \<open>
  C29. On a device that stores what it is given, a run with \<open>-w\<close> and a later run without it print the
  first \<open>len\<close> bytes of the standard input of the first, whether the two use \<open>-s\<close> or not; both end with
  status 0 and nothing but the addressed range of the device has changed.
\<close>

theorem discont_roundtrip:
  assumes "sg_calls_work S bs disk inp" and "sg_stores S bs disk inp"
    and "sg_options opts_w sg_defaults = Some a" and "to_write a" and "sg_fits bs a"
    and "sg_options opts_r sg_defaults = Some b" and "\<not> to_write b" and "sg_fits bs b"
    and "sg_offs b = sg_offs a" and "sg_len b = sg_len a" and "unat (sg_len a) \<le> length (inp (kst w))"
  shows "\<exists>w1 w2. sg_main S opts_w (Some dev) w = Inr (0, w1) \<and> sg_main S opts_r (Some dev) w1 = Inr (0, w2)
     \<and> printed (sys_log w2) = printed (sys_log w) @ take (unat (sg_len a)) (inp (kst w))
     \<and> disk (kst w2) = disk_store (unat (sg_offs a)) (take (unat (sg_len a)) (inp (kst w))) (disk (kst w))"
proof -
  let ?d = "disk_store (unat (sg_offs a)) (take (unat (sg_len a)) (inp (kst w))) (disk (kst w))"
  let ?i = "drop (unat (sg_len a)) (inp (kst w))" and ?out = "printed (sys_log w)"
  have "reaches disk inp (sg_main S opts_w (Some dev)) w 0 (?d, ?i, ?out)"
    by (rule main_reaches [OF assms(1,5) _ assms(3) write_session [OF assms(1,2,5) _ assms(4,11)]]) (simp_all add: look_def)
  then obtain w1 where w1: "sg_main S opts_w (Some dev) w = Inr (0, w1)" "look disk inp w1 = (?d, ?i, ?out)"
    by (auto simp: reaches_def look_def)
  have "reaches disk inp (sg_main S opts_r (Some dev)) w1 0 (?d, ?i, ?out @ disk_bytes ?d (unat (sg_offs b)) (unat (sg_len b)))"
    by (rule main_reaches [OF assms(1,8) w1(2) assms(6) read_session [OF assms(1,2,8) _ assms(7)]])
  then show ?thesis
    using w1(1) assms(11) unfolding assms(9,10) by (simp add: disk_bytes_store) (auto simp: reaches_def)
qed

section \<open>A concrete device\<close>

text \<open>Content and input; an incomplete command is accepted and does nothing.\<close>

definition demo_sg :: "((nat \<Rightarrow> u8) \<times> u8 list) sg_os" where
  "demo_sg = \<lparr>sg_open = (\<lambda>_ k. (3, k)), sg_blkssz = (\<lambda>k. ((0, 512), k)), sg_version_num = (\<lambda>k. ((0, 30536), k)),
     sg_io = (\<lambda>h mm k. case dxfer_direction h of
        From_Dev \<Rightarrow> ((0, no_error, write_all (fill (dxferp h)
          (disk_bytes (fst k) (cdb_lba (cmdp h) * 512) (iov_total (dxferp h)))) mm), k)
      | To_Dev \<Rightarrow> ((0, no_error, mm), (if complete 512 h then disk_store (cdb_lba (cmdp h) * 512) (gather mm (dxferp h)) (fst k) else fst k, snd k))),
     sg_stdin = (\<lambda>n k. (take n (snd k), (fst k, drop n (snd k)))), sense_addr = 0\<rparr>"

lemma demo_calls_work: "sg_calls_work demo_sg 512 fst snd"
  by (simp add: sg_calls_work_def demo_sg_def)

lemma demo_stores: "sg_stores demo_sg 512 fst snd"
  by (simp add: sg_stores_def demo_sg_def)

theorem discont_roundtrip_witness:
  "\<exists>w1 w2. sg_main demo_sg [Sg_w, Sg_s] (Some ''/dev/sg0'') \<lparr>kst = ((\<lambda>_. 0), replicate 600 7), sys_log = []\<rparr> = Inr (0, w1)
     \<and> sg_main demo_sg [] (Some ''/dev/sg0'') w1 = Inr (0, w2) \<and> printed (sys_log w2) = replicate 512 7"
proof -
  have o1: "sg_options [Sg_w, Sg_s] sg_defaults = Some (sg_defaults\<lparr>to_write := True, scattered := True\<rparr>)" by simp
  have o2: "sg_options [] sg_defaults = Some sg_defaults" by simp
  show ?thesis
    using discont_roundtrip [OF demo_calls_work demo_stores o1 _ _ o2, of "\<lparr>kst = ((\<lambda>_. 0), replicate 600 7), sys_log = []\<rparr>" "''/dev/sg0''"]
    by (auto simp: sg_fits_def sg_defaults_def)
qed

section \<open>Short input\<close>

text \<open>When the input ends between two segments, the next one gets the length 0 - 4 modulo \<open>2 ^ 64\<close>.\<close>

lemma input_short:
  assumes "sg_calls_work S bs disk inp"
  shows "\<forall>p \<in> set v. iov_len p = 4 \<and> in_buf sz (iov_base p) (iov_len p) \<Longrightarrow> n < length v \<Longrightarrow> length (inp (kst w)) = 4 * n \<Longrightarrow>
    n = 0 \<longrightarrow> g = 4 \<Longrightarrow> \<exists>mm' w'. sg_input S sz v g mm w = Inr ((v[n := (v ! n)\<lparr>iov_len := - 4\<rparr>], mm'), w')"
proof (induction v arbitrary: n w g mm)
  case (Cons p ps)
  have len: "iov_len p = 4" and inb: "in_buf sz (iov_base p) 4" using Cons.prems(1) by auto
  obtain k' where k': "sg_stdin S 4 (kst w) = (take 4 (inp (kst w)), k')" "inp k' = drop 4 (inp (kst w))"
    using assms unfolding sg_calls_work_def by blast
  show ?case
  proof (cases n)
    case 0
    then show ?thesis
      using Cons.prems(3,4) len inb k' by (auto simp: andthen_def syscall_def Let_def returns_run)
  next
    case (Suc m)
    define w' where "w' = w\<lparr>kst := k', sys_log := sys_log w @ [Sg_Input (take 4 (inp (kst w)))]\<rparr>"
    have "\<exists>mm' w''. sg_input S sz ps 4 (write_bytes (iov_base p, take 4 (inp (kst w))) mm) w'
        = Inr ((ps[m := (ps ! m)\<lparr>iov_len := - 4\<rparr>], mm'), w'')"
      using Cons.prems k'(2) Suc by (intro Cons.IH) (auto simp: w'_def)
    then show ?thesis
      using Cons.prems(3) Suc len inb k'(1) by (auto simp: andthen_def syscall_def Let_def returns_run w'_def [symmetric])
  qed
qed simp


text \<open>Runs that end with a value satisfying \<open>P\<close>.\<close>

definition ends :: "('k, 'a) sg_prog \<Rightarrow> ('k, sg_event) sys_world \<Rightarrow> ('a \<Rightarrow> ('k, sg_event) sys_world \<Rightarrow> bool) \<Rightarrow> bool" where
  "ends m w P \<longleftrightarrow> (\<exists>x w'. m w = Inr (x, w') \<and> P x w')"

lemma short_data_len:
  assumes "2 \<le> n" and "i < n"
  shows "data_len ((scatter n)[i := (scatter n ! i)\<lparr>iov_len := - 4\<rparr>]) = word_of_nat (4 * n - 8)"
proof -
  have "map iov_len ((scatter n)[i := (scatter n ! i)\<lparr>iov_len := - 4\<rparr>]) = (replicate n 4)[i := - 4]"
    by (simp add: map_update scatter_lens)
  moreover have "sum_list ((replicate n (4 :: u64))[i := - 4]) = word_of_nat n * 4 - 8"
    using assms(2) by (simp add: sum_list_set sum_list_replicate)
  moreover have "(word_of_nat (4 * n - 8) :: u64) = word_of_nat n * 4 - 8"
    using assms(1) by (simp add: of_nat_diff)
  ultimately show ?thesis by (simp only: data_len_sum)
qed

text \<open>The headers of the commands in a log, and replies whose sense length is not beyond the sense buffer.\<close>

definition commands :: "sg_event list \<Rightarrow> sg_hdr list" where
  "commands tr = concat (map (\<lambda>e. case e of Sg_Command h _ \<Rightarrow> [h] | _ \<Rightarrow> []) tr)"

lemma commands_simps [simp]:
  "commands [] = []" "commands (tr @ tr') = commands tr @ commands tr'" "commands (Sg_Input bs # tr) = commands tr"
  "commands (Sg_Opened d fd # tr) = commands tr" "commands (Sg_Block_Size r b # tr) = commands tr" "commands (Sg_Version r v # tr) = commands tr"
  "commands (Sg_Command h r # tr) = h # commands tr" "commands (Sg_Sense s # tr) = commands tr" "commands (Sg_Wrote n m # tr) = commands tr"
  "commands (Sg_Closed fd # tr) = commands tr"
  by (simp_all add: commands_def)

definition sense_fits :: "'k sg_os \<Rightarrow> bool" where
  "sense_fits S \<longleftrightarrow> (\<forall>h mm k ret r mm' k'. sg_io S h mm k = ((ret, r, mm'), k') \<longrightarrow> unat (sb_len_wr r) \<le> length (sense r))"

lemma submit_ends:
  assumes "sense_fits S"
  shows "ends (sg_submit S h v mm) w (\<lambda>_ w'. commands (sys_log w') = commands (sys_log w) @ [h])"
proof -
  obtain ret r mm' k' where io: "sg_io S h mm (kst w) = ((ret, r, mm'), k')" by (metis prod_cases3 prod.exhaust)
  have "\<not> length (sense r) < unat (sb_len_wr r)" using assms io unfolding sense_fits_def by (metis not_less)
  then show ?thesis
    by (auto simp: ends_def sg_submit_def dump_sense_def andthen_def syscall_def io returns_run emit_def)
qed

text \<open>A write sends one command when its length and address fit one, and none otherwise.\<close>

definition fits_command :: "u32 \<Rightarrow> u32 \<Rightarrow> nat \<Rightarrow> bool" where
  "fits_command bs lba n \<longleftrightarrow> lba \<le> MAX_READ_WRITE_6_LBA \<and> 0 < n \<and> n mod unat bs = 0 \<and> n div unat bs \<le> 255"

lemma write_ends:
  assumes "sg_calls_work S bs disk inp" and "sense_fits S" and "bs \<noteq> 0" and "unat (data_len v) = n"
  shows "ends (sg_write S bs lba v mm) w (\<lambda>_ w'. commands (sys_log w') = commands (sys_log w)
    @ (if fits_command bs lba n then [sg_header To_Dev 0x0a bs lba v] else []))"
proof -
  have checks: "data_len v = 0 \<longleftrightarrow> n = 0" "data_len v mod ucast bs = 0 \<longleftrightarrow> n mod unat bs = 0"
    "MAX_READ_WRITE_6_LENGTH < data_len v div ucast bs \<longleftrightarrow> 255 < n div unat bs"
  proof -
    show "data_len v = 0 \<longleftrightarrow> n = 0" using assms(4) by (simp add: unat_eq_0 [symmetric])
    show "data_len v mod ucast bs = 0 \<longleftrightarrow> n mod unat bs = 0"
      unfolding assms(4) [symmetric] word_unat_eq_iff by (simp add: unat_mod unat_wide)
    show "MAX_READ_WRITE_6_LENGTH < data_len v div ucast bs \<longleftrightarrow> 255 < n div unat bs"
      unfolding assms(4) [symmetric] by (simp add: word_less_nat_alt unat_div unat_wide MAX_READ_WRITE_6_LENGTH_def)
  qed
  show ?thesis
  proof (cases "fits_command bs lba n")
    case False
    then show ?thesis
      using assms(3) by (auto simp: ends_def sg_write_def checks fits_command_def returns_run not_le not_less)
  next
    case True
    let ?h = "sg_header To_Dev 0x0a bs lba v"
    obtain ver k where v: "sg_version_num S (kst w) = ((0, ver), k)" "30000 \<le> ver"
      using assms(1) unfolding sg_calls_work_def by blast
    define w1 where "w1 = w\<lparr>kst := k, sys_log := sys_log w @ [Sg_Version 0 ver]\<rparr>"
    have "ends (sg_submit S ?h v mm) w1 (\<lambda>_ w'. commands (sys_log w') = commands (sys_log w) @ [?h])"
      using submit_ends [OF assms(2), of ?h v mm w1] by (simp add: w1_def)
    moreover have "sg_write S bs lba v mm w = sg_submit S ?h v mm w1"
      using True assms(3) v(2) by (simp add: sg_write_def checks fits_command_def not_less leD andthen_def syscall_def v(1) w1_def)
    ultimately show ?thesis using True by (simp add: ends_def)
  qed
qed

lemma input_no_commands:
  assumes "sg_input S sz v g mm w = Inr (x, w')"
  shows "commands (sys_log w') = commands (sys_log w)"
proof -
  obtain tr where tr: "sys_log w' = sys_log w @ tr" "\<forall>e \<in> set tr. \<exists>bs. e = Sg_Input bs"
    by (rule logs_all_run [OF logs_input_only assms])
  have "commands tr = []" using tr(2) by (auto simp: commands_def)
  then show ?thesis by (simp add: tr(1))
qed

text \<open>The length of the options is no multiple of the block size any more when 8 has been taken off.\<close>

lemma block_multiple_short:
  assumes "unat (len :: u64) mod b = 0" and "512 \<le> b" and "n = unat len div 4" and "2 \<le> n"
  shows "(4 * n - 8) mod b \<noteq> 0"
proof
  assume m: "(4 * n - 8) mod b = 0"
  define d where "d = unat len mod 4 + 8"
  have "unat len = 4 * n + unat len mod 4" using assms(3) by simp
  then have d: "unat len = 4 * n - 8 + d" using assms(4) unfolding d_def by linarith
  have b: "0 < d" "d < b" using assms(2) unfolding d_def by linarith+
  have "d mod b = 0" using assms(1) m unfolding d by (simp add: mod_eq_0_iff_dvd dvd_add_right_iff)
  then show False using b by simp
qed

text \<open>
  C31. When the standard input of a scattered write ends between two segments, but not before the
  first, \<open>gcount () - prevgcount\<close> is negative. The program still ends with status 0, whatever the device
  answers to the command. It sends one command exactly when the length less 8 fits one, and then the
  scatter list of that command has a segment of \<open>2 ^ 64 - 4\<close> bytes; when the length of \<open>-l\<close> is a multiple
  of a block size of 512 or more it sends none, so nothing of the input is written.
\<close>

theorem discont_short_input:
  assumes "sg_calls_work S bs disk inp"
    and "\<forall>h mm k ret r mm' k'. sg_io S h mm k = ((ret, r, mm'), k') \<longrightarrow> unat (sb_len_wr r) \<le> length (sense r)"
    and "sg_options opts sg_defaults = Some a" and "to_write a" and "scattered a" and "small_args a"
    and "bs \<noteq> 0" and "n = unat (sg_len a) div 4" and "0 < i" and "i < n" and "length (inp (kst w)) = 4 * i" and "sys_log w = []"
  shows "\<exists>w' hs. sg_main S opts (Some dev) w = Inr (0, w') \<and> commands (sys_log w') = hs
    \<and> length hs = (if sg_offs a mod bs = 0 \<and> fits_command bs (sg_offs a div bs) (4 * n - 8) then 1 else 0)
    \<and> (\<forall>h \<in> set hs. unat (iov_len (dxferp h ! i)) = 2 ^ 64 - 4)
    \<and> (unat (sg_len a) mod unat bs = 0 \<and> 512 \<le> unat bs \<longrightarrow> hs = [])"
proof -
  let ?v = "(scatter n)[i := (scatter n ! i)\<lparr>iov_len := - 4\<rparr>]"
  let ?lba = "sg_offs a div bs" and ?fits = "sg_offs a mod bs = 0 \<and> fits_command bs (sg_offs a div bs) (4 * n - 8)"
  let ?h = "sg_header To_Dev 0x0a bs ?lba ?v"
  have sf: "sense_fits S" using assms(2) unfolding sense_fits_def .
  have lay: "sg_layout a = scatter n" using layout_scattered [OF assms(6,5)] assms(8) by simp
  have small: "4 * n < 2 ^ 30" using assms(6,8) by (simp add: small_args_def)
  have "unat (word_of_nat (4 * n - 8) :: u64) = 4 * n - 8" using small by (intro unat_of_nat_small) simp
  then have dl: "unat (data_len ?v) = 4 * n - 8" using short_data_len [of n i] assms(9,10) by simp
  have inb: "\<forall>p \<in> set (scatter n). iov_len p = 4 \<and> in_buf (sg_buf_size a) (iov_base p) (iov_len p)"
    using layout_in_buf [OF assms(6)] unfolding lay by (auto simp: scatter_def)
  have session: "ends (sg_session S a bs) w1 (\<lambda>_ w'. commands (sys_log w') = commands (sys_log w1)
      @ (if fits_command bs ?lba (4 * n - 8) then [?h] else []))" if w1: "inp (kst w1) = inp (kst w)" for w1
  proof -
    obtain mm' w2 where r: "sg_input S (sg_buf_size a) (scatter n) 0 (\<lambda>_. 0) w1 = Inr ((?v, mm'), w2)"
      using input_short [OF assms(1) inb] assms(9-11) w1 by fastforce
    obtain x mm2 w3 where wr: "sg_write S bs ?lba ?v mm' w2 = Inr ((x, mm2), w3)"
      "commands (sys_log w3) = commands (sys_log w1) @ (if fits_command bs ?lba (4 * n - 8) then [?h] else [])"
      using write_ends [OF assms(1) sf assms(7) dl, of ?lba mm' w2] input_no_commands [OF r] by (auto simp: ends_def)
    show ?thesis
      using assms(4) wr unfolding sg_session_def Let_def lay
      by (simp add: ends_def andthen_def r emit_def returns_run)
  qed
  obtain fd k1 where fd: "sg_open S dev (kst w) = (fd, k1)" "0 \<le> fd" "inp k1 = inp (kst w)"
    using assms(1) unfolding sg_calls_work_def by blast
  obtain k2 where bs: "sg_blkssz S k1 = ((0, bs), k2)" "inp k2 = inp k1" using assms(1) unfolding sg_calls_work_def by blast
  define w2 where "w2 = w\<lparr>kst := k2, sys_log := sys_log w @ [Sg_Opened dev fd, Sg_Block_Size 0 bs]\<rparr>"
  have "ends (sg_checked S a (0, bs)) w2 (\<lambda>_ w'. commands (sys_log w') = (if ?fits then [?h] else []))"
    using session [of w2] fd(3) bs(2) assms(7,12) by (auto simp: sg_checked_def w2_def ends_def returns_run)
  then obtain w3 where w3: "sg_checked S a (0, bs) w2 = Inr ((), w3)" "commands (sys_log w3) = (if ?fits then [?h] else [])"
    by (auto simp: ends_def)
  have main: "sg_main S opts (Some dev) w = Inr (0, w3\<lparr>sys_log := sys_log w3 @ [Sg_Closed fd]\<rparr>)"
    using fd bs assms(3) w3(1) by (simp add: sg_main_unfold andthen_def syscall_def emit_def returns_run w2_def)
  have entry: "unat (iov_len (dxferp ?h ! i)) = 2 ^ 64 - 4" using assms(10) by simp
  have none: "unat (sg_len a) mod unat bs = 0 \<and> 512 \<le> unat bs \<longrightarrow> \<not> ?fits"
    using block_multiple_short [OF _ _ assms(8)] assms(9,10) by (auto simp: fits_command_def)
  show ?thesis
    using main w3(2) entry none by (intro exI [of _ "w3\<lparr>sys_log := sys_log w3 @ [Sg_Closed fd]\<rparr>"] exI [of _ "if ?fits then [?h] else []"]) auto
qed

text \<open>A device that refuses every command, as the kernel refuses such a segment.\<close>

definition refusing_sg :: "((nat \<Rightarrow> u8) \<times> u8 list) sg_os" where
  "refusing_sg = demo_sg\<lparr>sg_io := (\<lambda>h mm k. ((- 1, no_error, mm), k))\<rparr>"

lemma refusing_calls_work: "sg_calls_work refusing_sg 512 fst snd"
  using demo_calls_work by (simp add: sg_calls_work_def refusing_sg_def)

theorem discont_short_input_witness:
  "\<exists>w' h. sg_main refusing_sg [Sg_w, Sg_s, Sg_l ''520''] (Some ''/dev/sg0'') \<lparr>kst = ((\<lambda>_. 0), replicate 512 7), sys_log = []\<rparr> = Inr (0, w')
    \<and> commands (sys_log w') = [h] \<and> unat (iov_len (dxferp h ! 128)) = 2 ^ 64 - 4"
proof -
  let ?a = "sg_defaults\<lparr>to_write := True, scattered := True, sg_len := 520\<rparr>"
  have "dropWhile is_space ''520'' = ''520'' \<and> strip_sign ''520'' = (False, ''520'') \<and> magnitude 0 ''520'' = 520" by code_simp
  then have num: "strtoul 0 ''520'' = 520" by (simp add: strtoul_def)
  have o1: "sg_options [Sg_w, Sg_s, Sg_l ''520''] sg_defaults = Some ?a" by (simp add: num)
  have replies: "\<forall>h mm k ret r mm' k'. sg_io refusing_sg h mm k = ((ret, r, mm'), k') \<longrightarrow> unat (sb_len_wr r) \<le> length (sense r)"
    by (simp add: refusing_sg_def no_error_def)
  have fits: "sg_offs ?a mod (512 :: u32) = 0 \<and> fits_command 512 (sg_offs ?a div 512) (4 * 130 - 8)"
    by (simp add: fits_command_def sg_defaults_def)
  obtain w' hs where "sg_main refusing_sg [Sg_w, Sg_s, Sg_l ''520''] (Some ''/dev/sg0'') \<lparr>kst = ((\<lambda>_. 0), replicate 512 7), sys_log = []\<rparr> = Inr (0, w')"
    "commands (sys_log w') = hs" "length hs = (if sg_offs ?a mod 512 = 0 \<and> fits_command 512 (sg_offs ?a div 512) (4 * 130 - 8) then 1 else 0)"
    "\<forall>h \<in> set hs. unat (iov_len (dxferp h ! 128)) = 2 ^ 64 - 4"
    using discont_short_input [OF refusing_calls_work replies o1, of 130 128 "\<lparr>kst = ((\<lambda>_. 0), replicate 512 7), sys_log = []\<rparr>" "''/dev/sg0''"]
    by (auto simp: sg_defaults_def small_args_def)
  then show ?thesis using fits by (auto simp: length_Suc_conv)
qed

text \<open>\<open>iovec_count\<close> has 16 bits: a list of \<open>2 ^ 16\<close> segments is passed to the kernel as none at all.\<close>

lemma iovec_count_wraps: "length v = 2 ^ 16 \<Longrightarrow> iovec_count (sg_header dir opc bs lba v) = 0"
  by (simp add: sg_header_def)

end
