(* ===== verification/Nvme_Meta.thy ===== *)
theory Nvme_Meta
  imports Sys_Prog C_Struct
begin

text \<open>
  \<open>nvme-passthrough-meta.c\<close>: NVMe pass-through commands with user metadata. The driver is a
  parameter; a pointer in a command names the object it points to.
\<close>

section \<open>Commands\<close>

text \<open>The 8192 bytes of the writable and of the read-only mapping, with an offset into them.\<close>

datatype nv_ptr = Nv_Null | Nv_Ns | Nv_Buffer | Nv_Rw int | Nv_Ro int

record nvme_passthru_cmd =
  opcode :: u8
  flags :: u8
  rsvd1 :: u16
  nsid :: u32
  cdw2 :: u32
  cdw3 :: u32
  metadata :: nv_ptr
  addr :: nv_ptr
  metadata_len :: u32
  cmd_data_len :: u32
  cdw10 :: u32
  cdw11 :: u32
  cdw12 :: u32
  cdw13 :: u32
  cdw14 :: u32
  cdw15 :: u32
  timeout_ms :: u32
  cmd_result :: u32

definition zero_cmd :: nvme_passthru_cmd where
  "zero_cmd = \<lparr>opcode = 0, flags = 0, rsvd1 = 0, nsid = 0, cdw2 = 0, cdw3 = 0, metadata = Nv_Null, addr = Nv_Null, metadata_len = 0,
     cmd_data_len = 0, cdw10 = 0, cdw11 = 0, cdw12 = 0, cdw13 = 0, cdw14 = 0, cdw15 = 0, timeout_ms = 0, cmd_result = 0\<rparr>"

record nvme_lbaf =
  ms :: u16
  ds :: u8
  rp :: u8

text \<open>The identify data of a name space as it lies in memory, and what the program reads of it.\<close>

definition nvme_lbaf_struct :: "c_field list" where
  "nvme_lbaf_struct = [scalar ''ms'' 2, scalar ''ds'' 1, scalar ''rp'' 1]"

definition nvme_id_ns_struct :: "c_field list" where
  "nvme_id_ns_struct =
     [scalar ''nsze'' 8, scalar ''ncap'' 8, scalar ''nuse'' 8, scalar ''nsfeat'' 1, scalar ''nlbaf'' 1, scalar ''flbas'' 1,
      scalar ''mc'' 1, scalar ''dpc'' 1, scalar ''dps'' 1, scalar ''nmic'' 1, scalar ''rescap'' 1, scalar ''fpi'' 1,
      scalar ''dlfeat'' 1, scalar ''nawun'' 2, scalar ''nawupf'' 2, scalar ''nacwu'' 2, scalar ''nabsn'' 2, scalar ''nabo'' 2,
      scalar ''nabspf'' 2, scalar ''noiob'' 2, bytes ''nvmcap'' 16, scalar ''npwg'' 2, scalar ''npwa'' 2, scalar ''npdg'' 2,
      scalar ''npda'' 2, scalar ''nows'' 2, bytes ''rsvd74'' 18, scalar ''anagrpid'' 4, bytes ''rsvd96'' 3,
      scalar ''nsattr'' 1, scalar ''nvmsetid'' 2, scalar ''endgid'' 2, bytes ''nguid'' 16, bytes ''eui64'' 8,
      (''lbaf'', alignment nvme_lbaf_struct, sizeof nvme_lbaf_struct, 64), bytes ''vs'' 3712]"

record nvme_id_ns =
  flbas :: u8
  lbaf :: "nat \<Rightarrow> nvme_lbaf"

definition decode_lbaf :: "u8 list \<Rightarrow> nvme_lbaf" where
  "decode_lbaf bs = \<lparr>ms = word_of_nat (le_value (take 2 bs)), ds = bs ! 2, rp = bs ! 3\<rparr>"

definition decode_id_ns :: "u8 list \<Rightarrow> nvme_id_ns" where
  "decode_id_ns bs =
     \<lparr>flbas = bs ! the (offsetof nvme_id_ns_struct ''flbas''),
      lbaf = (\<lambda>i. decode_lbaf (drop (the (offsetof nvme_id_ns_struct ''lbaf'') + i * sizeof nvme_lbaf_struct) bs))\<rparr>"

text \<open>The places the NVMe specification gives to these fields, and its 4096 bytes.\<close>

lemma id_ns_layout:
  "sizeof nvme_id_ns_struct = 4096" "offsetof nvme_id_ns_struct ''flbas'' = Some 26" "offsetof nvme_id_ns_struct ''lbaf'' = Some 128"
  "sizeof nvme_lbaf_struct = 4" "offsetof nvme_lbaf_struct ''ds'' = Some 2" "offsetof nvme_lbaf_struct ''rp'' = Some 3"
  by (simp_all add: nvme_id_ns_struct_def nvme_lbaf_struct_def layout_simps flip: numeral_2_eq_2)

section \<open>System\<close>

text \<open>
  A call that fails comes with the value of \<open>errno\<close>. \<open>nv_identify\<close> gives the bytes that are in \<open>ns\<close>
  afterwards, which is on the stack and not initialised.
\<close>

record 'k nv_os =
  nv_open :: "string \<Rightarrow> 'k \<Rightarrow> int \<times> 'k"
  nv_ns_id :: "'k \<Rightarrow> (int \<times> int) \<times> 'k"
  nv_identify :: "nvme_passthru_cmd \<Rightarrow> 'k \<Rightarrow> ((int \<times> int) \<times> u8 list) \<times> 'k"
  nv_malloc :: "'k \<Rightarrow> bool \<times> 'k"
  nv_mmap :: "bool \<Rightarrow> 'k \<Rightarrow> (bool \<times> int) \<times> 'k"
  nv_io_cmd :: "nvme_passthru_cmd \<Rightarrow> 'k \<Rightarrow> (int \<times> int) \<times> 'k"

datatype nv_event =
    Nv_Opened int
  | Nv_Id int
  | Nv_Identify nvme_passthru_cmd int "u8 list"
  | Nv_Malloc bool
  | Nv_Mapped bool bool
  | Nv_Io nvme_passthru_cmd int

type_synonym ('k, 'a) nv_prog = "('k, nv_event, 'a) sys_prog"

section \<open>Main program\<close>

definition BUFFER_SIZE :: u64 where "BUFFER_SIZE = 32768"

definition the_lbaf :: "nvme_id_ns \<Rightarrow> nvme_lbaf" where
  "the_lbaf ns = lbaf ns (unat (flbas ns AND 0xf))"

text \<open>\<open>1 << ds\<close> is an \<open>int\<close>: a shift by 31 or more is undefined.\<close>

definition blocks_of :: "nvme_lbaf \<Rightarrow> s32" where
  "blocks_of f = ucast (BUFFER_SIZE div push_bit (unat (ds f)) 1)"

definition meta_buffer_size :: "nvme_lbaf \<Rightarrow> s32" where
  "meta_buffer_size f = blocks_of f * ucast (ms f)"

definition identify_cmd :: "int \<Rightarrow> nvme_passthru_cmd" where
  "identify_cmd ns = zero_cmd\<lparr>opcode := 0x6, nsid := word_of_int ns, addr := Nv_Ns, cmd_data_len := word_of_nat (sizeof nvme_id_ns_struct)\<rparr>"

definition write_cmd :: "int \<Rightarrow> bool \<Rightarrow> nvme_lbaf \<Rightarrow> nvme_passthru_cmd" where
  "write_cmd ns have_buffer f = zero_cmd\<lparr>opcode := 1, nsid := word_of_int ns, addr := (if have_buffer then Nv_Buffer else Nv_Null),
     metadata := Nv_Rw 0, cmd_data_len := ucast BUFFER_SIZE, metadata_len := meta_buffer_size f, cdw12 := blocks_of f - 1\<rparr>"

text \<open>One command; on failure the program returns \<open>ret\<close> or \<open>errno\<close>.\<close>

definition nv_try :: "'k nv_os \<Rightarrow> nvme_passthru_cmd \<Rightarrow> (int \<Rightarrow> int \<Rightarrow> int) \<Rightarrow> ('k, int) nv_prog \<Rightarrow> ('k, int) nv_prog" where
  "nv_try S c status rest =
     andthen (syscall (nv_io_cmd S c) (\<lambda>p. Nv_Io c (fst p))) (\<lambda>p. if fst p < 0 then returns (status (fst p) (snd p)) else rest)"

definition nv_map :: "'k nv_os \<Rightarrow> bool \<Rightarrow> ('k, int) nv_prog \<Rightarrow> ('k, int) nv_prog" where
  "nv_map S writable rest =
     andthen (syscall (nv_mmap S writable) (\<lambda>p. Nv_Mapped writable (fst p))) (\<lambda>p. if \<not> fst p then returns (snd p) else rest)"

definition nv_transfers :: "'k nv_os \<Rightarrow> nvme_passthru_cmd \<Rightarrow> ('k, int) nv_prog" where
  "nv_transfers S c =
     nv_try S c (\<lambda>ret e. ret) (
     nv_try S (c\<lparr>opcode := 2\<rparr>) (\<lambda>ret e. ret) (
     nv_try S (c\<lparr>opcode := 1, metadata := Nv_Rw (4096 - 16)\<rparr>) (\<lambda>ret e. e) (
     nv_try S (c\<lparr>opcode := 2, metadata := Nv_Rw (4096 - 16)\<rparr>) (\<lambda>ret e. e) (
     nv_map S False (
     nv_try S (c\<lparr>opcode := 1, metadata := Nv_Ro 0\<rparr>) (\<lambda>ret e. ret) (
     andthen (syscall (nv_io_cmd S (c\<lparr>opcode := 2, metadata := Nv_Ro 0\<rparr>)) (\<lambda>p. Nv_Io (c\<lparr>opcode := 2, metadata := Nv_Ro 0\<rparr>) (fst p)))
       (\<lambda>p. if fst p = 0 then returns EFAULT else returns 0)))))))"

definition nv_test :: "'k nv_os \<Rightarrow> int \<Rightarrow> nvme_id_ns \<Rightarrow> ('k, int) nv_prog" where
  "nv_test S ns idns =
     (let f = the_lbaf idns in
      if 31 \<le> unat (ds f) then halt (Fault Bad_Shift)
      else if ms f = 0 then returns (- EINVAL)
      else andthen (syscall (nv_malloc S) Nv_Malloc) (\<lambda>ok. nv_map S True (nv_transfers S (write_cmd ns ok f))))"

definition nv_main :: "'k nv_os \<Rightarrow> string list \<Rightarrow> ('k, int) nv_prog" where
  "nv_main S argv =
     (if length argv < 2 then returns EINVAL else
      andthen (syscall (nv_open S (argv ! 1)) Nv_Opened) (\<lambda>fd. if fd < 0 then returns fd else
      andthen (syscall (nv_ns_id S) (\<lambda>p. Nv_Id (fst p))) (\<lambda>(ns, e). if ns < 0 then returns e else
      andthen (syscall (nv_identify S (identify_cmd ns)) (\<lambda>p. Nv_Identify (identify_cmd ns) (fst (fst p)) (snd p))) (\<lambda>((ret, e), bs).
      if ret < 0 then returns e else nv_test S ns (decode_id_ns bs)))))"

section \<open>Geometry\<close>

definition in_map :: "nvme_passthru_cmd \<Rightarrow> bool" where
  "in_map c \<longleftrightarrow> (case metadata c of Nv_Rw off \<Rightarrow> 0 \<le> off \<and> off + int (unat (metadata_len c)) \<le> 8192
     | Nv_Ro off \<Rightarrow> 0 \<le> off \<and> off + int (unat (metadata_len c)) \<le> 8192 | _ \<Rightarrow> False)"

text \<open>The blocks of a command transfer as many bytes as the data buffer has, and as much metadata as is announced.\<close>

definition consistent :: "nvme_lbaf \<Rightarrow> nvme_passthru_cmd \<Rightarrow> bool" where
  "consistent f c \<longleftrightarrow> (unat (cdw12 c) + 1) * 2 ^ unat (ds f) = unat (cmd_data_len c)
     \<and> (unat (cdw12 c) + 1) * unat (ms f) = unat (metadata_len c) \<and> flags c = 0 \<and> cdw10 c = 0 \<and> cdw11 c = 0"

lemma blocks_value:
  assumes "unat (ds f) \<le> 15"
  shows "unat (blocks_of f) = 2 ^ (15 - unat (ds f))"
proof -
  let ?d = "unat (ds f)"
  have "unat (push_bit ?d 1 :: u64) = 2 ^ ?d"
  proof -
    have "(2 :: nat) ^ ?d < 2 ^ LENGTH(64)" using assms by (intro power_strict_increasing) simp_all
    then have "unat (word_of_nat (2 ^ ?d) :: u64) = 2 ^ ?d" by (rule unat_of_nat_small)
    then show ?thesis by (simp add: push_bit_of_1)
  qed
  moreover have "(32768 :: nat) = 2 ^ (15 - ?d) * 2 ^ ?d" using assms by (simp flip: power_add)
  then have "(32768 :: nat) div 2 ^ ?d = 2 ^ (15 - ?d)" by (metis nonzero_mult_div_cancel_right power_not_zero zero_neq_numeral)
  ultimately have q: "unat (BUFFER_SIZE div push_bit ?d 1 :: u64) = 2 ^ (15 - ?d)" by (simp add: unat_div BUFFER_SIZE_def)
  have "(2 :: nat) ^ (15 - ?d) \<le> 2 ^ 15" by (rule power_increasing) simp_all
  then have "(2 :: nat) ^ (15 - ?d) < 2 ^ LENGTH(32)" by simp
  then show ?thesis unfolding blocks_of_def unsigned_ucast_eq q by (simp add: take_bit_nat_eq_self)
qed

lemma meta_size_value:
  assumes "unat (ds f) \<le> 15"
  shows "unat (meta_buffer_size f) = 2 ^ (15 - unat (ds f)) * unat (ms f)"
proof -
  have m: "unat (ucast (ms f) :: s32) = unat (ms f)"
  proof -
    have "unat (ms f) < 2 ^ 16" using unsigned_less [of "ms f", where 'a = nat] by simp
    then show ?thesis by (simp add: unsigned_ucast_eq take_bit_nat_eq_self)
  qed
  have "(2 :: nat) ^ (15 - unat (ds f)) \<le> 2 ^ 15" by (rule power_increasing) simp_all
  moreover have "unat (ms f) \<le> 65535" using unsigned_less [of "ms f", where 'a = nat] by simp
  ultimately have "2 ^ (15 - unat (ds f)) * unat (ms f) \<le> 2 ^ 15 * 65535" by (rule mult_le_mono)
  then have "2 ^ (15 - unat (ds f)) * unat (ms f) < 2 ^ LENGTH(32)" by simp
  then show ?thesis
    unfolding meta_buffer_size_def by (simp add: unat_word_ariths blocks_value [OF assms] m)
qed


section \<open>A successful run\<close>

text \<open>\<open>errno\<close> is not 0 after a call that failed.\<close>

definition errno_set :: "'k nv_os \<Rightarrow> bool" where
  "errno_set S \<longleftrightarrow> (\<forall>k ns e k'. nv_ns_id S k = ((ns, e), k') \<longrightarrow> ns < 0 \<longrightarrow> e \<noteq> 0)
     \<and> (\<forall>c k ret e d k'. nv_identify S c k = (((ret, e), d), k') \<longrightarrow> ret < 0 \<longrightarrow> e \<noteq> 0)
     \<and> (\<forall>b k e k'. nv_mmap S b k = ((False, e), k') \<longrightarrow> e \<noteq> 0)
     \<and> (\<forall>c k ret e k'. nv_io_cmd S c k = ((ret, e), k') \<longrightarrow> ret < 0 \<longrightarrow> e \<noteq> 0)"

definition io_commands :: "nv_event list \<Rightarrow> (nvme_passthru_cmd \<times> int) list" where
  "io_commands tr = concat (map (\<lambda>e. case e of Nv_Io c r \<Rightarrow> [(c, r)] | _ \<Rightarrow> []) tr)"

lemma io_commands_simps [simp]:
  "io_commands [] = []" "io_commands (Nv_Io c r # tr) = (c, r) # io_commands tr" "io_commands (Nv_Mapped b ok # tr) = io_commands tr"
  "io_commands (Nv_Malloc b # tr) = io_commands tr" "io_commands (Nv_Opened fd # tr) = io_commands tr"
  "io_commands (Nv_Id n # tr) = io_commands tr" "io_commands (Nv_Identify c r d # tr) = io_commands tr"
  "io_commands (tr @ tr') = io_commands tr @ io_commands tr'"
  by (simp_all add: io_commands_def)

text \<open>The six commands in their order.\<close>

definition six :: "nvme_passthru_cmd \<Rightarrow> nvme_passthru_cmd list" where
  "six c = [c, c\<lparr>opcode := 2\<rparr>, c\<lparr>opcode := 1, metadata := Nv_Rw 4080\<rparr>, c\<lparr>opcode := 2, metadata := Nv_Rw 4080\<rparr>,
     c\<lparr>opcode := 1, metadata := Nv_Ro 0\<rparr>, c\<lparr>opcode := 2, metadata := Nv_Ro 0\<rparr>]"

definition passed :: "nvme_passthru_cmd \<Rightarrow> (nvme_passthru_cmd \<times> int) list \<Rightarrow> bool" where
  "passed c ios \<longleftrightarrow> map fst ios = six c \<and> (\<forall>r \<in> set (map snd (take 5 ios)). 0 \<le> r) \<and> snd (ios ! 5) \<noteq> 0"

text \<open>A program that returns 0 has logged events with \<open>P\<close>; the errors on the way give other values.\<close>

definition succeeds :: "('k, int) nv_prog \<Rightarrow> (nv_event list \<Rightarrow> bool) \<Rightarrow> bool" where
  "succeeds m P \<longleftrightarrow> (\<forall>w w'. m w = Inr (0, w') \<longrightarrow> (\<exists>tr. sys_log w' = sys_log w @ tr \<and> P tr))"

lemma succeeds_call:
  assumes "\<And>x k k'. g k = (x, k') \<Longrightarrow> succeeds (f x) (\<lambda>tr. P (ev x # tr))"
  shows "succeeds (andthen (syscall g ev) f) P"
  unfolding succeeds_def
proof (intro allI impI)
  fix w w'
  assume run: "andthen (syscall g ev) f w = Inr (0, w')"
  obtain x k' where g: "g (kst w) = (x, k')" by (cases "g (kst w)") simp
  have "f x (w\<lparr>kst := k', sys_log := sys_log w @ [ev x]\<rparr>) = Inr (0, w')" using run by (simp add: andthen_def syscall_def g)
  then obtain tr where "sys_log w' = sys_log (w\<lparr>kst := k', sys_log := sys_log w @ [ev x]\<rparr>) @ tr" "P (ev x # tr)"
    using assms [OF g] unfolding succeeds_def by blast
  then show "\<exists>tr. sys_log w' = sys_log w @ tr \<and> P tr" by simp
qed

lemma succeeds_returns: "(r = 0 \<Longrightarrow> P []) \<Longrightarrow> succeeds (returns r) P"
  by (simp add: succeeds_def returns_run)

lemma succeeds_halt: "succeeds (halt s) P"
  by (simp add: succeeds_def halt_run)

lemma succeeds_if: "(c \<Longrightarrow> succeeds m P) \<Longrightarrow> (\<not> c \<Longrightarrow> succeeds m' P) \<Longrightarrow> succeeds (if c then m else m') P"
  by simp

lemma succeeds_try:
  assumes "errno_set S" and "\<And>ret e. ret < 0 \<Longrightarrow> e \<noteq> 0 \<Longrightarrow> status ret e \<noteq> 0"
    and "\<And>r. 0 \<le> r \<Longrightarrow> succeeds rest (\<lambda>tr. P (Nv_Io c r # tr))"
  shows "succeeds (nv_try S c status rest) P"
  unfolding nv_try_def
proof (intro succeeds_call succeeds_if succeeds_returns)
  fix x k k'
  assume call: "nv_io_cmd S c k = (x, k')"
  show "succeeds rest (\<lambda>tr. P (Nv_Io c (fst x) # tr))" if "\<not> fst x < 0" using assms(3) that by simp
  assume neg: "fst x < 0" and zero: "status (fst x) (snd x) = 0"
  have "snd x \<noteq> 0" using assms(1) call neg unfolding errno_set_def by (metis prod.collapse)
  then show "P [Nv_Io c (fst x)]" using assms(2) neg zero by blast
qed

lemma succeeds_map:
  assumes "errno_set S" and "succeeds rest (\<lambda>tr. P (Nv_Mapped b True # tr))"
  shows "succeeds (nv_map S b rest) P"
  unfolding nv_map_def
proof (intro succeeds_call succeeds_if succeeds_returns)
  fix x k k'
  assume call: "nv_mmap S b k = (x, k')"
  show "succeeds rest (\<lambda>tr. P (Nv_Mapped b (fst x) # tr))" if "\<not> \<not> fst x" using assms(2) that by simp
  assume "\<not> fst x" and "snd x = 0"
  then show "P [Nv_Mapped b (fst x)]" using assms(1) call unfolding errno_set_def by (metis (full_types) prod.collapse)
qed

lemma succeeds_transfers: "errno_set S \<Longrightarrow> succeeds (nv_transfers S c) (\<lambda>tr. passed c (io_commands tr))"
  unfolding nv_transfers_def
  by (intro succeeds_try succeeds_map succeeds_call succeeds_if succeeds_returns)
    (auto simp: passed_def six_def EFAULT_def)

lemma six_fields:
  "d \<in> set (six (write_cmd ns ok f)) \<Longrightarrow> metadata_len d = meta_buffer_size f \<and> cdw12 d = blocks_of f - 1 \<and> cmd_data_len d = 32768
     \<and> flags d = 0 \<and> cdw10 d = 0 \<and> cdw11 d = 0"
  by (auto simp: six_def write_cmd_def zero_cmd_def BUFFER_SIZE_def)

lemma six_consistent:
  assumes "unat (ds f) \<le> 15" and "d \<in> set (six (write_cmd ns ok f))"
  shows "consistent f d"
proof -
  have "unat (blocks_of f - 1) = unat (blocks_of f) - 1" by (rule unat_minus_1) (simp add: blocks_value [OF assms(1)])
  then have n: "unat (cdw12 d) + 1 = 2 ^ (15 - unat (ds f))" using six_fields [OF assms(2)] blocks_value [OF assms(1)] by simp
  have "(2 :: nat) ^ (15 - unat (ds f)) * 2 ^ unat (ds f) = 2 ^ 15" using assms(1) by (simp flip: power_add)
  then show ?thesis
    using six_fields [OF assms(2)] unfolding consistent_def n by (simp add: meta_size_value [OF assms(1)])
qed

lemma six_in_map: "(\<forall>d \<in> set (six (write_cmd ns ok f)). in_map d) \<longleftrightarrow> unat (meta_buffer_size f) \<le> 4112"
proof -
  have "int (unat (meta_buffer_size f)) \<le> 4112 \<longleftrightarrow> unat (meta_buffer_size f) \<le> 4112" by linarith
  then show ?thesis by (auto simp: six_def write_cmd_def zero_cmd_def in_map_def)
qed

text \<open>
  C32. A run that ends with status 0 has sent the six commands in their order, write before read, at
  both offsets of the writable mapping and then on the read-only one; the first five did not fail
  and the last did not succeed. For block sizes up to the buffer size each command announces the
  data and metadata its blocks have, and all metadata lies in the mappings exactly when a transfer
  has at most 4112 bytes of it.
\<close>

theorem nvme_meta_pass:
  assumes "errno_set S" and "nv_main S argv w = Inr (0, w')" and "sys_log w = []"
  shows "\<exists>ns ok ret bs idns. Nv_Identify (identify_cmd ns) ret bs \<in> set (sys_log w') \<and> idns = decode_id_ns bs
     \<and> unat (cmd_data_len (identify_cmd ns)) = 4096 \<and> passed (write_cmd ns ok (the_lbaf idns)) (io_commands (sys_log w')) \<and> ms (the_lbaf idns) \<noteq> 0
     \<and> (unat (ds (the_lbaf idns)) \<le> 15 \<longrightarrow> (\<forall>(d, r) \<in> set (io_commands (sys_log w')). consistent (the_lbaf idns) d))
     \<and> ((\<forall>(d, r) \<in> set (io_commands (sys_log w')). in_map d) \<longleftrightarrow> unat (meta_buffer_size (the_lbaf idns)) \<le> 4112)"
proof -
  let ?P = "\<lambda>ns ok f tr. passed (write_cmd ns ok f) (io_commands tr) \<and> ms f \<noteq> 0"
  have test: "succeeds (nv_test S ns idns) (\<lambda>tr. \<exists>ok. ?P ns ok (the_lbaf idns) tr)" for ns idns
  proof -
    have "succeeds (nv_transfers S (write_cmd ns ok (the_lbaf idns)))
        (\<lambda>tr. \<exists>ok'. ?P ns ok' (the_lbaf idns) (Nv_Malloc ok # Nv_Mapped True True # tr))" if "ms (the_lbaf idns) \<noteq> 0" for ok
      using succeeds_transfers [OF assms(1), of "write_cmd ns ok (the_lbaf idns)"] that unfolding succeeds_def by fastforce
    then show ?thesis
      unfolding nv_test_def Let_def
      by (intro succeeds_if succeeds_halt succeeds_returns succeeds_call succeeds_map assms(1)) (simp_all add: EINVAL_def)
  qed
  have "succeeds (nv_main S argv) (\<lambda>tr. \<exists>ns ok ret bs. Nv_Identify (identify_cmd ns) ret bs \<in> set tr \<and> ?P ns ok (the_lbaf (decode_id_ns bs)) tr)"
    (is "succeeds _ ?Q")
  proof -
    have last_step: "succeeds ((\<lambda>((ret, e), bs). if ret < 0 then returns e else nv_test S ns (decode_id_ns bs)) p)
        (\<lambda>tr. ?Q (Nv_Opened fd # Nv_Id ns # Nv_Identify (identify_cmd ns) (fst (fst p)) (snd p) # tr))"
      if "nv_identify S (identify_cmd ns) k = (p, k')" for p ns fd k k'
    proof -
      obtain ret e bs where p: "p = ((ret, e), bs)" by (metis prod.exhaust)
      have "succeeds (nv_test S ns (decode_id_ns bs)) (\<lambda>tr. ?Q (Nv_Opened fd # Nv_Id ns # Nv_Identify (identify_cmd ns) ret bs # tr))"
        using test [of ns "decode_id_ns bs"] unfolding succeeds_def by fastforce
      moreover have "e \<noteq> 0" if "ret < 0"
        using assms(1) \<open>nv_identify S (identify_cmd ns) k = (p, k')\<close> that unfolding errno_set_def p by blast
      ultimately show ?thesis unfolding p by (auto intro: succeeds_returns)
    qed
    have "succeeds (case p of (ns, e) \<Rightarrow> if ns < 0 then returns e else
          andthen (syscall (nv_identify S (identify_cmd ns)) (\<lambda>p. Nv_Identify (identify_cmd ns) (fst (fst p)) (snd p)))
            (\<lambda>((ret, e), bs). if ret < 0 then returns e else nv_test S ns (decode_id_ns bs)))
        (\<lambda>tr. ?Q (Nv_Opened fd # Nv_Id (fst p) # tr))" if "nv_ns_id S k = (p, k')" for p fd k k'
    proof -
      obtain ns e where p: "p = (ns, e)" by (metis prod.exhaust)
      have e0: "e \<noteq> 0" if "ns < 0" using assms(1) \<open>nv_ns_id S k = (p, k')\<close> that unfolding errno_set_def p by blast
      show ?thesis unfolding p prod.case fst_conv
      proof (rule succeeds_if)
        assume "ns < 0"
        from e0 [OF this] show "succeeds (returns e) (\<lambda>tr. ?Q (Nv_Opened fd # Nv_Id ns # tr))" by (simp add: succeeds_def returns_run)
      qed (rule succeeds_call, rule last_step)
    qed
    then show ?thesis
      unfolding nv_main_def by (intro succeeds_if succeeds_call succeeds_returns) (simp_all add: EINVAL_def)
  qed
  then obtain ns ok ret bs where nb: "Nv_Identify (identify_cmd ns) ret bs \<in> set (sys_log w')" "?P ns ok (the_lbaf (decode_id_ns bs)) (sys_log w')"
    using assms(2,3) unfolding succeeds_def by fastforce
  define idns where "idns = decode_id_ns bs"
  have *: "?P ns ok (the_lbaf idns) (sys_log w')" using nb(2) by (simp add: idns_def)
  have set6: "fst ` set (io_commands (sys_log w')) = set (six (write_cmd ns ok (the_lbaf idns)))"
    using * unfolding passed_def by (metis set_map)
  have "(\<forall>(d, r) \<in> set (io_commands (sys_log w')). in_map d) \<longleftrightarrow> unat (meta_buffer_size (the_lbaf idns)) \<le> 4112"
    unfolding six_in_map [of ns ok, symmetric] set6 [symmetric] by auto
  moreover have "unat (ds (the_lbaf idns)) \<le> 15 \<longrightarrow> (\<forall>(d, r) \<in> set (io_commands (sys_log w')). consistent (the_lbaf idns) d)"
    using six_consistent [of "the_lbaf idns" _ ns ok] unfolding set6 [symmetric] by fastforce
  moreover have "unat (cmd_data_len (identify_cmd ns)) = 4096" by (simp add: identify_cmd_def zero_cmd_def id_ns_layout)
  ultimately show ?thesis using nb(1) * idns_def by blast
qed

text \<open>The first 136 bytes of an identify structure: the second format is in use, with 512-byte blocks and 8 bytes of metadata.\<close>

definition demo_id_ns :: "u8 list" where
  "demo_id_ns = replicate 26 0 @ [1] @ replicate 101 0 @ [0, 0, 9, 0, 8, 0, 9, 0] @ replicate 3960 0"

lemma demo_id_ns_lbaf: "the_lbaf (decode_id_ns demo_id_ns) = \<lparr>ms = 8, ds = 9, rp = 0\<rparr>"
proof -
  have f: "flbas (decode_id_ns demo_id_ns) = 1" by (simp add: decode_id_ns_def id_ns_layout demo_id_ns_def nth_append)
  have "drop 132 demo_id_ns = [8, 0, 9, 0] @ replicate 3960 0" by (simp add: demo_id_ns_def)
  then have "lbaf (decode_id_ns demo_id_ns) 1 = \<lparr>ms = 8, ds = 9, rp = 0\<rparr>" by (simp add: decode_id_ns_def id_ns_layout decode_lbaf_def)
  moreover have "(1 :: u8) AND 0xf = 1" by simp
  ultimately show ?thesis by (simp add: the_lbaf_def f)
qed

definition demo_nvme :: "unit nv_os" where
  "demo_nvme = \<lparr>nv_open = (\<lambda>_ k. (3, k)), nv_ns_id = (\<lambda>k. ((1, 0), k)),
     nv_identify = (\<lambda>_ k. (((0, 0), demo_id_ns), k)),
     nv_malloc = (\<lambda>k. (True, k)), nv_mmap = (\<lambda>_ k. ((True, 0), k)),
     nv_io_cmd = (\<lambda>c k. (if metadata c = Nv_Ro 0 \<and> opcode c = 2 then (- 1, EFAULT) else (0, 0), k))\<rparr>"

theorem nvme_meta_pass_witness:
  "\<exists>w' f ns ok. nv_main demo_nvme [''nvme-passthrough-meta'', ''/dev/ng0n1''] \<lparr>kst = (), sys_log = []\<rparr> = Inr (0, w')
     \<and> passed (write_cmd ns ok f) (io_commands (sys_log w')) \<and> length (io_commands (sys_log w')) = 6"
proof -
  have es: "errno_set demo_nvme" by (auto simp: errno_set_def demo_nvme_def EFAULT_def split: if_splits)
  note demo_id_ns_lbaf
  then obtain w' where run: "nv_main demo_nvme [''nvme-passthrough-meta'', ''/dev/ng0n1''] \<lparr>kst = (), sys_log = []\<rparr> = Inr (0, w')"
    by (simp add: nv_main_def nv_test_def nv_transfers_def nv_try_def nv_map_def write_cmd_def zero_cmd_def demo_nvme_def
        andthen_def syscall_def returns_run Let_def)
  from nvme_meta_pass [OF es run] obtain ns ok idns where p: "passed (write_cmd ns ok (the_lbaf idns)) (io_commands (sys_log w'))" by auto
  then have "length (io_commands (sys_log w')) = 6" 
    using arg_cong [of _ _ length] by (force simp: passed_def six_def)
  then show ?thesis using run p by blast
qed

text \<open>
  With blocks larger than the buffer the program computes no blocks at all: the block count field
  becomes \<open>0xffffffff\<close> and no metadata is announced.
\<close>

lemma nvme_large_blocks:
  assumes "15 < unat (ds f)" and "unat (ds f) < 31"
  shows "cdw12 (write_cmd ns ok f) = - 1" and "metadata_len (write_cmd ns ok f) = 0"
proof -
  let ?d = "unat (ds f)"
  have lt: "(2 :: nat) ^ ?d < 2 ^ LENGTH(64)" using assms(2) by (intro power_strict_increasing) simp_all
  have "unat (word_of_nat (2 ^ ?d) :: u64) = 2 ^ ?d" using lt by (rule unat_of_nat_small)
  then have u: "unat (push_bit ?d 1 :: u64) = 2 ^ ?d" by (simp add: push_bit_of_1)
  have "(2 :: nat) ^ 15 < 2 ^ ?d" using assms(1) by (intro power_strict_increasing) simp_all
  then have "unat (BUFFER_SIZE div push_bit ?d 1 :: u64) = 0" by (simp only: unat_div u BUFFER_SIZE_def) simp
  then have "BUFFER_SIZE div push_bit ?d 1 = (0 :: u64)" by (simp only: unat_eq_zero)
  then have "blocks_of f = 0" unfolding blocks_of_def by simp
  then show "cdw12 (write_cmd ns ok f) = - 1" "metadata_len (write_cmd ns ok f) = 0"
    by (simp_all add: write_cmd_def meta_buffer_size_def)
qed

end
