(* ===== verification/Small_Tools.thy ===== *)
theory Small_Tools
  imports C_Lib C_Struct Sys_Prog
begin

text \<open>
  The small helper programs, each a few calls on one or two files: \<open>zbdioctl.c\<close>, \<open>loblksize.c\<close>,
  \<open>nbdsetsize.c\<close>, \<open>loop_change_fd.c\<close>, \<open>openclose.c\<close>, \<open>loop_get_status_null.c\<close>, \<open>ioctl-lbmd-query.c\<close>,
  \<open>sg/dxfer-from-dev.c\<close> and \<open>mount_clear_sock.c\<close>. What they share is how they handle descriptors.
\<close>

section \<open>System\<close>

record lbmd_cap =
  lbmd_flags :: u32
  lbmd_interval :: u16
  lbmd_size :: u8

text \<open>Results come with \<open>errno\<close>; the calls that fill a structure return it.\<close>

record 'k tool_os =
  t_open :: "string \<Rightarrow> 'k \<Rightarrow> int \<times> 'k"
  t_close :: "int \<Rightarrow> 'k \<Rightarrow> int \<times> 'k"
  t_ioctl :: "int \<Rightarrow> u64 \<Rightarrow> u64 \<Rightarrow> 'k \<Rightarrow> (int \<times> int) \<times> 'k"
  t_zone :: "int \<Rightarrow> u64 \<Rightarrow> 'k \<Rightarrow> (int \<times> u32) \<times> 'k"
  t_lbmd :: "int \<Rightarrow> 'k \<Rightarrow> (int \<times> lbmd_cap) \<times> 'k"
  t_write :: "int \<Rightarrow> u8 list \<Rightarrow> 'k \<Rightarrow> (int \<times> int) \<times> 'k"
  t_fork :: "'k \<Rightarrow> int \<times> 'k"
  t_waitpid :: "int \<Rightarrow> 'k \<Rightarrow> (int \<times> u32) \<times> 'k"
  t_mount :: "string \<Rightarrow> string \<Rightarrow> string \<Rightarrow> 'k \<Rightarrow> int \<times> 'k"
  t_umount :: "string \<Rightarrow> 'k \<Rightarrow> int \<times> 'k"

datatype tool_event =
    T_Open string int
  | T_Close int
  | T_Ioctl int u64 int
  | T_Write int "u8 list" int
  | T_Print string
  | T_Fork int
  | T_Wait int int u32
  | T_Mount string int
  | T_Umount string int

type_synonym ('k, 'a) tool = "('k, tool_event, 'a) sys_prog"

definition open_file :: "'k tool_os \<Rightarrow> string \<Rightarrow> ('k, int) tool" where
  "open_file S path = syscall (t_open S path) (T_Open path)"

definition close_file :: "'k tool_os \<Rightarrow> int \<Rightarrow> ('k, int) tool" where
  "close_file S fd = syscall (t_close S fd) (\<lambda>_. T_Close fd)"

definition closing :: "'k tool_os \<Rightarrow> int \<Rightarrow> int \<Rightarrow> ('k, int) tool" where
  "closing S fd status = andthen (close_file S fd) (\<lambda>_. returns status)"

section \<open>One descriptor\<close>

definition zbd_requests :: "(string \<times> u64) list" where
  "zbd_requests = [(''-s'', 0x80041284), (''-n'', 0x80041285)]"

definition zbdioctl_main :: "'k tool_os \<Rightarrow> string list \<Rightarrow> ('k, int) tool" where
  "zbdioctl_main S argv =
     (if length argv \<noteq> 3 then halt (Exit 1) else
      case map_of zbd_requests (argv ! 1) of None \<Rightarrow> halt (Exit 1) | Some code \<Rightarrow>
      andthen (open_file S (argv ! 2)) (\<lambda>fd. if fd < 0 then returns 1 else
      andthen (syscall (t_zone S fd code) (\<lambda>p. T_Ioctl fd code (fst p))) (\<lambda>(ret, val).
      if ret < 0 then closing S fd 1
      else andthen (emit (T_Print (decimal (unat val) @ [CHR 0x0A]))) (\<lambda>_. closing S fd 0))))"

text \<open>\<open>loblksize\<close> and \<open>nbdsetsize\<close> differ in the request only.\<close>

definition set_number :: "u64 \<Rightarrow> 'k tool_os \<Rightarrow> string list \<Rightarrow> ('k, int) tool" where
  "set_number request S argv =
     (if length argv \<noteq> 3 then returns 1 else
      case strtoull_whole (argv ! 2) of None \<Rightarrow> returns 1 | Some n \<Rightarrow>
      andthen (open_file S (argv ! 1)) (\<lambda>fd. if fd = - 1 then returns 1 else
      andthen (syscall (t_ioctl S fd request n) (\<lambda>p. T_Ioctl fd request (fst p))) (\<lambda>(ret, e).
      if ret = - 1 then closing S fd (if e = EINVAL then 2 else 1) else closing S fd 0)))"

definition LOOP_SET_BLOCK_SIZE :: u64 where "LOOP_SET_BLOCK_SIZE = 0x4C09"
definition NBD_SET_SIZE :: u64 where "NBD_SET_SIZE = 0xab02"

definition loblksize_main :: "'k tool_os \<Rightarrow> string list \<Rightarrow> ('k, int) tool" where
  "loblksize_main = set_number LOOP_SET_BLOCK_SIZE"

definition nbdsetsize_main :: "'k tool_os \<Rightarrow> string list \<Rightarrow> ('k, int) tool" where
  "nbdsetsize_main = set_number NBD_SET_SIZE"

primrec openclose_loop :: "nat \<Rightarrow> 'k tool_os \<Rightarrow> string \<Rightarrow> ('k, int) tool" where
  "openclose_loop 0 S path = returns 0"
| "openclose_loop (Suc n) S path =
     andthen (open_file S path) (\<lambda>fd. if fd = - 1 then returns 1 else
     andthen (close_file S fd) (\<lambda>ret. if ret = - 1 then returns 1 else openclose_loop n S path))"

definition openclose_main :: "'k tool_os \<Rightarrow> string list \<Rightarrow> ('k, int) tool" where
  "openclose_main S argv = (if length argv \<noteq> 3 then returns 1 else openclose_loop (nat (atoi (argv ! 2))) S (argv ! 1))"

definition LOOP_GET_STATUS :: u64 where "LOOP_GET_STATUS = 0x4C03"
definition LOOP_GET_STATUS64 :: u64 where "LOOP_GET_STATUS64 = 0x4C05"

definition loop_get_status_null_main :: "'k tool_os \<Rightarrow> string list \<Rightarrow> ('k, int) tool" where
  "loop_get_status_null_main S argv =
     (if length argv \<noteq> 2 \<and> length argv \<noteq> 3 then halt (Exit 1)
      else if length argv = 3 \<and> argv ! 2 \<noteq> ''64'' then halt (Exit 1)
      else let cmd = (if length argv = 3 then LOOP_GET_STATUS64 else LOOP_GET_STATUS) in
      andthen (open_file S (argv ! 1)) (\<lambda>fd. if fd = - 1 then returns 1 else
      andthen (syscall (t_ioctl S fd cmd 0) (\<lambda>p. T_Ioctl fd cmd (fst p))) (\<lambda>(ret, e).
      if ret = - 1 then
        (if e = EINVAL then andthen (emit (T_Print ''Got EINVAL'')) (\<lambda>_. closing S fd 0) else closing S fd 1)
      else andthen (emit (T_Print ''Did not get EINVAL'')) (\<lambda>_. closing S fd 0))))"

definition logical_block_metadata_cap :: "c_field list" where
  "logical_block_metadata_cap =
     [scalar ''lbmd_flags'' 4, scalar ''lbmd_interval'' 2, scalar ''lbmd_size'' 1, scalar ''lbmd_opaque_size'' 1,
      scalar ''lbmd_opaque_offset'' 1, scalar ''lbmd_pi_size'' 1, scalar ''lbmd_pi_offset'' 1, scalar ''lbmd_guard_tag_type'' 1,
      scalar ''lbmd_app_tag_size'' 1, scalar ''lbmd_ref_tag_size'' 1, scalar ''lbmd_storage_tag_size'' 1, scalar ''pad'' 1]"

definition FS_IOC_GETLBMD_CAP :: u64 where
  "FS_IOC_GETLBMD_CAP = iowr 0x15 2 (sizeof logical_block_metadata_cap)"

lemma FS_IOC_GETLBMD_CAP_value: "FS_IOC_GETLBMD_CAP = 0xc0101502"
proof -
  have "sizeof logical_block_metadata_cap = 16"
    by (simp add: logical_block_metadata_cap_def layout_simps flip: numeral_2_eq_2)
  then show ?thesis by (simp add: FS_IOC_GETLBMD_CAP_def iowr_def push_bit_eq_mult)
qed

definition lbmd_main :: "'k tool_os \<Rightarrow> string list \<Rightarrow> ('k, int) tool" where
  "lbmd_main S argv =
     (if length argv \<noteq> 2 then returns 1 else
      andthen (open_file S (argv ! 1)) (\<lambda>fd. if fd < 0 then returns 1 else
      andthen (syscall (t_lbmd S fd) (\<lambda>p. T_Ioctl fd FS_IOC_GETLBMD_CAP (fst p))) (\<lambda>(ret, cap).
      if ret < 0 then closing S fd 1
      else andthen (close_file S fd) (\<lambda>_.
        if lbmd_flags cap AND 1 = 0 then andthen (emit (T_Print ''unsupported'')) (\<lambda>_. returns 0)
        else andthen (emit (T_Print (''lbmd_flags='' @ decimal (unat (lbmd_flags cap)) @ '' lbmd_interval='' @ decimal (unat (lbmd_interval cap))
          @ '' lbmd_size='' @ decimal (unat (lbmd_size cap))))) (\<lambda>_. returns 0)))))"

definition SG_SET_RESERVED_SIZE :: u64 where "SG_SET_RESERVED_SIZE = 0x2275"
definition SG_SET_TIMEOUT :: u64 where "SG_SET_TIMEOUT = 0x2201"

definition dxfer_buf :: "u8 list" where
  "dxfer_buf = (replicate 42 0)[4 := 72]"

definition dxfer_main :: "'k tool_os \<Rightarrow> string list \<Rightarrow> ('k, int) tool" where
  "dxfer_main S argv =
     (if length argv \<noteq> 2 then returns 1 else
      andthen (open_file S (argv ! 1)) (\<lambda>fd. if fd < 0 then returns 1 else
      andthen (syscall (t_ioctl S fd SG_SET_RESERVED_SIZE 131072) (\<lambda>p. T_Ioctl fd SG_SET_RESERVED_SIZE (fst p))) (\<lambda>(rc, e).
      if rc < 0 then closing S fd 1 else
      andthen (syscall (t_ioctl S fd SG_SET_TIMEOUT 10800000) (\<lambda>p. T_Ioctl fd SG_SET_TIMEOUT (fst p))) (\<lambda>(rc, e).
      if rc < 0 then closing S fd 1 else
      andthen (syscall (t_write S fd dxfer_buf) (\<lambda>p. T_Write fd dxfer_buf (fst p))) (\<lambda>(rc, e).
      if rc < 0 then (if e = EINVAL then andthen (emit (T_Print ''FAIL'')) (\<lambda>_. closing S fd 1) else closing S fd 1)
      else andthen (emit (T_Print ''PASS'')) (\<lambda>_. closing S fd 0))))))"

section \<open>Two descriptors\<close>

definition LOOP_CHANGE_FD :: u64 where "LOOP_CHANGE_FD = 0x4C06"

definition loop_change_fd_main :: "'k tool_os \<Rightarrow> string list \<Rightarrow> ('k, int) tool" where
  "loop_change_fd_main S argv =
     (if length argv \<noteq> 3 then halt (Exit 1) else
      andthen (open_file S (argv ! 1)) (\<lambda>fd. if fd = - 1 then returns 1 else
      andthen (open_file S (argv ! 2)) (\<lambda>filefd. if filefd = - 1 then returns 1 else
      andthen (syscall (t_ioctl S fd LOOP_CHANGE_FD (word_of_int filefd)) (\<lambda>p. T_Ioctl fd LOOP_CHANGE_FD (fst p))) (\<lambda>(ret, e).
      andthen (close_file S fd) (\<lambda>_. closing S filefd (if ret = - 1 then 1 else 0))))))"

section \<open>Processes\<close>

text \<open>\<open>WIFEXITED\<close> and \<open>WEXITSTATUS\<close> of a wait status.\<close>

definition exited_ok :: "u32 \<Rightarrow> bool" where
  "exited_ok st \<longleftrightarrow> st AND 0x7f = 0 \<and> drop_bit 8 st AND 0xff = 0"

definition NBD_CLEAR_SOCK :: u64 where "NBD_CLEAR_SOCK = 0xab04"

definition mount_child :: "'k tool_os \<Rightarrow> string \<Rightarrow> string \<Rightarrow> string \<Rightarrow> ('k, int) tool" where
  "mount_child S dev mp fs = andthen (syscall (t_mount S dev mp fs) (T_Mount mp)) (\<lambda>_.
     andthen (syscall (t_umount S mp) (T_Umount mp)) (\<lambda>_. halt (Exit 0)))"

definition clear_child :: "'k tool_os \<Rightarrow> int \<Rightarrow> ('k, int) tool" where
  "clear_child S fd = andthen (syscall (t_ioctl S fd NBD_CLEAR_SOCK 0) (\<lambda>p. T_Ioctl fd NBD_CLEAR_SOCK (fst p))) (\<lambda>(ret, e).
     if ret = - 1 then halt (Exit 1) else halt (Exit 0))"

definition wait_for :: "'k tool_os \<Rightarrow> int \<Rightarrow> ('k, int) tool \<Rightarrow> ('k, int) tool" where
  "wait_for S pid rest = andthen (syscall (t_waitpid S pid) (\<lambda>p. T_Wait pid (fst p) (snd p))) (\<lambda>(ret, st).
     if ret = - 1 then returns 1 else if \<not> exited_ok st then returns 1 else rest)"

primrec mount_loop :: "nat \<Rightarrow> 'k tool_os \<Rightarrow> int \<Rightarrow> string \<Rightarrow> string \<Rightarrow> string \<Rightarrow> ('k, int) tool" where
  "mount_loop 0 S fd dev mp fs = closing S fd 0"
| "mount_loop (Suc n) S fd dev mp fs =
     andthen (syscall (t_fork S) T_Fork) (\<lambda>mount_pid.
       if mount_pid = - 1 then returns 1 else if mount_pid = 0 then mount_child S dev mp fs else
     andthen (syscall (t_fork S) T_Fork) (\<lambda>clear_sock_pid.
       if clear_sock_pid = - 1 then returns 1 else if clear_sock_pid = 0 then clear_child S fd else
     wait_for S mount_pid (wait_for S clear_sock_pid (mount_loop n S fd dev mp fs))))"

definition mount_clear_sock_main :: "'k tool_os \<Rightarrow> string list \<Rightarrow> ('k, int) tool" where
  "mount_clear_sock_main S argv =
     (if length argv \<noteq> 5 then returns 1 else
      andthen (open_file S (argv ! 1)) (\<lambda>fd. if fd = - 1 then returns 1 else
      mount_loop (nat (atoi (argv ! 4))) S fd (argv ! 1) (argv ! 2) (argv ! 3)))"

section \<open>Descriptors\<close>

text \<open>
  The discipline for one descriptor: it is used only between its opening and its closing, it is closed
  once, nothing else is closed, and none is open at the end. A failed open gives none; the number it
  gave is negative.
\<close>

fun one_fd :: "int option \<Rightarrow> tool_event list \<Rightarrow> bool" where
  "one_fd st [] = (st = None)"
| "one_fd st (T_Open p fd # tr) = (st = None \<and> one_fd (if 0 \<le> fd then Some fd else None) tr)"
| "one_fd st (T_Close fd # tr) = ((if 0 \<le> fd then st = Some fd else st = None) \<and> one_fd None tr)"
| "one_fd st (T_Ioctl fd c r # tr) = ((if 0 \<le> fd then st = Some fd else st = None) \<and> one_fd st tr)"
| "one_fd st (T_Write fd b r # tr) = ((if 0 \<le> fd then st = Some fd else st = None) \<and> one_fd st tr)"
| "one_fd st (T_Print s # tr) = one_fd st tr"
| "one_fd st (e # tr) = False"

lemma logs_case_prod: "(\<And>x y. p = (x, y) \<Longrightarrow> logs (f x y) P) \<Longrightarrow> logs (case p of (x, y) \<Rightarrow> f x y) P"
  by (cases p) simp

lemmas tool_rules = logs_syscall_then logs_emit_then logs_if logs_returns logs_halt logs_case_prod
lemmas tool_defs = open_file_def closing_def close_file_def

lemma set_number_disciplined: "logs (set_number request S argv) (\<lambda>_. one_fd None)"
  by (auto simp: set_number_def tool_defs intro!: tool_rules split: option.split)

lemma openclose_loop_disciplined: "logs (openclose_loop n S path) (\<lambda>_. one_fd None)"
proof (induction n)
  case 0
  show ?case by (simp add: logs_returns)
next
  case (Suc n)
  have "logs (openclose_loop n S path) (\<lambda>_ tr. one_fd None (T_Open path fd # T_Close fd # tr))" for fd
    by (rule logs_weaken [OF Suc]) simp
  then show ?case
    by (auto simp: tool_defs simp del: one_fd.simps(2,3) intro!: logs_syscall_then logs_returns) simp_all
qed

lemma tools_disciplined:
  "logs (zbdioctl_main S argv) (\<lambda>_. one_fd None)" "logs (loblksize_main S argv) (\<lambda>_. one_fd None)"
  "logs (nbdsetsize_main S argv) (\<lambda>_. one_fd None)" "logs (openclose_main S argv) (\<lambda>_. one_fd None)"
  "logs (loop_get_status_null_main S argv) (\<lambda>_. one_fd None)" "logs (lbmd_main S argv) (\<lambda>_. one_fd None)"
  "logs (dxfer_main S argv) (\<lambda>_. one_fd None)"
proof -
  show "logs (zbdioctl_main S argv) (\<lambda>_. one_fd None)"
    by (auto simp: zbdioctl_main_def tool_defs intro!: tool_rules split: option.split)
  show "logs (loblksize_main S argv) (\<lambda>_. one_fd None)" "logs (nbdsetsize_main S argv) (\<lambda>_. one_fd None)"
    by (simp_all add: loblksize_main_def nbdsetsize_main_def set_number_disciplined)
  show "logs (openclose_main S argv) (\<lambda>_. one_fd None)"
    by (simp add: openclose_main_def openclose_loop_disciplined logs_returns)
  show "logs (loop_get_status_null_main S argv) (\<lambda>_. one_fd None)" "logs (lbmd_main S argv) (\<lambda>_. one_fd None)"
    by (auto simp: loop_get_status_null_main_def lbmd_main_def Let_def tool_defs intro!: tool_rules)
  show "logs (dxfer_main S argv) (\<lambda>_. one_fd None)"
    by (auto simp: dxfer_main_def tool_defs intro!: tool_rules)
qed

text \<open>
  A tool leaves through \<open>exit\<close>, or otherwise without returning, only for its arguments, whatever the
  system is: before it has made any call.
\<close>

definition usage_exit :: "('k tool_os \<Rightarrow> string list \<Rightarrow> ('k, int) tool) \<Rightarrow> bool" where
  "usage_exit main \<longleftrightarrow> (\<forall>argv. (\<forall>S w. main S argv w = Inl (Exit 1)) \<or> (\<forall>S. stops {} (main S argv)))"

lemma stops_option: "(x = None \<Longrightarrow> stops E m) \<Longrightarrow> (\<And>y. x = Some y \<Longrightarrow> stops E (f y))
    \<Longrightarrow> stops E (case x of None \<Rightarrow> m | Some y \<Rightarrow> f y)"
  by (cases x) simp_all

lemma set_number_returns: "stops {} (set_number request S argv)"
  unfolding set_number_def tool_defs by (intro stops_rules stops_option)

lemma openclose_loop_returns: "stops {} (openclose_loop n S path)"
  by (induction n) (auto simp: tool_defs intro!: stops_rules)

lemma tools_usage_exit:
  "usage_exit zbdioctl_main" "usage_exit loblksize_main" "usage_exit nbdsetsize_main" "usage_exit openclose_main"
  "usage_exit loop_get_status_null_main" "usage_exit lbmd_main" "usage_exit dxfer_main"
proof -
  show "usage_exit zbdioctl_main"
    unfolding usage_exit_def
  proof
    fix argv
    show "(\<forall>S w. zbdioctl_main S argv w = Inl (Exit 1)) \<or> (\<forall>S. stops {} (zbdioctl_main S argv))"
    proof (cases "length argv \<noteq> 3 \<or> map_of zbd_requests (argv ! 1) = None")
      case True
      then show ?thesis by (auto simp: zbdioctl_main_def halt_run)
    next
      case False
      then obtain code where "length argv = 3" "map_of zbd_requests (argv ! 1) = Some code" by auto
      then have "stops {} (zbdioctl_main S argv)" for S
        unfolding zbdioctl_main_def tool_defs by (simp, intro stops_rules)
      then show ?thesis by blast
    qed
  qed
  show "usage_exit loop_get_status_null_main"
    unfolding usage_exit_def
  proof
    fix argv
    show "(\<forall>S w. loop_get_status_null_main S argv w = Inl (Exit 1)) \<or> (\<forall>S. stops {} (loop_get_status_null_main S argv))"
    proof (cases "length argv \<noteq> 2 \<and> length argv \<noteq> 3 \<or> length argv = 3 \<and> argv ! 2 \<noteq> ''64''")
      case True
      then show ?thesis by (auto simp: loop_get_status_null_main_def halt_run)
    next
      case False
      then have "\<not> (length argv \<noteq> 2 \<and> length argv \<noteq> 3)" "\<not> (length argv = 3 \<and> argv ! 2 \<noteq> ''64'')" by auto
      then have "stops {} (loop_get_status_null_main S argv)" for S
        unfolding loop_get_status_null_main_def Let_def tool_defs by (simp only: if_False, intro stops_rules)
      then show ?thesis by blast
    qed
  qed
  show "usage_exit lbmd_main" "usage_exit dxfer_main"
    unfolding usage_exit_def lbmd_main_def dxfer_main_def tool_defs by (intro allI disjI2 stops_rules)+
  show "usage_exit loblksize_main" "usage_exit nbdsetsize_main" "usage_exit openclose_main"
    by (simp_all add: usage_exit_def loblksize_main_def nbdsetsize_main_def openclose_main_def set_number_returns
        openclose_loop_returns stops_rules)
qed


definition demo_tool :: "unit tool_os" where
  "demo_tool = \<lparr>t_open = (\<lambda>_ k. (3, k)), t_close = (\<lambda>_ k. (0, k)), t_ioctl = (\<lambda>_ _ _ k. ((0, 0), k)), t_zone = (\<lambda>_ _ k. ((0, 524288), k)),
     t_lbmd = (\<lambda>_ k. ((0, \<lparr>lbmd_flags = 1, lbmd_interval = 512, lbmd_size = 8\<rparr>), k)), t_write = (\<lambda>_ bs k. ((42, 0), k)),
     t_fork = (\<lambda>k. (7, k)), t_waitpid = (\<lambda>pid k. ((pid, 0), k)), t_mount = (\<lambda>_ _ _ k. (0, k)), t_umount = (\<lambda>_ k. (0, k))\<rparr>"


text \<open>\<open>loop_change_fd\<close> keeps the first descriptor open when the second file cannot be opened.\<close>

lemma loop_change_fd_leaks:
  assumes "t_open S (argv ! 1) (kst w) = (fd, k1)" and "0 \<le> fd" and "t_open S (argv ! 2) k1 = (- 1, k2)" and "length argv = 3"
  shows "\<exists>w'. loop_change_fd_main S argv w = Inr (1, w') \<and> sys_log w' = sys_log w @ [T_Open (argv ! 1) fd, T_Open (argv ! 2) (- 1)]"
  using assms by (simp add: loop_change_fd_main_def open_file_def andthen_def syscall_def returns_run)

section \<open>Children\<close>

text \<open>A wait that was answered for a child that exited with status 0.\<close>

definition reaped :: "tool_event list \<Rightarrow> int list" where
  "reaped tr = concat (map (\<lambda>e. case e of T_Wait pid ret st \<Rightarrow> if ret \<noteq> - 1 \<and> exited_ok st then [pid] else [] | _ \<Rightarrow> []) tr)"

definition forked :: "tool_event list \<Rightarrow> int list" where
  "forked tr = concat (map (\<lambda>e. case e of T_Fork pid \<Rightarrow> [pid] | _ \<Rightarrow> []) tr)"

lemma mount_loop_reaps:
  "logs (mount_loop n S fd dev mp fs) (\<lambda>r tr. r = 0 \<longrightarrow> reaped tr = forked tr \<and> length (forked tr) = 2 * n \<and> 0 \<notin> set (forked tr))"
proof (induction n)
  case 0
  show ?case
    by (auto simp: closing_def close_file_def reaped_def forked_def intro!: logs_syscall_then logs_returns)
next
  case (Suc n)
  have IH: "logs (mount_loop n S fd dev mp fs) (\<lambda>r tr. r = 0 \<longrightarrow> reaped (T_Fork p # T_Fork q # T_Wait p x st # T_Wait q y su # tr)
       = forked (T_Fork p # T_Fork q # T_Wait p x st # T_Wait q y su # tr)
     \<and> length (forked (T_Fork p # T_Fork q # T_Wait p x st # T_Wait q y su # tr)) = Suc (Suc (2 * n))
     \<and> 0 \<notin> set (forked (T_Fork p # T_Fork q # T_Wait p x st # T_Wait q y su # tr)))"
    if "p \<noteq> 0" "q \<noteq> 0" "x \<noteq> - 1" "exited_ok st" "y \<noteq> - 1" "exited_ok su" for p q x y st su
    by (rule logs_weaken [OF Suc]) (use that in \<open>auto simp: reaped_def forked_def\<close>)
  show ?case
    unfolding mount_loop.simps wait_for_def mount_child_def clear_child_def
    by (intro tool_rules) (simp_all add: IH)
qed

text \<open>
  When \<open>mount_clear_sock\<close> ends with status 0 it has waited, in every round, for both children of
  the round, in the order they were started, and both had exited with status 0.
\<close>

theorem mount_clear_sock_reaps:
  assumes "mount_clear_sock_main S argv w = Inr (0, w')" and "sys_log w = []"
  shows "reaped (sys_log w') = forked (sys_log w') \<and> length (forked (sys_log w')) = 2 * nat (atoi (argv ! 4)) \<and> 0 \<notin> set (forked (sys_log w'))"
proof -
  have "logs (mount_clear_sock_main S argv) (\<lambda>r tr. r = 0 \<longrightarrow> reaped tr = forked tr \<and> length (forked tr) = 2 * nat (atoi (argv ! 4)) \<and> 0 \<notin> set (forked tr))"
    unfolding mount_clear_sock_main_def open_file_def
    by (intro tool_rules logs_weaken [OF mount_loop_reaps]) (auto simp: reaped_def forked_def)
  from logsD [OF this assms(1)] show ?thesis using assms(2) by auto
qed

theorem mount_clear_sock_reaps_witness:
  "\<exists>w'. mount_clear_sock_main demo_tool [''m'', ''/dev/nbd0'', ''/mnt'', ''ext4'', ''1''] \<lparr>kst = (), sys_log = []\<rparr> = Inr (0, w')
     \<and> reaped (sys_log w') = [7, 7] \<and> reaped (sys_log w') = forked (sys_log w')"
proof -
  have "dropWhile is_space ''1'' = ''1'' \<and> strip_sign ''1'' = (False, ''1'') \<and> magnitude 10 ''1'' = 1" by code_simp
  then have one: "atoi ''1'' = 1" by (simp add: atoi_def strtol_def as_int_small)
  obtain w' where run: "mount_clear_sock_main demo_tool [''m'', ''/dev/nbd0'', ''/mnt'', ''ext4'', ''1''] \<lparr>kst = (), sys_log = []\<rparr> = Inr (0, w')
      \<and> reaped (sys_log w') = [7, 7]"
    by (simp add: mount_clear_sock_main_def one open_file_def closing_def close_file_def wait_for_def exited_ok_def demo_tool_def
        andthen_def syscall_def emit_def returns_run reaped_def)
  then have "reaped (sys_log w') = forked (sys_log w')"
    using mount_clear_sock_reaps [of demo_tool "[''m'', ''/dev/nbd0'', ''/mnt'', ''ext4'', ''1'']"] by fastforce
  then show ?thesis using run by blast
qed

end
