(* ===== verification/Admin_Uring.thy ===== *)
theory Admin_Uring
  imports Sys_Prog C_Struct
begin

text \<open>
  \<open>nvme-passthru-admin-uring.c\<close>: an identify command through \<open>io_uring\<close>. The ring library and the
  driver are parameters; what is acquired and released is in the log.
\<close>

section \<open>System\<close>

record au_cmd =
  au_opcode :: u8
  au_data_len :: u32
  au_cdw10 :: u32

record 'k au_os =
  au_open :: "string \<Rightarrow> 'k \<Rightarrow> (int \<times> int) \<times> 'k"
  au_calloc :: "'k \<Rightarrow> bool \<times> 'k"
  au_queue_init :: "nat \<Rightarrow> 'k \<Rightarrow> int \<times> 'k"
  au_get_sqe :: "'k \<Rightarrow> bool \<times> 'k"
  au_submit :: "au_cmd \<Rightarrow> 'k \<Rightarrow> int \<times> 'k"
  au_wait_cqe :: "'k \<Rightarrow> (int \<times> int option) \<times> 'k"

datatype au_event =
    Au_Open int
  | Au_Calloc bool
  | Au_Ring int
  | Au_Sqe bool
  | Au_Submit au_cmd int
  | Au_Wait int "int option"
  | Au_Seen
  | Au_Ring_Exit
  | Au_Free
  | Au_Close int

type_synonym ('k, 'a) au_prog = "('k, au_event, 'a) sys_prog"

section \<open>Main program\<close>

definition nvme_id_ctrl :: "c_field list" where
  "nvme_id_ctrl = [scalar ''vid'' 2, scalar ''ssvid'' 2, bytes ''sn'' 20, bytes ''mn'' 40, bytes ''fr'' 8, scalar ''rab'' 1,
     bytes ''ieee'' 3, bytes ''pad'' 4020]"

lemma id_ctrl_size: "sizeof nvme_id_ctrl = 4096"
  by (simp add: nvme_id_ctrl_def layout_simps flip: numeral_2_eq_2)

definition identify_ctrl :: au_cmd where
  "identify_ctrl = \<lparr>au_opcode = 0x06, au_data_len = word_of_nat (sizeof nvme_id_ctrl), au_cdw10 = 0x01\<rparr>"

text \<open>The value of \<open>ret\<close> after the wait; \<open>cqe\<close> is \<open>NULL\<close> unless the library has set it.\<close>

definition wait_result :: "int \<Rightarrow> int option \<Rightarrow> int" where
  "wait_result ret cqe = (if ret < 0 then ret else case cqe of Some res \<Rightarrow> if res < 0 then res else 0 | None \<Rightarrow> 0)"

definition au_command :: "'k au_os \<Rightarrow> ('k, int) au_prog" where
  "au_command S =
     andthen (syscall (au_get_sqe S) Au_Sqe) (\<lambda>ok. if \<not> ok then halt (Fault Null_Deref) else
     andthen (syscall (au_submit S identify_ctrl) (Au_Submit identify_ctrl)) (\<lambda>_.
     andthen (syscall (au_wait_cqe S) (\<lambda>p. Au_Wait (fst p) (snd p))) (\<lambda>(ret, cqe).
     andthen (if cqe \<noteq> None then emit Au_Seen else returns ()) (\<lambda>_.
     andthen (emit Au_Ring_Exit) (\<lambda>_. returns (wait_result ret cqe))))))"

definition admin_main :: "'k au_os \<Rightarrow> string list \<Rightarrow> ('k, int) au_prog" where
  "admin_main S argv =
     (if length argv < 2 then returns (- EINVAL) else
      andthen (syscall (au_open S (argv ! 1)) (\<lambda>p. Au_Open (fst p))) (\<lambda>(fd, e). if fd < 0 then returns (- e) else
      andthen (syscall (au_calloc S) Au_Calloc) (\<lambda>ok.
      andthen (if \<not> ok then returns (- ENOMEM) else
        andthen (syscall (au_queue_init S 80) Au_Ring) (\<lambda>ret.
        andthen (if ret < 0 then returns ret else au_command S) (\<lambda>ret.
        andthen (emit Au_Free) (\<lambda>_. returns ret)))) (\<lambda>ret.
      andthen (emit (Au_Close fd)) (\<lambda>_. returns ret)))))"

section \<open>Resources\<close>

datatype au_resource = Res_Fd int | Res_Memory | Res_Ring

fun acquire :: "au_event \<Rightarrow> au_resource list" where
  "acquire (Au_Open fd) = (if 0 \<le> fd then [Res_Fd fd] else [])"
| "acquire (Au_Calloc ok) = (if ok then [Res_Memory] else [])"
| "acquire (Au_Ring ret) = (if 0 \<le> ret then [Res_Ring] else [])"
| "acquire _ = []"

fun release :: "au_event \<Rightarrow> au_resource list" where
  "release (Au_Close fd) = [Res_Fd fd]"
| "release Au_Free = [Res_Memory]"
| "release Au_Ring_Exit = [Res_Ring]"
| "release _ = []"

definition acquired :: "au_event list \<Rightarrow> au_resource list" where
  "acquired tr = concat (map acquire tr)"

definition released :: "au_event list \<Rightarrow> au_resource list" where
  "released tr = concat (map release tr)"

lemma resources_simps [simp]:
  "acquired [] = []" "acquired (e # tr) = acquire e @ acquired tr" "acquired (tr @ tr') = acquired tr @ acquired tr'"
  "released [] = []" "released (e # tr) = release e @ released tr" "released (tr @ tr') = released tr @ released tr'"
  by (simp_all add: acquired_def released_def)

text \<open>The command part releases the ring and its result tells whether the completion was good.\<close>

lemma logs_au_command:
  "logs (au_command S) (\<lambda>r tr. acquired tr = [] \<and> released tr = [Res_Ring] \<and> (\<exists>ret cqe. Au_Wait ret cqe \<in> set tr \<and> r = wait_result ret cqe))"
proof -
  have tail: "logs (andthen (if cqe \<noteq> None then emit Au_Seen else returns ()) (\<lambda>_. andthen (emit Au_Ring_Exit) (\<lambda>_. returns (wait_result ret cqe))))
      (\<lambda>r tr. tr = (if cqe \<noteq> None then [Au_Seen] else []) @ [Au_Ring_Exit] \<and> r = wait_result ret cqe)" for ret cqe
    by (cases cqe) (auto simp: logs_def andthen_def emit_def returns_def)
  have "logs (case p of (ret, cqe) \<Rightarrow> andthen (if cqe \<noteq> None then emit Au_Seen else returns ())
        (\<lambda>_. andthen (emit Au_Ring_Exit) (\<lambda>_. returns (wait_result ret cqe))))
      (\<lambda>r tr. acquired (Au_Sqe b # Au_Submit identify_ctrl n # Au_Wait (fst p) (snd p) # tr) = []
        \<and> released (Au_Sqe b # Au_Submit identify_ctrl n # Au_Wait (fst p) (snd p) # tr) = [Res_Ring]
        \<and> (\<exists>ret cqe. Au_Wait ret cqe \<in> set (Au_Sqe b # Au_Submit identify_ctrl n # Au_Wait (fst p) (snd p) # tr) \<and> r = wait_result ret cqe))" for p b n
  proof -
    obtain ret cqe where p: "p = (ret, cqe)" by (cases p)
    show ?thesis unfolding p prod.case by (rule logs_weaken [OF tail]) auto
  qed
  then show ?thesis
    unfolding au_command_def by (intro logs_syscall_then logs_if logs_halt) simp_all
qed

lemma logs_after_ring:
  "logs (andthen (if ret < 0 then returns ret else au_command S) (\<lambda>ret. andthen (emit Au_Free) (\<lambda>_. returns ret)))
     (\<lambda>r tr. acquired tr = [] \<and> released tr = (if 0 \<le> ret then [Res_Ring] else []) @ [Res_Memory]
        \<and> (r = 0 \<longrightarrow> (\<exists>ret cqe. Au_Wait ret cqe \<in> set tr \<and> wait_result ret cqe = 0)))"
proof (cases "ret < 0")
  case True
  then show ?thesis by (auto simp: logs_def andthen_def emit_def returns_def)
next
  case False
  then have "(if ret < 0 then returns ret else au_command S) = au_command S" by simp
  then show ?thesis
    using False by (simp, intro logs_andthen [OF logs_au_command] logs_emit_then logs_returns) auto
qed

text \<open>
  However the program returns, it has released what it acquired, in the opposite order; status 0
  means that a completion was waited for and that neither the wait nor the command failed.
\<close>

theorem admin_releases:
  assumes "admin_main S argv w = Inr (r, w')" and "sys_log w = []" and "\<And>d k fd e k'. au_open S d k = ((fd, e), k') \<Longrightarrow> fd < 0 \<Longrightarrow> e \<noteq> 0"
  shows "released (sys_log w') = rev (acquired (sys_log w'))
     \<and> (r = 0 \<longrightarrow> (\<exists>ret cqe. Au_Wait ret cqe \<in> set (sys_log w') \<and> wait_result ret cqe = 0))"
proof -
  let ?P = "\<lambda>r tr. released tr = rev (acquired tr) \<and> (r = 0 \<longrightarrow> (\<exists>ret cqe. Au_Wait ret cqe \<in> set tr \<and> wait_result ret cqe = 0))"
  have body: "logs (andthen (if \<not> ok then returns (- ENOMEM) else
        andthen (syscall (au_queue_init S 80) Au_Ring) (\<lambda>ret.
        andthen (if ret < 0 then returns ret else au_command S) (\<lambda>ret. andthen (emit Au_Free) (\<lambda>_. returns ret)))) (\<lambda>ret.
      andthen (emit (Au_Close fd)) (\<lambda>_. returns ret))) (\<lambda>r tr. ?P r (Au_Open fd # Au_Calloc ok # tr))" if "0 \<le> fd" for fd ok
    by (rule logs_andthen [OF _ logs_emit_then [OF logs_returns]], cases ok)
      (use that in \<open>auto simp: ENOMEM_def intro!: logs_syscall_then logs_returns logs_weaken [OF logs_after_ring]\<close>, blast)
  have "logs (admin_main S argv) ?P"
    unfolding admin_main_def
  proof (intro logs_if logs_returns logs_call_then)
    fix k x k'
    assume "au_open S (argv ! 1) k = (x, k')"
    moreover obtain fd e where x: "x = (fd, e)" by (cases x)
    ultimately have e: "fd < 0 \<Longrightarrow> e \<noteq> 0" using assms(3) by blast
    show "logs (case x of (fd, e) \<Rightarrow> if fd < 0 then returns (- e) else
      andthen (syscall (au_calloc S) Au_Calloc) (\<lambda>ok.
      andthen (if \<not> ok then returns (- ENOMEM) else
        andthen (syscall (au_queue_init S 80) Au_Ring) (\<lambda>ret.
        andthen (if ret < 0 then returns ret else au_command S) (\<lambda>ret.
        andthen (emit Au_Free) (\<lambda>_. returns ret)))) (\<lambda>ret.
      andthen (emit (Au_Close fd)) (\<lambda>_. returns ret)))) (\<lambda>r tr. ?P r (Au_Open (fst x) # tr))"
      unfolding x prod.case fst_conv
    proof (rule logs_if)
      assume "fd < 0"
      with e show "logs (returns (- e)) (\<lambda>r tr. ?P r (Au_Open fd # tr))" by (intro logs_returns) simp
    next
      assume "\<not> fd < 0"
      then show "logs (andthen (syscall (au_calloc S) Au_Calloc) (\<lambda>ok.
        andthen (if \<not> ok then returns (- ENOMEM) else
          andthen (syscall (au_queue_init S 80) Au_Ring) (\<lambda>ret.
          andthen (if ret < 0 then returns ret else au_command S) (\<lambda>ret.
          andthen (emit Au_Free) (\<lambda>_. returns ret)))) (\<lambda>ret.
        andthen (emit (Au_Close fd)) (\<lambda>_. returns ret)))) (\<lambda>r tr. ?P r (Au_Open fd # tr))"
        by (intro logs_syscall_then body) simp
    qed
  qed (simp add: EINVAL_def)
  from logsD [OF this assms(1)] show ?thesis using assms(2) by auto
qed


definition demo_admin :: "unit au_os" where
  "demo_admin = \<lparr>au_open = (\<lambda>_ k. ((3, 0), k)), au_calloc = (\<lambda>k. (True, k)), au_queue_init = (\<lambda>_ k. (0, k)), au_get_sqe = (\<lambda>k. (True, k)),
     au_submit = (\<lambda>_ k. (1, k)), au_wait_cqe = (\<lambda>k. ((0, Some 0), k))\<rparr>"

theorem admin_releases_witness:
  "\<exists>w'. admin_main demo_admin [''nvme-passthru-admin-uring'', ''/dev/ng0''] \<lparr>kst = (), sys_log = []\<rparr> = Inr (0, w')
     \<and> acquired (sys_log w') = [Res_Fd 3, Res_Memory, Res_Ring] \<and> released (sys_log w') = rev (acquired (sys_log w'))"
proof -
  obtain w' where run: "admin_main demo_admin [''nvme-passthru-admin-uring'', ''/dev/ng0''] \<lparr>kst = (), sys_log = []\<rparr> = Inr (0, w')
      \<and> acquired (sys_log w') = [Res_Fd 3, Res_Memory, Res_Ring]"
    by (simp add: admin_main_def au_command_def wait_result_def demo_admin_def andthen_def syscall_def emit_def returns_run)
  have "released (sys_log w') = rev (acquired (sys_log w'))"
    using admin_releases [of demo_admin "[''nvme-passthru-admin-uring'', ''/dev/ng0'']"] run by (force simp: demo_admin_def)
  then show ?thesis using run by blast
qed

text \<open>The entry is used without a check: when the ring has none left the program dereferences \<open>NULL\<close>.\<close>

lemma admin_null_entry: "au_get_sqe S (kst w) = (False, k') \<Longrightarrow> au_command S w = Inl (Fault Null_Deref)"
  by (simp add: au_command_def andthen_def syscall_def halt_run)

end
