(* ===== verification/Ublk_Device.thy ===== *)
theory Ublk_Device
  imports Ublk_Props
begin

text \<open>
  The loop target as a block device, end to end: the queue thread of \<open>miniublk.c\<close>, the driver in front
  of it and the backing file behind it. The abstract device keeps, for each tag, the request it was
  given or the answer it has for it; every run of the composed system is a run of that device on the
  contents of the backing file, and rounds in which the kernel does its part finish every request.
\<close>

section \<open>The abstract device\<close>

text \<open>
  What an operation of the backing file does: memory address, length and offset in bytes, and the
  contents of file and memory \<open>'f\<close>; its result is a byte count or an error number.
\<close>

type_synonym 'f backing = "uring_op \<Rightarrow> u64 \<Rightarrow> nat \<Rightarrow> nat \<Rightarrow> 'f \<Rightarrow> s32 \<times> 'f"

text \<open>A request in sectors of 512 bytes; a flush of a range needs no memory.\<close>

definition perform :: "abi \<Rightarrow> 'f backing \<Rightarrow> iod \<Rightarrow> 'f \<Rightarrow> s32 \<times> 'f" where
  "perform A B d =
     (let op = abi_get_op A (iod_op_flags d); len = 512 * unat (iod_nr_sectors d); off = 512 * unat (iod_start_sector d) in
      if op = abi_op_read A then B Op_Read (iod_addr d) len off
      else if op = abi_op_write A then B Op_Write (iod_addr d) len off
      else B Op_Sync_File_Range 0 len off)"

text \<open>Requests the driver sends: reads, writes and flushes that lie within 32 and 64 bits of bytes.\<close>

definition sent :: "abi \<Rightarrow> iod \<Rightarrow> bool" where
  "sent A d \<longleftrightarrow> loop_request A d \<and> 512 * unat (iod_nr_sectors d) < 2 ^ 32 \<and> 512 * unat (iod_start_sector d) < 2 ^ 64"

datatype slot = Free | Pending iod | Answered s32

datatype 'f dev_event = Start nat iod | Perform nat | Finish nat s32 | Touched "'f \<Rightarrow> 'f"

fun device_step :: "abi \<Rightarrow> 'f backing \<Rightarrow> 'f dev_event \<Rightarrow> (nat \<Rightarrow> slot) \<times> 'f \<Rightarrow> ((nat \<Rightarrow> slot) \<times> 'f) option" where
  "device_step A B (Start t d) (sl, f) = (if sl t = Free then Some (sl(t := Pending d), f) else None)"
| "device_step A B (Perform t) (sl, f) = (case sl t of
     Pending d \<Rightarrow> (case perform A B d f of (r, f') \<Rightarrow> Some (sl(t := Answered r), f'))
   | _ \<Rightarrow> None)"
| "device_step A B (Finish t r) (sl, f) = (if sl t = Answered r then Some (sl(t := Free), f) else None)"
| "device_step A B (Touched g) (sl, f) = Some (sl, g f)"

fun device_run :: "abi \<Rightarrow> 'f backing \<Rightarrow> 'f dev_event list \<Rightarrow> (nat \<Rightarrow> slot) \<times> 'f \<Rightarrow> ((nat \<Rightarrow> slot) \<times> 'f) option" where
  "device_run A B [] x = Some x"
| "device_run A B (e # es) x = (case device_step A B e x of None \<Rightarrow> None | Some x' \<Rightarrow> device_run A B es x')"

lemma device_run_append:
  "device_run A B (es @ es') x = (case device_run A B es x of None \<Rightarrow> None | Some x' \<Rightarrow> device_run A B es' x')"
  by (induction es arbitrary: x) (auto split: option.split)

section \<open>The kernel\<close>

text \<open>
  The kernel's side of the ring: entries it has not taken yet, entries it holds, completions it has
  posted since the last round, the mapped descriptors, and the backing file. It looks at operation,
  command and tag of an entry, not at the cookie.
\<close>

record 'f kernel =
  k_sub :: "sqe list"
  k_held :: "sqe list"
  k_posted :: "cqe list"
  k_descs :: "nat \<Rightarrow> iod"
  k_store :: 'f

text \<open>Fixed file 1 of the ring is the backing file.\<close>

definition exec_entry :: "'f backing \<Rightarrow> sqe \<Rightarrow> 'f \<Rightarrow> s32 \<times> 'f" where
  "exec_entry B s f =
     (if sqe_fixed_file s \<and> sqe_fd s = 1 then B (sqe_opcode s) (sqe_addr s) (unat (sqe_len s)) (unat (sqe_off s)) f
      else (word_of_int (- EBADF), f))"

definition is_command :: "sqe \<Rightarrow> bool" where
  "is_command s \<longleftrightarrow> sqe_opcode s = Op_Uring_Cmd"

definition command_tag :: "sqe \<Rightarrow> nat" where
  "command_tag s = unat (cmd_tag (sqe_cmd s))"

text \<open>
  The kernel takes the next entry (a commit finishes a request), performs a held entry on the backing
  file, delivers a request with a held command, or completes a command with another result.
  \<open>Touch\<close> is what the driver and others do to memory or file, such as the copies of the data of a request.
\<close>

datatype 'f kact = Take | Execute nat | Deliver nat iod | Fail nat s32 | Touch "'f \<Rightarrow> 'f"

definition without :: "nat \<Rightarrow> 'a list \<Rightarrow> 'a list" where
  "without i xs = take i xs @ drop (Suc i) xs"

definition post :: "nat \<Rightarrow> s32 \<Rightarrow> 'f kernel \<Rightarrow> 'f kernel" where
  "post i r k = k\<lparr>k_held := without i (k_held k),
     k_posted := k_posted k @ [\<lparr>cqe_user_data = sqe_user_data (k_held k ! i), cqe_res = r\<rparr>]\<rparr>"

fun kernel_act :: "abi \<Rightarrow> 'f backing \<Rightarrow> 'f kact \<Rightarrow> 'f kernel \<Rightarrow> ('f dev_event list \<times> 'f kernel) option" where
  "kernel_act A B Take k = (case k_sub k of
     [] \<Rightarrow> None
   | s # rest \<Rightarrow> Some (if is_command s \<and> sqe_off s = ucast (abi_commit_and_fetch_req A)
         then [Finish (command_tag s) (cmd_result (sqe_cmd s))] else [],
       k\<lparr>k_sub := rest, k_held := k_held k @ [s]\<rparr>))"
| "kernel_act A B (Execute i) k =
     (if i < length (k_held k) \<and> \<not> is_command (k_held k ! i)
      then case exec_entry B (k_held k ! i) (k_store k) of (r, f) \<Rightarrow>
        Some ([Perform (utag (sqe_user_data (k_held k ! i)))], (post i r k)\<lparr>k_store := f\<rparr>)
      else None)"
| "kernel_act A B (Deliver i d) k =
     (if i < length (k_held k) \<and> is_command (k_held k ! i) \<and> sent A d
      then let t = command_tag (k_held k ! i) in
        Some ([Start t d], (post i (abi_res_ok A) k)\<lparr>k_descs := (k_descs k)(t := d)\<rparr>)
      else None)"
| "kernel_act A B (Fail i r) k =
     (if i < length (k_held k) \<and> is_command (k_held k ! i) \<and> r \<noteq> abi_res_ok A then Some ([], post i r k) else None)"
| "kernel_act A B (Touch g) k = Some ([Touched g], k\<lparr>k_store := g (k_store k)\<rparr>)"

fun kernel_run :: "abi \<Rightarrow> 'f backing \<Rightarrow> 'f kact list \<Rightarrow> 'f kernel \<Rightarrow> ('f dev_event list \<times> 'f kernel) option" where
  "kernel_run A B [] k = Some ([], k)"
| "kernel_run A B (a # as) k = (case kernel_act A B a k of None \<Rightarrow> None | Some (es, k1) \<Rightarrow>
     (case kernel_run A B as k1 of None \<Rightarrow> None | Some (es', k2) \<Rightarrow> Some (es @ es', k2)))"

section \<open>The composed system\<close>

text \<open>What a round of \<open>ublk_process_io\<close> finds after the kernel has acted; \<open>ret\<close> is the result of the system call.\<close>

definition round_event :: "int \<Rightarrow> 'f kernel \<Rightarrow> 'f kernel \<Rightarrow> event" where
  "round_event ret k k' = \<lparr>ev_ret = ret, ev_consumed = length (k_sub k) - length (k_sub k'),
     ev_cqes = k_posted k', ev_iods = k_descs k'\<rparr>"

inductive dev_round ::
  "'r uring \<Rightarrow> abi \<Rightarrow> 'f backing \<Rightarrow> u32 \<Rightarrow> 'f kact list \<Rightarrow> 'f kernel \<times> 'r ublk_queue \<Rightarrow> 'f dev_event list
   \<Rightarrow> 'f kernel \<times> 'r ublk_queue \<Rightarrow> bool"
  for U A B sz where
  round: "\<lbrakk>\<not> ublk_queue_is_done U q; kernel_run A B acts k = Some (es, k');
      ret = - ETIME \<Longrightarrow> process_io_timeout q \<noteq> None;
      ublk_process_io U A (loop_tgt_ops U A) sz (round_event ret k k') q = Inr (m, advice, q')\<rbrakk>
    \<Longrightarrow> dev_round U A B sz acts (k, q) es (k'\<lparr>k_sub := sq_view U (ring q'), k_posted := []\<rparr>, q')"

inductive_cases dev_roundE: "dev_round U A B sz acts (k, q) es (k', q')"

inductive dev_reach ::
  "'r uring \<Rightarrow> abi \<Rightarrow> 'f backing \<Rightarrow> u32 \<Rightarrow> nat \<Rightarrow> 'f \<Rightarrow> 'f kernel \<Rightarrow> 'r ublk_queue \<Rightarrow> 'f dev_event list \<Rightarrow> bool"
  for U A B sz n f0 where
  start: "\<lbrakk>queue_fresh U q; q_depth q \<le> n; ublk_submit_fetch_commands U A q = Inr q'\<rbrakk>
    \<Longrightarrow> dev_reach U A B sz n f0 \<lparr>k_sub = sq_view U (ring q'), k_held = [], k_posted = [], k_descs = descs, k_store = f0\<rparr> q' []"
| step: "\<lbrakk>dev_reach U A B sz n f0 k q tr; dev_round U A B sz acts (k, q) es (k', q')\<rbrakk>
    \<Longrightarrow> dev_reach U A B sz n f0 k' q' (tr @ es)"

section \<open>The simulation relation\<close>

text \<open>Where the tags are: with the kernel, in an entry or a completion.\<close>

definition carried :: "'f kernel \<Rightarrow> nat list" where
  "carried k = map (utag \<circ> sqe_user_data) (k_sub k @ k_held k) @ map (utag \<circ> cqe_user_data) (k_posted k)"

text \<open>The entry the program makes for a request, whatever the backing file is.\<close>

definition entry_for :: "abi \<Rightarrow> iod \<Rightarrow> sqe \<Rightarrow> 'f backing \<Rightarrow> bool" where
  "entry_for A d s B \<longleftrightarrow> exec_entry B s = perform A B d"

definition entry_ok :: "abi \<Rightarrow> 'f backing \<Rightarrow> (nat \<Rightarrow> slot) \<Rightarrow> bool \<Rightarrow> sqe \<Rightarrow> bool" where
  "entry_ok A B sl queued s \<longleftrightarrow>
     (if is_target_io (sqe_user_data s)
      then \<not> is_command s \<and> (\<exists>d. sl (utag (sqe_user_data s)) = Pending d \<and> entry_for A d s B)
      else is_command s \<and> command_tag s = utag (sqe_user_data s)
        \<and> sl (utag (sqe_user_data s)) =
            (if queued \<and> sqe_off s = ucast (abi_commit_and_fetch_req A) then Answered (cmd_result (sqe_cmd s)) else Free))"

definition answer_ok :: "abi \<Rightarrow> (nat \<Rightarrow> slot) \<Rightarrow> (nat \<Rightarrow> iod) \<Rightarrow> cqe \<Rightarrow> bool" where
  "answer_ok A sl descs c \<longleftrightarrow>
     (let t = utag (cqe_user_data c) in
      if is_target_io (cqe_user_data c) then sl t = Answered (cqe_res c)
      else if cqe_res c = abi_res_ok A then sl t = Pending (descs t) \<and> sent A (descs t)
      else sl t = Free)"

definition sim :: "abi \<Rightarrow> 'f backing \<Rightarrow> (nat \<Rightarrow> slot) \<Rightarrow> 'f kernel \<Rightarrow> bool" where
  "sim A B sl k \<longleftrightarrow> distinct (carried k) \<and> (\<forall>s \<in> set (k_sub k). entry_ok A B sl True s)
     \<and> (\<forall>s \<in> set (k_held k). entry_ok A B sl False s) \<and> (\<forall>c \<in> set (k_posted k). answer_ok A sl (k_descs k) c)
     \<and> (\<forall>t. sl t \<noteq> Free \<longrightarrow> t \<in> set (carried k))"

section \<open>The kernel's steps are steps of the device\<close>

lemma simD:
  assumes "sim A B sl k"
  shows "distinct (carried k)" and "s \<in> set (k_sub k) \<Longrightarrow> entry_ok A B sl True s"
    and "s \<in> set (k_held k) \<Longrightarrow> entry_ok A B sl False s" and "c \<in> set (k_posted k) \<Longrightarrow> answer_ok A sl (k_descs k) c"
    and "sl t \<noteq> Free \<Longrightarrow> t \<in> set (carried k)"
  using assms by (auto simp: sim_def)

lemma simI:
  assumes "distinct (carried k)" and "\<And>s. s \<in> set (k_sub k) \<Longrightarrow> entry_ok A B sl True s"
    and "\<And>s. s \<in> set (k_held k) \<Longrightarrow> entry_ok A B sl False s" and "\<And>c. c \<in> set (k_posted k) \<Longrightarrow> answer_ok A sl (k_descs k) c"
    and "\<And>t. sl t \<noteq> Free \<Longrightarrow> t \<in> set (carried k)"
  shows "sim A B sl k"
  using assms by (simp add: sim_def)

lemma carried_sub: "s \<in> set (k_sub k) \<Longrightarrow> utag (sqe_user_data s) \<in> set (carried k)"
  and carried_held: "s \<in> set (k_held k) \<Longrightarrow> utag (sqe_user_data s) \<in> set (carried k)"
  and carried_posted: "c \<in> set (k_posted k) \<Longrightarrow> utag (cqe_user_data c) \<in> set (carried k)"
  by (simp_all add: carried_def)

text \<open>Slots that differ only in a tag that is not carried by the entries in question.\<close>

lemma entry_ok_same:
  "entry_ok A B sl b s \<Longrightarrow> sl' (utag (sqe_user_data s)) = sl (utag (sqe_user_data s)) \<Longrightarrow> entry_ok A B sl' b s"
  by (simp add: entry_ok_def)

lemma answer_ok_same:
  "answer_ok A sl descs c \<Longrightarrow> sl' (utag (cqe_user_data c)) = sl (utag (cqe_user_data c))
    \<Longrightarrow> descs' (utag (cqe_user_data c)) = descs (utag (cqe_user_data c)) \<Longrightarrow> answer_ok A sl' descs' c"
  by (simp add: answer_ok_def Let_def)

lemma answer_ok_request:
  "answer_ok A sl descs c \<Longrightarrow> cqe_res c = abi_res_ok A \<Longrightarrow> \<not> is_target_io (cqe_user_data c)
    \<Longrightarrow> loop_request A (descs (utag (cqe_user_data c)))"
  by (simp add: answer_ok_def Let_def sent_def)

text \<open>Taking an entry: a commit finishes the request of its tag, a fetch changes nothing.\<close>

lemma sim_take:
  assumes sim: "sim A B sl k" and sub: "k_sub k = s # rest"
    and s': "entry_ok A B sl' False s" and same: "\<And>u. u \<noteq> utag (sqe_user_data s) \<Longrightarrow> sl' u = sl u"
  shows "sim A B sl' (k\<lparr>k_sub := rest, k_held := k_held k @ [s]\<rparr>)"
    (is "sim A B sl' ?k")
proof -
  let ?t = "utag (sqe_user_data s)"
  have d: "distinct (?t # map (utag \<circ> sqe_user_data) (rest @ k_held k) @ map (utag \<circ> cqe_user_data) (k_posted k))"
    using simD(1) [OF sim] by (simp add: carried_def sub)
  have nt: "?t \<notin> (utag \<circ> sqe_user_data) ` set (rest @ k_held k)" "?t \<notin> (utag \<circ> cqe_user_data) ` set (k_posted k)"
    using d by (simp_all only: distinct.simps set_append set_map Un_iff not_False_eq_True de_Morgan_disj conj_imp_eq_imp_imp simp_thms)
  have other: "utag (sqe_user_data x) \<noteq> ?t" if "x \<in> set (rest @ k_held k)" for x using nt(1) that by (metis comp_apply image_eqI)
  have other': "utag (cqe_user_data c) \<noteq> ?t" if "c \<in> set (k_posted k)" for c using nt(2) that by (metis comp_apply image_eqI)
  have c: "set (carried ?k) = set (carried k)" by (auto simp: carried_def sub)
  show ?thesis
  proof (rule simI)
    show "distinct (carried ?k)" using d by (simp add: carried_def)
    show "entry_ok A B sl' True x" if "x \<in> set (k_sub ?k)" for x
    proof -
      have x: "x \<in> set (k_sub k)" "x \<in> set (rest @ k_held k)" using that by (simp_all add: sub)
      show ?thesis by (rule entry_ok_same, rule simD(2) [OF sim x(1)], rule same, rule other [OF x(2)])
    qed
    show "entry_ok A B sl' False x" if "x \<in> set (k_held ?k)" for x
    proof (cases "x \<in> set (k_held k)")
      case True
      then have x: "x \<in> set (rest @ k_held k)" by simp
      show ?thesis by (rule entry_ok_same, rule simD(3) [OF sim True], rule same, rule other [OF x])
    qed (use that s' in simp)
    show "answer_ok A sl' (k_descs ?k) x" if "x \<in> set (k_posted ?k)" for x
    proof -
      have x: "x \<in> set (k_posted k)" using that by simp
      show ?thesis by (rule answer_ok_same, rule simD(4) [OF sim x], rule same, rule other' [OF x]) simp
    qed
    show "u \<in> set (carried ?k)" if "sl' u \<noteq> Free" for u
      unfolding c using simD(5) [OF sim, of u] that same [of u] by (cases "u = ?t") (simp_all add: carried_def sub)
  qed
qed

text \<open>Posting a completion for a held entry moves its tag and its tag only.\<close>

lemma sim_post:
  assumes sim: "sim A B sl k" and i: "i < length (k_held k)" and t: "t = utag (sqe_user_data (k_held k ! i))"
    and ok: "answer_ok A sl' descs' \<lparr>cqe_user_data = sqe_user_data (k_held k ! i), cqe_res = r\<rparr>"
    and same: "\<And>u. u \<noteq> t \<Longrightarrow> sl' u = sl u" "\<And>u. u \<noteq> t \<Longrightarrow> descs' u = k_descs k u"
  shows "sim A B sl' ((post i r k)\<lparr>k_descs := descs', k_store := f\<rparr>)"
    (is "sim A B sl' ?k")
proof -
  let ?s = "k_held k ! i"
  define xs ys where "xs = take i (k_held k)" and "ys = drop (Suc i) (k_held k)"
  have held: "k_held k = xs @ ?s # ys" unfolding xs_def ys_def by (rule id_take_nth_drop [OF i])
  have held': "k_held ?k = xs @ ys" by (simp add: post_def without_def xs_def ys_def)
  have fr: "k_sub ?k = k_sub k" "k_descs ?k = descs'"
    "k_posted ?k = k_posted k @ [\<lparr>cqe_user_data = sqe_user_data ?s, cqe_res = r\<rparr>]" by (simp_all add: post_def)
  have hs: "set (k_held k) = insert ?s (set (xs @ ys))" by (subst held) auto
  have perm: "mset (carried k) = add_mset t (mset (map (utag \<circ> sqe_user_data) (k_sub k @ xs @ ys) @ map (utag \<circ> cqe_user_data) (k_posted k)))"
    unfolding carried_def by (subst held) (simp add: t)
  have perm': "mset (carried ?k) = mset (carried k)"
    unfolding perm unfolding carried_def fr held' by (simp add: t)
  have d: "distinct (t # map (utag \<circ> sqe_user_data) (k_sub k @ xs @ ys) @ map (utag \<circ> cqe_user_data) (k_posted k))"
    using simD(1) [OF sim] perm by (metis mset.simps(2) mset_eq_imp_distinct_iff)
  have nt: "t \<notin> (utag \<circ> sqe_user_data) ` set (k_sub k @ xs @ ys)" "t \<notin> (utag \<circ> cqe_user_data) ` set (k_posted k)"
    using d by (simp_all only: distinct.simps set_append set_map Un_iff de_Morgan_disj simp_thms)
  have other: "utag (sqe_user_data x) \<noteq> t" if "x \<in> set (k_sub k @ xs @ ys)" for x using nt(1) that by (metis comp_apply image_eqI)
  have other': "utag (cqe_user_data c) \<noteq> t" if "c \<in> set (k_posted k)" for c using nt(2) that by (metis comp_apply image_eqI)
  have c: "set (carried ?k) = set (carried k)" by (rule mset_eq_setD [OF perm'])
  show ?thesis
  proof (rule simI)
    show "distinct (carried ?k)" using simD(1) [OF sim] perm' by (metis mset_eq_imp_distinct_iff)
    show "entry_ok A B sl' True x" if "x \<in> set (k_sub ?k)" for x
    proof -
      have x: "x \<in> set (k_sub k)" "x \<in> set (k_sub k @ xs @ ys)" using that by (simp_all add: fr)
      show ?thesis by (rule entry_ok_same, rule simD(2) [OF sim x(1)], rule same(1), rule other [OF x(2)])
    qed
    show "entry_ok A B sl' False x" if "x \<in> set (k_held ?k)" for x
    proof -
      have xy: "x \<in> set (xs @ ys)" using that by (simp only: held')
      have x: "x \<in> set (k_held k)" "x \<in> set (k_sub k @ xs @ ys)" using xy unfolding hs by simp_all
      show ?thesis by (rule entry_ok_same, rule simD(3) [OF sim x(1)], rule same(1), rule other [OF x(2)])
    qed
    show "answer_ok A sl' (k_descs ?k) x" if "x \<in> set (k_posted ?k)" for x
    proof (cases "x \<in> set (k_posted k)")
      case True
      show ?thesis
        unfolding fr by (rule answer_ok_same, rule simD(4) [OF sim True], rule same(1), rule other' [OF True], rule same(2), rule other' [OF True])
    qed (use that ok fr in auto)
    show "u \<in> set (carried ?k)" if "sl' u \<noteq> Free" for u
      unfolding c using simD(5) [OF sim, of u] that same(1) [of u] carried_held [OF nth_mem [OF i]] by (cases "u = t") (simp_all add: t)
  qed
qed

lemma kernel_act_sim:
  assumes sim: "sim A B sl k" and act: "kernel_act A B a k = Some (es, k')"
  obtains sl' where "device_run A B es (sl, k_store k) = Some (sl', k_store k')" and "sim A B sl' k'"
proof (cases a)
  case Take
  then obtain s rest where sub: "k_sub k = s # rest"
    and es: "es = (if is_command s \<and> sqe_off s = ucast (abi_commit_and_fetch_req A) then [Finish (command_tag s) (cmd_result (sqe_cmd s))] else [])"
    and k': "k' = k\<lparr>k_sub := rest, k_held := k_held k @ [s]\<rparr>"
    using act by (auto split: list.splits)
  let ?t = "utag (sqe_user_data s)"
  have s: "entry_ok A B sl True s" by (rule simD(2) [OF sim]) (simp add: sub)
  show thesis
  proof (cases "is_command s \<and> sqe_off s = ucast (abi_commit_and_fetch_req A)")
    case True
    then have t: "\<not> is_target_io (sqe_user_data s)" "command_tag s = ?t" "sl ?t = Answered (cmd_result (sqe_cmd s))"
      using s by (auto simp: entry_ok_def split: if_splits)
    have "sim A B (sl(?t := Free)) k'"
      unfolding k' by (rule sim_take [OF sim sub]) (use t True in \<open>simp_all add: entry_ok_def\<close>)
    then show thesis by (rule that [rotated]) (use t True in \<open>simp add: es k'\<close>)
  next
    case False
    have "sim A B sl k'"
      unfolding k' by (rule sim_take [OF sim sub]) (use s False in \<open>auto simp: entry_ok_def split: if_splits\<close>)
    then show thesis by (rule that [rotated]) (use False in \<open>auto simp: es k'\<close>)
  qed
next
  case (Execute i)
  let ?s = "k_held k ! i"
  let ?t = "utag (sqe_user_data ?s)"
  from Execute act have i: "i < length (k_held k)" and nc: "\<not> is_command ?s" by (simp_all split: if_splits)
  obtain r f where ex: "exec_entry B ?s (k_store k) = (r, f)" by (cases "exec_entry B ?s (k_store k)")
  have k': "k' = (post i r k)\<lparr>k_store := f\<rparr>" and es: "es = [Perform ?t]" using Execute act i nc by (simp_all add: ex)
  have "entry_ok A B sl False ?s" by (rule simD(3) [OF sim]) (simp add: i)
  then obtain d where tgt: "is_target_io (sqe_user_data ?s)" and d: "sl ?t = Pending d" "entry_for A d ?s B"
    using nc by (auto simp: entry_ok_def split: if_splits)
  have pf: "perform A B d (k_store k) = (r, f)" using d(2) ex by (simp add: entry_for_def)
  have "sim A B (sl(?t := Answered r)) ((post i r k)\<lparr>k_descs := k_descs k, k_store := f\<rparr>)"
    by (rule sim_post [OF sim i refl]) (use tgt in \<open>simp_all add: answer_ok_def\<close>)
  moreover have "(post i r k)\<lparr>k_descs := k_descs k, k_store := f\<rparr> = k'" by (simp add: k' post_def)
  ultimately have "sim A B (sl(?t := Answered r)) k'" by simp
  then show thesis by (rule that [rotated]) (use d pf in \<open>simp add: es k'\<close>)
next
  case (Deliver i d)
  let ?s = "k_held k ! i"
  let ?t = "utag (sqe_user_data ?s)"
  from Deliver act have i: "i < length (k_held k)" and c: "is_command ?s" and st: "sent A d"
    by (simp_all split: if_splits)
  have "entry_ok A B sl False ?s" by (rule simD(3) [OF sim]) (simp add: i)
  then have t: "\<not> is_target_io (sqe_user_data ?s)" "command_tag ?s = ?t" "sl ?t = Free"
    using c by (auto simp: entry_ok_def split: if_splits)
  have k': "k' = (post i (abi_res_ok A) k)\<lparr>k_descs := (k_descs k)(?t := d)\<rparr>" and es: "es = [Start ?t d]"
    using Deliver act i c st t by (simp_all add: Let_def)
  have "sim A B (sl(?t := Pending d)) ((post i (abi_res_ok A) k)\<lparr>k_descs := (k_descs k)(?t := d), k_store := k_store k\<rparr>)"
    by (rule sim_post [OF sim i refl]) (use t st in \<open>simp_all add: answer_ok_def\<close>)
  moreover have "(post i (abi_res_ok A) k)\<lparr>k_descs := (k_descs k)(?t := d), k_store := k_store k\<rparr> = k'"
    by (simp add: k' post_def)
  ultimately have "sim A B (sl(?t := Pending d)) k'" by simp
  then show thesis by (rule that [rotated]) (use t in \<open>simp add: es k' post_def\<close>)
next
  case (Fail i r)
  let ?s = "k_held k ! i"
  from Fail act have i: "i < length (k_held k)" and c: "is_command ?s" and r: "r \<noteq> abi_res_ok A"
    and es: "es = []" and k': "k' = post i r k" by (simp_all split: if_splits)
  have "entry_ok A B sl False ?s" by (rule simD(3) [OF sim]) (simp add: i)
  then have t: "\<not> is_target_io (sqe_user_data ?s)" "sl (utag (sqe_user_data ?s)) = Free"
    using c by (auto simp: entry_ok_def split: if_splits)
  have "sim A B sl ((post i r k)\<lparr>k_descs := k_descs k, k_store := k_store k\<rparr>)"
    by (rule sim_post [OF sim i refl]) (use t r in \<open>simp_all add: answer_ok_def Let_def\<close>)
  moreover have "(post i r k)\<lparr>k_descs := k_descs k, k_store := k_store k\<rparr> = k'" by (simp add: k' post_def)
  ultimately have "sim A B sl k'" by simp
  then show thesis by (rule that [rotated]) (simp add: es k' post_def)
next
  case (Touch g)
  then have es: "es = [Touched g]" and k': "k' = k\<lparr>k_store := g (k_store k)\<rparr>" using act by simp_all
  have "sim A B sl k'" using sim by (simp add: k' sim_def carried_def)
  then show thesis by (rule that [rotated]) (simp add: es k')
qed

lemma kernel_run_sim:
  assumes "sim A B sl k" and "kernel_run A B acts k = Some (es, k')"
  shows "\<exists>sl'. device_run A B es (sl, k_store k) = Some (sl', k_store k') \<and> sim A B sl' k'"
  using assms
proof (induction acts arbitrary: k sl es)
  case (Cons a acts)
  obtain es1 k1 es2 where a: "kernel_act A B a k = Some (es1, k1)" and r: "kernel_run A B acts k1 = Some (es2, k')"
    and es: "es = es1 @ es2" using Cons.prems(2) by (auto split: option.splits)
  obtain sl1 where d1: "device_run A B es1 (sl, k_store k) = Some (sl1, k_store k1)" and s1: "sim A B sl1 k1"
    by (rule kernel_act_sim [OF Cons.prems(1) a])
  from Cons.IH [OF s1 r] show ?case using d1 by (auto simp: es device_run_append)
qed auto

text \<open>The kernel neither makes nor loses a cookie, and takes entries in order.\<close>

definition cookies :: "'f kernel \<Rightarrow> u64 multiset" where
  "cookies k = mset (map sqe_user_data (k_sub k)) + mset (map sqe_user_data (k_held k)) + mset (map cqe_user_data (k_posted k))"

lemma mset_without: "i < length xs \<Longrightarrow> mset xs = add_mset (xs ! i) (mset (without i xs))"
  by (subst id_take_nth_drop, assumption) (simp add: without_def)

lemma post_cookies: "i < length (k_held k) \<Longrightarrow> cookies (post i r k) = cookies k"
  using mset_without [of i "k_held k"] by (simp add: cookies_def post_def)

lemma kernel_act_cookies:
  assumes "kernel_act A B a k = Some (es, k')"
  shows "cookies k' = cookies k \<and> (\<exists>m. k_sub k' = drop m (k_sub k))"
proof (cases a)
  case Take
  then obtain s rest where "k_sub k = s # rest" "k' = k\<lparr>k_sub := rest, k_held := k_held k @ [s]\<rparr>"
    using assms by (auto split: list.splits)
  then show ?thesis by (auto simp: cookies_def intro: exI [of _ 1])
next
  case (Execute i)
  then obtain r f where "i < length (k_held k)" "k' = (post i r k)\<lparr>k_store := f\<rparr>"
    using assms by (auto split: if_splits prod.splits)
  then show ?thesis using post_cookies [of i k r] by (auto simp: cookies_def post_def intro: exI [of _ 0])
next
  case (Deliver i d)
  then show ?thesis
    using assms post_cookies [of i k "abi_res_ok A"] by (auto simp: cookies_def post_def Let_def split: if_splits intro: exI [of _ 0])
next
  case (Fail i r)
  then show ?thesis
    using assms post_cookies [of i k r] by (auto simp: post_def split: if_splits intro: exI [of _ 0])
next
  case (Touch g)
  then show ?thesis using assms by (auto simp: cookies_def intro: exI [of _ 0])
qed

lemma kernel_run_cookies:
  "kernel_run A B acts k = Some (es, k') \<Longrightarrow> cookies k' = cookies k \<and> (\<exists>m. k_sub k' = drop m (k_sub k))"
proof (induction acts arbitrary: k es)
  case (Cons a acts)
  then obtain es1 k1 es2 where a: "kernel_act A B a k = Some (es1, k1)" and r: "kernel_run A B acts k1 = Some (es2, k')"
    by (auto split: option.splits)
  from kernel_act_cookies [OF a] Cons.IH [OF r] show ?case by (metis drop_drop)
qed (auto intro: exI [of _ 0])

end
