(* ===== verification/Ublk_Device_Sim.thy ===== *)
theory Ublk_Device_Sim
  imports Ublk_Device
begin

text \<open>
  The second half of the simulation of \<open>Ublk_Device\<close>: the queue thread moves tags from completions to
  entries, never a slot of the device, and a whole round of the composed system keeps the invariant.
\<close>

section \<open>The queue thread keeps the simulation\<close>

lemma unat_sectors:
  "512 * unat (w :: u32) < 2 ^ 32 \<Longrightarrow> unat (push_bit 9 w) = 512 * unat w"
  "512 * unat (x :: u64) < 2 ^ 64 \<Longrightarrow> unat (push_bit 9 x) = 512 * unat x"
  by (simp_all add: push_bit_eq_mult unat_word_ariths mult.commute)

lemma loop_prep_entry:
  assumes "uring_ok U n" and "abi_ok A" and "sent A d" and prep: "loop_prep U A d = Inr prep"
  shows "entry_for A d ((prep s)\<lparr>sqe_user_data := ud\<rparr>) B \<and> \<not> is_command ((prep s)\<lparr>sqe_user_data := ud\<rparr>)"
proof -
  let ?op = "abi_get_op A (iod_op_flags d)"
  have dist: "distinct [abi_op_read A, abi_op_write A, abi_op_flush A, abi_op_discard A, abi_op_write_zeroes A]"
    using assms(2) by (simp add: abi_ok_def)
  have op: "?op = abi_op_read A \<or> ?op = abi_op_write A \<or> ?op = abi_op_flush A"
    and len: "unat (push_bit 9 (iod_nr_sectors d)) = 512 * unat (iod_nr_sectors d)"
    and off: "unat (push_bit 9 (iod_start_sector d)) = 512 * unat (iod_start_sector d)"
    using assms(3) unat_sectors by (auto simp: sent_def loop_request_def)
  note defs = loop_prep_def Let_def entry_for_def exec_entry_def perform_def is_command_def uring_prep [OF assms(1)] fun_eq_iff len off
  show ?thesis
    using op
  proof (elim disjE)
    assume o: "?op = abi_op_read A"
    then have "prep = (\<lambda>s. (prep_rw U Op_Read 1 (iod_addr d) (push_bit 9 (iod_nr_sectors d)) (push_bit 9 (iod_start_sector d)) s)\<lparr>sqe_fixed_file := True\<rparr>)"
      using prep dist by (simp add: loop_prep_def Let_def)
    then show ?thesis using o by (simp add: defs)
  next
    assume o: "?op = abi_op_write A"
    then have "prep = (\<lambda>s. (prep_rw U Op_Write 1 (iod_addr d) (push_bit 9 (iod_nr_sectors d)) (push_bit 9 (iod_start_sector d)) s)\<lparr>sqe_fixed_file := True\<rparr>)"
      using prep dist by (auto simp: loop_prep_def Let_def)
    then show ?thesis using o dist by (auto simp: defs)
  next
    assume o: "?op = abi_op_flush A"
    then have "prep = (\<lambda>s. (prep_rw U Op_Sync_File_Range 1 0 (push_bit 9 (iod_nr_sectors d)) (push_bit 9 (iod_start_sector d)) s)
        \<lparr>sqe_rw_flags := abi_fsync_datasync A, sqe_fixed_file := True\<rparr>)"
      using prep by (simp add: loop_prep_def Let_def)
    then show ?thesis using o dist by (auto simp: defs)
  qed
qed

text \<open>A completion that is answered by an entry for its tag, and one that is not.\<close>

lemma sim_answered:
  assumes sim: "sim A B sl (k\<lparr>k_sub := v, k_posted := c # cs\<rparr>)" and s: "entry_ok A B sl True s"
    and t: "utag (sqe_user_data s) = utag (cqe_user_data c)"
  shows "sim A B sl (k\<lparr>k_sub := v @ [s], k_posted := cs\<rparr>)"
    (is "sim A B sl ?k'")
proof -
  let ?k = "k\<lparr>k_sub := v, k_posted := c # cs\<rparr>"
  have p: "mset (carried ?k') = mset (carried ?k)" by (simp add: carried_def t)
  show ?thesis
    using simD [OF sim] s mset_eq_imp_distinct_iff [OF p] mset_eq_setD [OF p] by (intro simI) auto
qed

lemma sim_dropped:
  assumes sim: "sim A B sl (k\<lparr>k_sub := v, k_posted := c # cs\<rparr>)" and f: "sl (utag (cqe_user_data c)) = Free"
  shows "sim A B sl (k\<lparr>k_sub := v, k_posted := cs\<rparr>)"
    (is "sim A B sl ?k'")
proof -
  let ?k = "k\<lparr>k_sub := v, k_posted := c # cs\<rparr>"
  have p: "mset (carried ?k) = add_mset (utag (cqe_user_data c)) (mset (carried ?k'))" by (simp add: carried_def)
  have d: "distinct (carried ?k')" using simD(1) [OF sim] by (simp add: carried_def)
  have "set (carried ?k) = insert (utag (cqe_user_data c)) (set (carried ?k'))" by (auto simp: carried_def)
  then have "u \<in> set (carried ?k')" if "sl u \<noteq> Free" for u using simD(5) [OF sim that] f that by auto
  then show ?thesis using simD(2-4) [OF sim] d by (intro simI) simp_all
qed

lemma tag_word: "unat (word_of_nat (utag ud) :: u16) = utag ud"
  unfolding utag_def by (rule unat_of_nat_small) (use unat_user_data_to_tag [of ud] in simp)

lemma handle_sim:
  assumes ring: "uring_ok U n" and abi: "abi_ok A" and inv: "loop_inv U (loop_tgt_ops U A) n K q" and ud: "cqe_user_data c \<in># K"
    and sim: "sim A B sl (k\<lparr>k_sub := sq_view U (ring q), k_posted := c # cs\<rparr>)"
  obtains q' where "ublk_handle_cqe A (loop_tgt_ops U A) (k_descs k) c q = Inr q'"
    and "loop_inv U (loop_tgt_ops U A) n (K - {#cqe_user_data c#}) q'"
    and "sim A B sl (k\<lparr>k_sub := sq_view U (ring q'), k_posted := cs\<rparr>)" and "q_state q' = stop_after A c q"
proof -
  let ?t = "utag (cqe_user_data c)" and ?iods = "k_descs k"
  have qi: "queue_inv U K {} 0 q" and n: "q_depth q \<le> n" using inv by (simp_all add: loop_inv_def)
  have ans: "answer_ok A sl ?iods c" using simD(4) [OF sim, of c] by simp
  then have req: "cqe_res c = abi_res_ok A \<Longrightarrow> \<not> is_target_io (cqe_user_data c) \<Longrightarrow> loop_request A (?iods ?t)"
    by (auto simp: answer_ok_def Let_def sent_def)
  obtain q' where h: "ublk_handle_cqe A (loop_tgt_ops U A) ?iods c q = Inr q'"
    and inv': "loop_inv U (loop_tgt_ops U A) n (K - {#cqe_user_data c#}) q'" and st: "q_state q' = stop_after A c q"
    using loop.handle_cqe_keeps [OF ring abi inv ud, where iods = ?iods] req by blast
  have "sim A B sl (k\<lparr>k_sub := sq_view U (ring q'), k_posted := cs\<rparr>)"
  proof (cases "is_target_io (cqe_user_data c)")
    case True
    have cp: "queue_inv U (K - {#cqe_user_data c#}) {?t} 1 q" "io_flags (ios q ! ?t) = 0"
      using queue_inv_completed [OF qi ud, of q 1] True by simp_all
    obtain q1 s where q1: "ublk_loop_io_done U A ?t c q = Inr q1" "sq_view U (ring q1) = sq_view U (ring q) @ [s]"
      and s: "cmd_result (sqe_cmd s) = cqe_res c" "utag (sqe_user_data s) = ?t" "sqe_off s = ucast (abi_commit_and_fetch_req A)"
        "sqe_opcode s = Op_Uring_Cmd" "cmd_tag (sqe_cmd s) = word_of_nat ?t" "\<not> is_target_io (sqe_user_data s)"
      by (rule loop_io_done_serves [OF ring abi n cp])
    have "q1 = q'" using h q1 True by (simp add: ublk_handle_cqe_def ublksrv_handle_tgt_cqe_def)
    moreover have "entry_ok A B sl True s"
      using ans s True tag_word by (simp add: entry_ok_def is_command_def command_tag_def answer_ok_def)
    ultimately show ?thesis using sim_answered [OF sim _ s(2)] q1 by simp
  next
    case False
    obtain q2 where h2: "ublk_handle_cqe A (loop_tgt_ops U A) ?iods c q =
         (if cqe_res c = abi_res_ok A then seq (queue_io (loop_tgt_ops U A) ?iods ?t q2) (\<lambda>(_, q3). Inr q3)
          else with_io ?t (\<lambda>io. io\<lparr>io_flags := UBLKSRV_IO_FREE\<rparr>) q2)"
      and q2: "queue_inv U (K - {#cqe_user_data c#}) {?t} 0 q2" "q_depth q2 = q_depth q" "ring q2 = ring q"
      by (rule command_completion [OF qi ud False, of A "loop_tgt_ops U A" ?iods])
    show ?thesis
    proof (cases "cqe_res c = abi_res_ok A")
      case True
      have d: "sl ?t = Pending (?iods ?t)" "sent A (?iods ?t)" using ans False True by (simp_all add: answer_ok_def Let_def)
      have n2: "q_depth q2 \<le> n" using n q2(2) by simp
      obtain q3 prep s ud where q3: "ublk_loop_queue_io U A ?iods ?t q2 = Inr (0, q3)" and p: "loop_prep U A (?iods ?t) = Inr prep"
        and v: "sq_view U (ring q3) = sq_view U (ring q2) @ [(prep s)\<lparr>sqe_user_data := ud\<rparr>]" and u: "utag ud = ?t" "is_target_io ud"
        by (rule loop_queue_io_serves [OF ring abi q2(1) n2, where iods = ?iods, OF req [OF True False]])
      have "q3 = q'" using h h2 q3 True by simp
      moreover have "entry_ok A B sl True ((prep s)\<lparr>sqe_user_data := ud\<rparr>)"
        using d u loop_prep_entry [OF ring abi d(2) p, where s = s and ud = ud and B = B] by (simp add: entry_ok_def)
      ultimately show ?thesis using sim_answered [OF sim, of "(prep s)\<lparr>sqe_user_data := ud\<rparr>"] v u q2(3) by simp
    next
      case fail: False
      have "ring q' = ring q2" using h h2 fail by (auto simp: with_io_def split: if_splits)
      moreover have "sl ?t = Free" using ans False fail by (simp add: answer_ok_def Let_def)
      ultimately show ?thesis using sim_dropped [OF sim] q2(3) by simp
    qed
  qed
  with h inv' show thesis by (rule that [OF _ _ _ st])
qed

lemma reap_sim:
  assumes ring: "uring_ok U n" and abi: "abi_ok A"
  shows "\<lbrakk>loop_inv U (loop_tgt_ops U A) n K q; mset (map cqe_user_data cs) \<subseteq># K;
      sim A B sl (k\<lparr>k_sub := sq_view U (ring q), k_posted := cs\<rparr>)\<rbrakk>
    \<Longrightarrow> \<exists>q'. reap_cqes A (loop_tgt_ops U A) (k_descs k) cs q = Inr q'
          \<and> sim A B sl (k\<lparr>k_sub := sq_view U (ring q'), k_posted := []\<rparr>)
          \<and> (\<not> queue_stopping q \<and> (\<forall>c \<in> set cs. is_target_io (cqe_user_data c) \<or> cqe_res c \<noteq> abi_res_abort A) \<longrightarrow> \<not> queue_stopping q')"
proof (induction cs arbitrary: K q)
  case (Cons c cs)
  have cK: "cqe_user_data c \<in># K" using Cons.prems(2) by (auto dest: mset_subset_eqD)
  have sub: "mset (map cqe_user_data cs) \<subseteq># K - {#cqe_user_data c#}" using Cons.prems(2) by (simp add: insert_subset_eq_iff)
  obtain q1 where "ublk_handle_cqe A (loop_tgt_ops U A) (k_descs k) c q = Inr q1"
    and i1: "loop_inv U (loop_tgt_ops U A) n (K - {#cqe_user_data c#}) q1"
    and s1: "sim A B sl (k\<lparr>k_sub := sq_view U (ring q1), k_posted := cs\<rparr>)" and st: "q_state q1 = stop_after A c q"
    by (rule handle_sim [OF ring abi Cons.prems(1) cK Cons.prems(3)])
  moreover have "\<not> queue_stopping q \<Longrightarrow> is_target_io (cqe_user_data c) \<or> cqe_res c \<noteq> abi_res_abort A \<Longrightarrow> \<not> queue_stopping q1"
    using st by (auto simp: queue_stopping_bit stop_after_def split: if_splits)
  ultimately show ?case using Cons.IH [OF i1 sub s1] by auto
qed simp

section \<open>Rounds\<close>

definition dev_inv :: "'r uring \<Rightarrow> abi \<Rightarrow> 'f backing \<Rightarrow> nat \<Rightarrow> (nat \<Rightarrow> slot) \<Rightarrow> 'f kernel \<Rightarrow> 'r ublk_queue \<Rightarrow> bool" where
  "dev_inv U A B n sl k q \<longleftrightarrow> loop_inv U (loop_tgt_ops U A) n (mset (map sqe_user_data (k_held k))) q \<and> sim A B sl k
     \<and> k_sub k = sq_view U (ring q) \<and> k_posted k = []"

text \<open>
  In the middle of a round: \<open>from\<close> are the entries the round began with, of which the kernel has taken
  some; \<open>K\<close> are the cookies it held then.
\<close>

definition mid_inv :: "'r uring \<Rightarrow> abi \<Rightarrow> 'f backing \<Rightarrow> nat \<Rightarrow> (nat \<Rightarrow> slot) \<Rightarrow> sqe list \<Rightarrow> 'f kernel \<Rightarrow> 'r ublk_queue \<Rightarrow> bool" where
  "mid_inv U A B n sl from k q \<longleftrightarrow>
     (\<exists>K. loop_inv U (loop_tgt_ops U A) n K q \<and> K + mset (map sqe_user_data from) = cookies k)
     \<and> sim A B sl k \<and> from = sq_view U (ring q) \<and> (\<exists>j. k_sub k = drop j from)"

lemma dev_mid_inv:
  assumes "dev_inv U A B n sl k q"
  shows "mid_inv U A B n sl (k_sub k) k q"
  using assms by (auto simp: dev_inv_def mid_inv_def cookies_def ac_simps intro!: exI [of _ 0])

lemma mid_inv_later:
  assumes "mid_inv U A B n sl from k q" and "cookies k' = cookies k \<and> (\<exists>m. k_sub k' = drop m (k_sub k))" and "sim A B sl' k'"
  shows "mid_inv U A B n sl' from k' q"
proof -
  from assms(1) obtain j K where j: "k_sub k = drop j from" and "loop_inv U (loop_tgt_ops U A) n K q"
    and "K + mset (map sqe_user_data from) = cookies k" and "from = sq_view U (ring q)"
    unfolding mid_inv_def by blast
  moreover have "\<exists>j. k_sub k' = drop j from" using assms(2) j by (metis drop_drop)
  ultimately show ?thesis using assms(2,3) unfolding mid_inv_def by auto
qed

lemmas mid_inv_act = mid_inv_later [OF _ kernel_act_cookies]
lemmas mid_inv_run = mid_inv_later [OF _ kernel_run_cookies]

text \<open>What the kernel leaves is an event the thread must be ready for.\<close>

lemma round_event_possible:
  assumes ring: "uring_ok U n" and ck: "K + mset (map sqe_user_data (k_sub k)) = cookies k'" and sub: "k_sub k = sq_view U (ring q)"
    and j: "k_sub k' = drop j (k_sub k)" and ret: "ret = - ETIME \<longrightarrow> process_io_timeout q \<noteq> None"
    and req: "\<forall>c \<in> set (k_posted k'). cqe_res c = abi_res_ok A \<and> \<not> is_target_io (cqe_user_data c)
      \<longrightarrow> request A (k_descs k' (utag (cqe_user_data c)))"
  shows "event_ok U A request K q (round_event ret k k')"
    and "K + taken U (round_event ret k k') q = mset (map sqe_user_data (k_held k')) + reaped (round_event ret k k')"
    and "sq_view U (consume U (ev_consumed (round_event ret k k')) (ring q)) = k_sub k'"
proof -
  let ?ev = "round_event ret k k'"
  define c where "c = ev_consumed ?ev"
  have c: "c \<le> length (sq_view U (ring q))" "k_sub k' = drop c (sq_view U (ring q))"
    unfolding c_def round_event_def by (cases "j \<le> length (k_sub k)"; simp add: j sub)+
  have "mset (map sqe_user_data (sq_view U (ring q))) =
      mset (map sqe_user_data (take c (sq_view U (ring q)))) + mset (map sqe_user_data (drop c (sq_view U (ring q))))"
    by (metis append_take_drop_id map_append mset_append)
  then show K: "K + taken U ?ev q = mset (map sqe_user_data (k_held k')) + reaped ?ev"
    using ck by (simp add: cookies_def sub c(2) taken_def c_def [symmetric] reaped_def) (simp add: round_event_def)
  show "event_ok U A request K q ?ev"
    unfolding event_ok_def K
  proof (intro conjI)
    show "ev_consumed ?ev \<le> length (sq_view U (ring q))" using c(1) by (simp only: c_def)
  qed (use ret req in \<open>simp_all add: round_event_def\<close>)
  show "sq_view U (consume U (ev_consumed ?ev) (ring q)) = k_sub k'"
    using uring_consume [OF ring] c(2) by (simp add: c_def)
qed

text \<open>What the queue thread finds when it wakes up, and what it makes of it.\<close>

lemma thread_sim:
  assumes ring: "uring_ok U n" and abi: "abi_ok A" and inv: "mid_inv U A B n sl (k_sub k) k' q" and nd: "\<not> ublk_queue_is_done U q"
    and ret: "ret = - ETIME \<Longrightarrow> process_io_timeout q \<noteq> None"
  obtains m advice q' where "ublk_process_io U A (loop_tgt_ops U A) sz (round_event ret k k') q = Inr (m, advice, q')"
    and "dev_inv U A B n sl (k'\<lparr>k_sub := sq_view U (ring q'), k_posted := []\<rparr>) q'"
    and "\<not> queue_stopping q \<and> (\<forall>c \<in> set (k_posted k'). is_target_io (cqe_user_data c) \<or> cqe_res c \<noteq> abi_res_abort A) \<longrightarrow> \<not> queue_stopping q'"
proof -
  let ?ev = "round_event ret k k'"
  obtain K j where li: "loop_inv U (loop_tgt_ops U A) n K q" and ck: "K + mset (map sqe_user_data (k_sub k)) = cookies k'"
    and sim: "sim A B sl k'" and sub: "k_sub k = sq_view U (ring q)" and j: "k_sub k' = drop j (k_sub k)"
    using inv unfolding mid_inv_def by blast
  have req: "\<forall>x \<in> set (k_posted k'). cqe_res x = abi_res_ok A \<and> \<not> is_target_io (cqe_user_data x)
      \<longrightarrow> loop_request A (k_descs k' (utag (cqe_user_data x)))"
    using simD(4) [OF sim] by (auto intro: answer_ok_request)
  have ret_time: "ret = - ETIME \<longrightarrow> process_io_timeout q \<noteq> None" using ret by blast
  note possible = round_event_possible [where request = loop_request and A = A, OF ring ck sub j ret_time req]
  note ok = possible(1) and K = possible(2) and v1 = possible(3)
  let ?q1 = "q\<lparr>ring := consume U (ev_consumed ?ev) (ring q)\<rparr>"
  have i1: "loop_inv U (loop_tgt_ops U A) n (K + taken U ?ev q) ?q1"
    using loop_inv_consume [OF ring, where ops = "loop_tgt_ops U A" and K = K and ev = ?ev and q = q] li by simp
  have same: "k'\<lparr>k_sub := sq_view U (ring ?q1), k_posted := k_posted k'\<rparr> = k'" by (simp add: v1)
  have sub1: "mset (map cqe_user_data (k_posted k')) \<subseteq># K + taken U ?ev q" unfolding K by (simp add: reaped_def round_event_def)
  obtain q2 where q2: "reap_cqes A (loop_tgt_ops U A) (k_descs k') (k_posted k') ?q1 = Inr q2"
    "sim A B sl (k'\<lparr>k_sub := sq_view U (ring q2), k_posted := []\<rparr>)"
    "\<not> queue_stopping q \<and> (\<forall>c \<in> set (k_posted k'). is_target_io (cqe_user_data c) \<or> cqe_res c \<noteq> abi_res_abort A) \<longrightarrow> \<not> queue_stopping q2"
    using reap_sim [OF ring abi i1 sub1, where B = B and sl = sl and k = k'] sim unfolding same by (auto simp: queue_stopping_bit)
  have r: "reap_cqes A (loop_tgt_ops U A) (ev_iods ?ev) (ev_cqes ?ev) (q\<lparr>ring := consume U (ev_consumed ?ev) (ring q)\<rparr>) = Inr q2"
    using q2(1) by (simp add: round_event_def)
  obtain advice w where pr: "ublk_process_io U A (loop_tgt_ops U A) sz ?ev q = Inr (int (length (ev_cqes ?ev)), advice, q2\<lparr>q_state := w\<rparr>)"
    and w: "bit w 0 = bit (q_state q2) 0"
    by (rule process_io_reaped [OF nd r])
  have "loop_inv U (loop_tgt_ops U A) n (K + taken U ?ev q - reaped ?ev) (q2\<lparr>q_state := w\<rparr>)"
    using loop.process_io_keeps [OF ring abi li ok nd, of sz] pr by auto
  then have "dev_inv U A B n sl (k'\<lparr>k_sub := sq_view U (ring (q2\<lparr>q_state := w\<rparr>)), k_posted := []\<rparr>) (q2\<lparr>q_state := w\<rparr>)"
    using q2(2) unfolding K by (simp add: dev_inv_def)
  with pr show thesis by (rule that) (use q2(3) w in \<open>simp add: queue_stopping_bit\<close>)
qed

lemma round_sim:
  assumes ring: "uring_ok U n" and abi: "abi_ok A" and inv: "dev_inv U A B n sl k q" and nd: "\<not> ublk_queue_is_done U q"
    and run: "kernel_run A B acts k = Some (es, k')" and ret: "ret = - ETIME \<Longrightarrow> process_io_timeout q \<noteq> None"
    and sim: "sim A B sl' k'"
  obtains m advice q' where "ublk_process_io U A (loop_tgt_ops U A) sz (round_event ret k k') q = Inr (m, advice, q')"
    and "dev_inv U A B n sl' (k'\<lparr>k_sub := sq_view U (ring q'), k_posted := []\<rparr>) q'"
    and "\<not> queue_stopping q \<and> (\<forall>c \<in> set (k_posted k'). is_target_io (cqe_user_data c) \<or> cqe_res c \<noteq> abi_res_abort A) \<longrightarrow> \<not> queue_stopping q'"
  using thread_sim [OF ring abi mid_inv_run [OF dev_mid_inv [OF inv] run sim] nd ret] that by metis

lemma ucast_u32_inj: "(ucast (w :: u32) :: u64) = ucast v \<Longrightarrow> w = v"
proof (rule bit_word_eqI)
  fix i
  assume eq: "(ucast w :: u64) = ucast v" and i: "i < LENGTH(32)"
  have "bit (ucast w :: u64) i = bit (ucast v :: u64) i" by (simp only: eq)
  then show "bit w i = bit v i" using i by (simp add: bit_ucast_iff_less)
qed

lemma start_inv:
  assumes ring: "uring_ok U n" and abi: "abi_ok A" and "queue_fresh U q" and "q_depth q \<le> n"
    and run: "ublk_submit_fetch_commands U A q = Inr q'"
  shows "dev_inv U A B n (\<lambda>_. Free) \<lparr>k_sub = sq_view U (ring q'), k_held = [], k_posted = [], k_descs = descs, k_store = f0\<rparr> q'"
proof -
  obtain q1 where q1: "ublk_submit_fetch_commands U A q = Inr q1"
    and tags: "map (utag \<circ> sqe_user_data) (sq_view U (ring q1)) = [0..<q_depth q]"
    and f: "\<forall>s \<in> set (sq_view U (ring q1)). sqe_off s = ucast (abi_fetch_req A) \<and> \<not> is_target_io (sqe_user_data s)"
    and c: "\<forall>s \<in> set (sq_view U (ring q1)). sqe_opcode s = Op_Uring_Cmd \<and> cmd_tag (sqe_cmd s) = word_of_nat (utag (sqe_user_data s))"
    by (rule submit_fetch_fresh [OF assms(1-4)])
  have q': "q1 = q'" using q1 run by simp
  have "queue_reach U A (loop_tgt_ops U A) loop_request 0 n {#} q'" by (rule queue_reach.start [OF assms(3-5)])
  then have li: "loop_inv U (loop_tgt_ops U A) n {#} q'" by (rule loop.reach_inv [OF ring abi])
  have ne: "(ucast (abi_fetch_req A) :: u64) \<noteq> ucast (abi_commit_and_fetch_req A)"
    using abi ucast_u32_inj [of "abi_fetch_req A" "abi_commit_and_fetch_req A"] by (auto simp: abi_ok_def)
  have "entry_ok A B (\<lambda>_. Free) True s" if "s \<in> set (sq_view U (ring q'))" for s
    using f c that ne tag_word unfolding q' by (auto simp: entry_ok_def is_command_def command_tag_def)
  then show ?thesis using li tags unfolding dev_inv_def q' by (auto simp: sim_def carried_def)
qed

lemma dev_round_sim:
  assumes ring: "uring_ok U n" and abi: "abi_ok A" and inv: "dev_inv U A B n sl k q" and rnd: "dev_round U A B sz acts (k, q) es (k2, q2)"
  obtains k' sl' where "kernel_run A B acts k = Some (es, k')" and "device_run A B es (sl, k_store k) = Some (sl', k_store k')"
    and "sim A B sl' k'" and "dev_inv U A B n sl' k2 q2" and "k_store k2 = k_store k'" and "k_held k2 = k_held k'"
proof -
  from rnd obtain k' ret m advice where nd: "\<not> ublk_queue_is_done U q" and run: "kernel_run A B acts k = Some (es, k')"
    and ret: "ret = - ETIME \<Longrightarrow> process_io_timeout q \<noteq> None"
    and p: "ublk_process_io U A (loop_tgt_ops U A) sz (round_event ret k k') q = Inr (m, advice, q2)"
    and k2: "k2 = k'\<lparr>k_sub := sq_view U (ring q2), k_posted := []\<rparr>"
    by (rule dev_roundE) blast
  have "sim A B sl k" using inv by (simp add: dev_inv_def)
  from kernel_run_sim [OF this run] obtain sl' where s: "device_run A B es (sl, k_store k) = Some (sl', k_store k')" "sim A B sl' k'" by blast
  have "dev_inv U A B n sl' k2 q2"
    by (rule round_sim [OF ring abi inv nd run ret s(2), where sz = sz]) (use p k2 in auto)
  then show thesis using that [OF run s] by (simp add: k2)
qed

lemma reach_dev_inv:
  assumes ring: "uring_ok U n" and abi: "abi_ok A" and reach: "dev_reach U A B sz n f0 k q tr"
  shows "\<exists>sl. device_run A B tr (\<lambda>_. Free, f0) = Some (sl, k_store k) \<and> dev_inv U A B n sl k q"
  using reach
proof (induction rule: dev_reach.induct)
  case (start q q' descs)
  then show ?case using start_inv [OF ring abi start] by auto
next
  case (step k q tr acts es k2 q2)
  then obtain sl where d: "device_run A B tr (\<lambda>_. Free, f0) = Some (sl, k_store k)" and inv: "dev_inv U A B n sl k q" by blast
  obtain k' sl' where "kernel_run A B acts k = Some (es, k')" and "device_run A B es (sl, k_store k) = Some (sl', k_store k')"
    and "sim A B sl' k'" and "dev_inv U A B n sl' k2 q2" and "k_store k2 = k_store k'"
    by (rule dev_round_sim [OF ring abi inv step(2)])
  then show ?case using d by (auto simp: device_run_append)
qed

end
