(* ===== verification/Ublk_Device_Props.thy ===== *)
theory Ublk_Device_Props
  imports Ublk_Device_Sim
begin

text \<open>
  The loop target as a block device: the properties of the composed system of \<open>Ublk_Device\<close>, and a
  concrete run of it.
\<close>

section \<open>Nothing is left behind\<close>

text \<open>A queue that is done has no request to answer.\<close>

lemma done_all_free:
  assumes ring: "uring_ok U n" and inv: "dev_inv U A B n sl k q" and dn: "ublk_queue_is_done U q"
  shows "sl t = Free"
proof (rule ccontr)
  assume "sl t \<noteq> Free"
  have sim: "sim A B sl k" and sub: "k_sub k = sq_view U (ring q)" and p: "k_posted k = []"
    and qi: "queue_inv U (mset (map sqe_user_data (k_held k))) {} 0 q"
    using inv by (simp_all add: dev_inv_def loop_inv_def)
  have v: "sq_view U (ring q) = []" and io: "io_inflight q = 0"
    using dn by (simp_all add: ublk_queue_is_done_def ublk_queue_is_idle_def uring_ready [OF ring])
  obtain s where s: "s \<in> set (k_held k)" "t = utag (sqe_user_data s)"
    using simD(5) [OF sim \<open>sl t \<noteq> Free\<close>] v by (auto simp: carried_def sub p)
  have "size {#ud \<in># mset (map sqe_user_data (k_held k)). is_target_io ud#} = 0"
    using queue_invD(6) [OF qi] io v by (simp add: outstanding_def)
  then have "\<not> is_target_io (sqe_user_data s)" using s(1) by (auto simp: filter_mset_eq_mempty_iff)
  then show False using simD(3) [OF sim s(1)] s(2) \<open>sl t \<noteq> Free\<close> by (simp add: entry_ok_def)
qed

definition is_deliver :: "'f kact \<Rightarrow> bool" where
  "is_deliver a \<longleftrightarrow> (\<exists>i d. a = Deliver i d)"

text \<open>Without deliveries no request becomes pending, and only pending ones are performed.\<close>

lemma kernel_act_quiet:
  assumes sim: "sim A B sl k" and act: "kernel_act A B a k = Some (es, k')" and quiet: "\<not> is_deliver a"
    and run: "device_run A B es (sl, k_store k) = Some (sl', k_store k')"
  shows "(\<forall>t d. sl' t = Pending d \<longrightarrow> sl t = Pending d)
    \<and> (\<forall>c \<in> set (k_posted k'). c \<in> set (k_posted k)
         \<or> (if is_target_io (cqe_user_data c) then \<exists>t d. sl t = Pending d else cqe_res c \<noteq> abi_res_ok A))"
proof (cases a)
  case Take
  then show ?thesis using act run by (auto split: list.splits if_splits)
next
  case (Execute i)
  let ?s = "k_held k ! i"
  from Execute act have i: "i < length (k_held k)" and nc: "\<not> is_command ?s" by (simp_all split: if_splits)
  obtain r f where ex: "exec_entry B ?s (k_store k) = (r, f)" by (cases "exec_entry B ?s (k_store k)")
  have "entry_ok A B sl False ?s" by (rule simD(3) [OF sim]) (simp add: i)
  then obtain d where d: "sl (utag (sqe_user_data ?s)) = Pending d" "is_target_io (sqe_user_data ?s)"
    using nc by (auto simp: entry_ok_def split: if_splits)
  have es: "es = [Perform (utag (sqe_user_data ?s))]" and k': "k' = (post i r k)\<lparr>k_store := f\<rparr>"
    using Execute act i nc by (simp_all add: ex)
  have "\<forall>t d. sl' t = Pending d \<longrightarrow> sl t = Pending d" using run d(1) by (auto simp: es split: prod.splits if_splits)
  moreover have "\<exists>t d. sl t = Pending d" using d(1) by blast
  ultimately show ?thesis using d(2) by (auto simp: k' post_def)
next
  case (Deliver i d)
  then show ?thesis using quiet by (simp add: is_deliver_def)
next
  case (Fail i r)
  let ?s = "k_held k ! i"
  from Fail act have i: "i < length (k_held k)" and c: "is_command ?s" and r: "r \<noteq> abi_res_ok A" and es: "es = []" and k': "k' = post i r k"
    by (simp_all split: if_splits)
  have "entry_ok A B sl False ?s" by (rule simD(3) [OF sim]) (simp add: i)
  then have "\<not> is_target_io (sqe_user_data ?s)" using c by (auto simp: entry_ok_def split: if_splits)
  then show ?thesis using run r by (auto simp: es k' post_def)
next
  case (Touch g)
  then show ?thesis using act run by auto
qed

lemma kernel_run_quiet:
  assumes "sim A B sl k" and "kernel_run A B acts k = Some (es, k')" and "\<not> list_ex is_deliver acts"
    and "device_run A B es (sl, k_store k) = Some (sl', k_store k')"
  shows "(\<forall>t d. sl' t = Pending d \<longrightarrow> sl t = Pending d)
    \<and> (\<forall>c \<in> set (k_posted k'). c \<in> set (k_posted k)
         \<or> (if is_target_io (cqe_user_data c) then \<exists>t d. sl t = Pending d else cqe_res c \<noteq> abi_res_ok A))"
  using assms
proof (induction acts arbitrary: k sl es)
  case (Cons a acts)
  obtain es1 k1 es2 where a: "kernel_act A B a k = Some (es1, k1)" and r: "kernel_run A B acts k1 = Some (es2, k')"
    and es: "es = es1 @ es2" using Cons.prems(2) by (auto split: option.splits)
  obtain sl1 where d1: "device_run A B es1 (sl, k_store k) = Some (sl1, k_store k1)" and s1: "sim A B sl1 k1"
    by (rule kernel_act_sim [OF Cons.prems(1) a])
  have q: "\<not> is_deliver a" "\<not> list_ex is_deliver acts" using Cons.prems(3) by simp_all
  have d2: "device_run A B es2 (sl1, k_store k1) = Some (sl', k_store k')"
    using Cons.prems(4) d1 by (simp add: es device_run_append)
  from kernel_act_quiet [OF Cons.prems(1) a q(1) d1] Cons.IH [OF s1 r q(2) d2] show ?case
    by (auto split: if_splits)
qed auto

text \<open>A round in which the kernel takes every entry, performs every request it holds, and delivers nothing.\<close>

definition prompt :: "abi \<Rightarrow> 'f backing \<Rightarrow> 'f kact list \<Rightarrow> 'f kernel \<Rightarrow> bool" where
  "prompt A B acts k \<longleftrightarrow> \<not> list_ex is_deliver acts \<and>
     (case kernel_run A B acts k of None \<Rightarrow> False | Some (es, k') \<Rightarrow> k_sub k' = [] \<and> list_all is_command (k_held k'))"

lemma prompt_slots:
  assumes sim: "sim A B sl k" and p: "k_posted k = []" and run: "kernel_run A B acts k = Some (es, k')" and pr: "prompt A B acts k"
    and sl': "device_run A B es (sl, k_store k) = Some (sl', k_store k')" "sim A B sl' k'"
  shows "sl' t \<noteq> Pending d" and "(\<And>t d. sl t \<noteq> Pending d) \<Longrightarrow> sl' t = Free"
proof -
  have q: "\<not> list_ex is_deliver acts" and sub: "k_sub k' = []" and held: "s \<in> set (k_held k') \<Longrightarrow> is_command s" for s
    using pr run by (simp_all add: prompt_def list_all_iff)
  note quiet = kernel_run_quiet [OF sim run q sl'(1)]
  have where_tag: "\<exists>c \<in> set (k_posted k'). t = utag (cqe_user_data c)" if a: "sl' t \<noteq> Free" for t
  proof (rule ccontr)
    assume "\<not> ?thesis"
    then obtain s where s: "s \<in> set (k_held k')" "t = utag (sqe_user_data s)"
      using simD(5) [OF sl'(2) a] sub by (auto simp: carried_def)
    then show False using simD(3) [OF sl'(2) s(1)] held [OF s(1)] a by (auto simp: entry_ok_def split: if_splits)
  qed
  have posted: "answer_ok A sl' (k_descs k') c"
    "if is_target_io (cqe_user_data c) then \<exists>t d. sl t = Pending d else cqe_res c \<noteq> abi_res_ok A"
    if "c \<in> set (k_posted k')" for c
    using simD(4) [OF sl'(2) that] quiet that p by auto
  show "sl' t \<noteq> Pending d"
  proof
    assume a: "sl' t = Pending d"
    then obtain c where "c \<in> set (k_posted k')" "t = utag (cqe_user_data c)" using where_tag [of t] by auto
    then show False using posted [of c] a by (auto simp: answer_ok_def Let_def split: if_splits)
  qed
  assume none: "\<And>t d. sl t \<noteq> Pending d"
  show "sl' t = Free"
  proof (rule ccontr)
    assume a: "sl' t \<noteq> Free"
    then obtain c where "c \<in> set (k_posted k')" "t = utag (cqe_user_data c)" using where_tag [of t] by auto
    then show False using posted [of c] a none by (auto simp: answer_ok_def Let_def split: if_splits)
  qed
qed

lemma prompt_round:
  assumes "uring_ok U n" and "abi_ok A" and inv: "dev_inv U A B n sl k q" and rnd: "dev_round U A B sz acts (k, q) es (k2, q2)"
    and pr: "prompt A B acts k"
  obtains sl' where "device_run A B es (sl, k_store k) = Some (sl', k_store k2)" and "dev_inv U A B n sl' k2 q2"
    and "\<forall>t d. sl' t \<noteq> Pending d" and "(\<forall>t d. sl t \<noteq> Pending d) \<longrightarrow> sl' = (\<lambda>_. Free)"
proof -
  obtain k' sl' where r: "kernel_run A B acts k = Some (es, k')" and d: "device_run A B es (sl, k_store k) = Some (sl', k_store k')"
    and s: "sim A B sl' k'" and i: "dev_inv U A B n sl' k2 q2" and st: "k_store k2 = k_store k'"
    by (rule dev_round_sim [OF assms(1-4)])
  have "sim A B sl k" and "k_posted k = []" using inv by (simp_all add: dev_inv_def)
  from prompt_slots [OF this r pr d s] show thesis
    by (intro that [OF d [folded st] i]) blast+
qed

section \<open>A concrete run\<close>

text \<open>A kernel that does everything at once: it takes all entries and performs all requests it then holds.\<close>

definition prompt_acts :: "'f kernel \<Rightarrow> 'f kact list" where
  "prompt_acts k = replicate (length (k_sub k)) Take @
     map Execute (filter (\<lambda>i. \<not> is_command ((k_held k @ k_sub k) ! i)) (rev [0..<length (k_held k @ k_sub k)]))"

lemma kernel_run_append:
  "kernel_run A B (as @ bs) k = (case kernel_run A B as k of None \<Rightarrow> None | Some (es, k1) \<Rightarrow>
     (case kernel_run A B bs k1 of None \<Rightarrow> None | Some (es', k2) \<Rightarrow> Some (es @ es', k2)))"
  by (induction as arbitrary: k) (auto split: option.splits)

lemma run_takes:
  "\<exists>es. kernel_run A B (replicate (length (k_sub k)) Take) k = Some (es, k\<lparr>k_sub := [], k_held := k_held k @ k_sub k\<rparr>)"
proof (induction "k_sub k" arbitrary: k)
  case (Cons s rest)
  let ?k = "k\<lparr>k_sub := rest, k_held := k_held k @ [s]\<rparr>"
  have sub: "k_sub k = s # rest" using Cons.hyps(2) by simp
  from Cons.hyps(1) [of ?k] show ?case by (auto simp: sub)
qed simp

lemma run_executes:
  "m \<le> length (k_held k) \<Longrightarrow> take m (k_held k) = take m h \<Longrightarrow> list_all is_command (drop m (k_held k)) \<Longrightarrow> m \<le> length h \<Longrightarrow>
    \<exists>es k'. kernel_run A B (map Execute (filter (\<lambda>i. \<not> is_command (h ! i)) (rev [0..<m]))) k = Some (es, k')
      \<and> k_sub k' = k_sub k \<and> list_all is_command (k_held k')"
proof (induction m arbitrary: k)
  case (Suc m)
  have hm: "h ! m = k_held k ! m" using Suc.prems(1,2,4) by (metis Suc_le_eq lessI nth_take)
  have tk: "take m (k_held k) = take m h" using Suc.prems(2) by (metis le_add2 min.absorb1 plus_1_eq_Suc take_take)
  have dr: "drop m (k_held k) = k_held k ! m # drop (Suc m) (k_held k)" using Suc.prems(1) by (simp add: Cons_nth_drop_Suc)
  show ?case
  proof (cases "is_command (h ! m)")
    case True
    then show ?thesis using Suc.IH [of k] Suc.prems tk dr hm by simp
  next
    case False
    obtain r f where ex: "exec_entry B (k_held k ! m) (k_store k) = (r, f)" by (cases "exec_entry B (k_held k ! m) (k_store k)")
    let ?k = "(post m r k)\<lparr>k_store := f\<rparr>"
    have h1: "k_held ?k = take m (k_held k) @ drop (Suc m) (k_held k)" by (simp add: post_def without_def)
    have lm: "m \<le> length (k_held k)" using Suc.prems(1) by simp
    have len: "m \<le> length (k_held ?k)" "take m (k_held ?k) = take m (k_held k)" "drop m (k_held ?k) = drop (Suc m) (k_held k)"
      unfolding h1 using Suc.prems(1) lm by simp_all
    have tk1: "take m (k_held ?k) = take m h" using len(2) tk by simp
    obtain es k' where "kernel_run A B (map Execute (filter (\<lambda>i. \<not> is_command (h ! i)) (rev [0..<m]))) ?k = Some (es, k')"
      "k_sub k' = k_sub ?k" "list_all is_command (k_held k')"
      using Suc.IH [OF len(1) tk1] Suc.prems(3,4) len(3) by auto
    then show ?thesis using False hm ex Suc.prems(1) by (simp add: post_def)
  qed
qed auto

lemma prompt_acts_prompt: "prompt A B (prompt_acts k) k"
proof -
  let ?k = "k\<lparr>k_sub := [], k_held := k_held k @ k_sub k\<rparr>"
  obtain es1 where t: "kernel_run A B (replicate (length (k_sub k)) Take) k = Some (es1, ?k)" using run_takes by blast
  obtain es2 k' where e: "kernel_run A B (map Execute (filter (\<lambda>i. \<not> is_command ((k_held k @ k_sub k) ! i)) (rev [0..<length (k_held k @ k_sub k)]))) ?k = Some (es2, k')"
    "k_sub k' = []" "list_all is_command (k_held k')"
    using run_executes [of "length (k_held k @ k_sub k)" ?k "k_held k @ k_sub k" A B] by auto
  have "\<not> list_ex is_deliver (prompt_acts k)" by (auto simp: prompt_acts_def is_deliver_def list_ex_iff)
  then show ?thesis using t e by (simp add: prompt_def kernel_run_append prompt_acts_def)
qed

text \<open>As long as nothing is aborted the thread goes on.\<close>

lemma kernel_run_posts:
  "sim A B sl k \<Longrightarrow> kernel_run A B acts k = Some (es, k') \<Longrightarrow> c \<in> set (k_posted k') \<Longrightarrow> \<forall>i r. Fail i r \<notin> set acts
    \<Longrightarrow> c \<in> set (k_posted k) \<or> is_target_io (cqe_user_data c) \<or> cqe_res c = abi_res_ok A"
proof (induction acts arbitrary: k sl es)
  case (Cons a acts)
  obtain es1 k1 es2 where a: "kernel_act A B a k = Some (es1, k1)" and r: "kernel_run A B acts k1 = Some (es2, k')"
    using Cons.prems(2) by (auto split: option.splits)
  obtain sl1 where s1: "sim A B sl1 k1" by (rule kernel_act_sim [OF Cons.prems(1) a])
  have "c \<in> set (k_posted k) \<or> is_target_io (cqe_user_data c) \<or> cqe_res c = abi_res_ok A" if "c \<in> set (k_posted k1)"
  proof (cases a)
    case (Execute i)
    have "\<not> is_command (k_held k ! i) \<Longrightarrow> i < length (k_held k) \<Longrightarrow> is_target_io (sqe_user_data (k_held k ! i))"
      using simD(3) [OF Cons.prems(1), of "k_held k ! i"] by (auto simp: entry_ok_def split: if_splits)
    then show ?thesis using Execute a that by (auto simp: post_def split: if_splits prod.splits)
  qed (use a that Cons.prems(4) in \<open>auto simp: post_def Let_def split: list.splits if_splits\<close>)
  then show ?case using Cons.IH [OF s1 r Cons.prems(3)] Cons.prems(4) by auto
qed auto

lemma round_exists:
  assumes ring: "uring_ok U n" and abi: "abi_ok A" and inv: "dev_inv U A B n sl k q" and ns: "\<not> queue_stopping q"
    and run: "kernel_run A B acts k = Some (es, k')" and nf: "\<forall>i r. Fail i r \<notin> set acts"
  obtains k2 q2 sl2 where "dev_round U A B sz acts (k, q) es (k2, q2)" and "\<not> queue_stopping q2"
    and "dev_inv U A B n sl2 k2 q2"
proof -
  have sim: "sim A B sl k" and p: "k_posted k = []" using inv by (simp_all add: dev_inv_def)
  obtain sl' where s: "device_run A B es (sl, k_store k) = Some (sl', k_store k')" "sim A B sl' k'"
    using kernel_run_sim [OF sim run] by blast
  have nd: "\<not> ublk_queue_is_done U q" using ns by (simp add: ublk_queue_is_done_def)
  have ok: "\<forall>c \<in> set (k_posted k'). is_target_io (cqe_user_data c) \<or> cqe_res c \<noteq> abi_res_abort A"
  proof
    fix c
    assume "c \<in> set (k_posted k')"
    moreover have "abi_res_ok A \<noteq> abi_res_abort A" using abi by (simp add: abi_ok_def)
    ultimately show "is_target_io (cqe_user_data c) \<or> cqe_res c \<noteq> abi_res_abort A"
      using kernel_run_posts [OF sim run _ nf, of c] p by auto
  qed
  have ret: "(0 :: int) = - ETIME \<Longrightarrow> process_io_timeout q \<noteq> None" by (simp add: ETIME_def)
  obtain m advice q2 where pr: "ublk_process_io U A (loop_tgt_ops U A) sz (round_event 0 k k') q = Inr (m, advice, q2)"
    and i2: "dev_inv U A B n sl' (k'\<lparr>k_sub := sq_view U (ring q2), k_posted := []\<rparr>) q2"
    and st: "\<not> queue_stopping q \<and> (\<forall>c \<in> set (k_posted k'). is_target_io (cqe_user_data c) \<or> cqe_res c \<noteq> abi_res_abort A) \<longrightarrow> \<not> queue_stopping q2"
    by (rule round_sim [OF ring abi inv nd run ret s(2), where sz = sz])
  have "dev_round U A B sz acts (k, q) es (k'\<lparr>k_sub := sq_view U (ring q2), k_posted := []\<rparr>, q2)"
    by (rule dev_round.round [OF nd run ret pr])
  then show thesis by (rule that) (use st ns ok i2 in auto)
qed

text \<open>A backing file that keeps a journal and transfers everything; a read of 4096 bytes at 8192.\<close>

definition demo_backing :: "(uring_op \<times> nat \<times> nat) list backing" where
  "demo_backing op addr len off f = (word_of_nat len, f @ [(op, len, off)])"

definition demo_read :: iod where
  "demo_read = \<lparr>iod_op_flags = 0, iod_nr_sectors = 8, iod_start_sector = 16, iod_addr = 8192\<rparr>"

lemma demo_read_sent: "sent linux_abi demo_read"
  by (simp add: sent_def loop_request_def demo_read_def linux_abi_def)

lemma demo_fetched:
  assumes fresh: "queue_fresh (slot_uring 1) q0" and "q_depth q0 = 1"
  obtains q where "ublk_submit_fetch_commands (slot_uring 1) linux_abi q0 = Inr q" and "\<not> queue_stopping q" and "q_depth q = 1"
    and "\<And>descs f d. sent linux_abi d \<Longrightarrow> \<exists>k'. kernel_run linux_abi (B :: 'f backing) [Take, Deliver 0 d]
        \<lparr>k_sub = sq_view (slot_uring 1) (ring q), k_held = [], k_posted = [], k_descs = descs, k_store = f\<rparr>
      = Some ([Start 0 d], k') \<and> k_held k' = []"
proof -
  let ?U = "slot_uring 1"
  have d1: "q_depth q0 \<le> 1" by (simp add: assms(2))
  obtain q where q: "ublk_submit_fetch_commands ?U linux_abi q0 = Inr q"
    and tags: "map (utag \<circ> sqe_user_data) (sq_view ?U (ring q)) = [0..<q_depth q0]"
    and f: "\<forall>s \<in> set (sq_view ?U (ring q)). sqe_off s = ucast (abi_fetch_req linux_abi) \<and> \<not> is_target_io (sqe_user_data s)"
    and dq: "q_depth q = q_depth q0" and st: "q_state q = 0"
    and c: "\<forall>s \<in> set (sq_view ?U (ring q)). sqe_opcode s = Op_Uring_Cmd \<and> cmd_tag (sqe_cmd s) = word_of_nat (utag (sqe_user_data s))"
    by (rule submit_fetch_fresh [OF uring_ok_slot abi_ok_linux fresh d1])
  obtain s where v: "sq_view ?U (ring q) = [s]" and t: "utag (sqe_user_data s) = 0"
    using tags by (auto simp: assms(2) map_eq_Cons_conv)
  have s: "is_command s" "command_tag s = 0" "sqe_off s = 0x20"
    using c f v t by (simp_all add: is_command_def command_tag_def linux_abi_def)
  have nc: "sqe_off s \<noteq> ucast (abi_commit_and_fetch_req linux_abi)" unfolding s(3) by (simp add: linux_abi_def)
  have v': "fst (ring q) = [s]" using v by simp
  show thesis
    by (rule that [OF q]) (use s(1,2) nc st dq assms(2) in \<open>simp_all add: v' queue_stopping_bit post_def without_def\<close>)
qed

lemma demo_device:
  obtains k q sl where "dev_reach (slot_uring 1) linux_abi demo_backing 65536 1 [] k q [Start 0 demo_read]"
    and "\<not> queue_stopping q" and "dev_inv (slot_uring 1) linux_abi demo_backing 1 sl k q"
proof -
  let ?U = "slot_uring 1"
  have dq: "q_depth demo_queue = 1" by (simp add: demo_queue_def)
  then have d1: "q_depth demo_queue \<le> 1" by simp
  obtain q0 where q0: "ublk_submit_fetch_commands ?U linux_abi demo_queue = Inr q0" and ns: "\<not> queue_stopping q0"
    and act: "\<And>descs f. \<exists>k'. kernel_run linux_abi demo_backing [Take, Deliver 0 demo_read]
        \<lparr>k_sub = sq_view ?U (ring q0), k_held = [], k_posted = [], k_descs = descs, k_store = f\<rparr> = Some ([Start 0 demo_read], k')"
    by (rule demo_fetched [OF demo_fresh dq, where B = demo_backing]) (use demo_read_sent in blast)
  let ?k0 = "\<lparr>k_sub = sq_view ?U (ring q0), k_held = [], k_posted = [], k_descs = (\<lambda>_. demo_read), k_store = []\<rparr>"
  have r0: "dev_reach ?U linux_abi demo_backing 65536 1 [] ?k0 q0 []" by (rule dev_reach.start [OF demo_fresh d1 q0])
  have i0: "dev_inv ?U linux_abi demo_backing 1 (\<lambda>_. Free) ?k0 q0"
    by (rule start_inv [OF uring_ok_slot abi_ok_linux demo_fresh d1 q0])
  obtain k' where run: "kernel_run linux_abi demo_backing [Take, Deliver 0 demo_read] ?k0 = Some ([Start 0 demo_read], k')"
    using act by blast
  have nf: "\<forall>i r. Fail i r \<notin> set [Take, Deliver 0 demo_read]" by simp
  obtain k q sl where "dev_round ?U linux_abi demo_backing 65536 [Take, Deliver 0 demo_read] (?k0, q0) [Start 0 demo_read] (k, q)"
    and "\<not> queue_stopping q" and "dev_inv ?U linux_abi demo_backing 1 sl k q"
    by (rule round_exists [OF uring_ok_slot abi_ok_linux i0 ns run nf])
  then show thesis using dev_reach.step [OF r0] that by fastforce
qed

lemma prompt_round_exists:
  assumes "uring_ok U n" and "abi_ok A" and inv: "dev_inv U A B n sl k q" and ns: "\<not> queue_stopping q"
  obtains es k2 q2 sl2 where "dev_round U A B sz (prompt_acts k) (k, q) es (k2, q2)" and "\<not> queue_stopping q2"
    and "dev_inv U A B n sl2 k2 q2"
proof -
  obtain es k' where run: "kernel_run A B (prompt_acts k) k = Some (es, k')"
    using prompt_acts_prompt [of A B k] by (auto simp: prompt_def split: option.splits)
  have nf: "\<forall>i r. Fail i r \<notin> set (prompt_acts k)" by (auto simp: prompt_acts_def)
  show thesis by (rule round_exists [OF assms run nf]) (rule that)
qed

section \<open>The properties\<close>

text \<open>
  C5. End to end, the loop target is a block device: whatever requests the driver delivers and in
  whatever order the kernel takes entries, performs operations and aborts commands, each run of the
  queue thread with the kernel is a run of the abstract device. Every request is performed exactly
  once, on the bytes it names, between its start and its end, the result it ends with is that of the
  operation, and the backing file holds what the operations made of it. When the thread is done no
  request is left unanswered.
\<close>

theorem loop_device_refines:
  assumes "uring_ok U n" and "abi_ok A" and "dev_reach U A B sz n f0 k q tr"
  shows "\<exists>sl. device_run A B tr (\<lambda>_. Free, f0) = Some (sl, k_store k)
    \<and> (ublk_queue_is_done U q \<longrightarrow> sl = (\<lambda>_. Free))"
proof -
  obtain sl where "device_run A B tr (\<lambda>_. Free, f0) = Some (sl, k_store k)" and inv: "dev_inv U A B n sl k q"
    using reach_dev_inv [OF assms] by blast
  then show ?thesis using done_all_free [OF assms(1) inv] by blast
qed

theorem loop_device_refines_witness:
  "\<exists>k q sl. dev_reach (slot_uring 1) linux_abi demo_backing 65536 1 [] k q [Start 0 demo_read]
     \<and> device_run linux_abi demo_backing [Start 0 demo_read] (\<lambda>_. Free, []) = Some (sl, k_store k) \<and> sl 0 = Pending demo_read"
proof -
  obtain k q where r: "dev_reach (slot_uring 1) linux_abi demo_backing 65536 1 [] k q [Start 0 demo_read]"
    by (rule demo_device)
  from loop_device_refines [OF uring_ok_slot abi_ok_linux r] show ?thesis using r by auto
qed

text \<open>
  C6. Accepted requests are finished: in any reachable state, after two rounds in which the kernel
  takes all entries, performs all requests it holds and delivers no new ones, every request has got
  its answer and the device is free.
\<close>

theorem loop_device_serves:
  assumes "uring_ok U n" and "abi_ok A" and "dev_reach U A B sz n f0 k q tr"
    and "dev_round U A B sz acts1 (k, q) es1 (k1, q1)" and "prompt A B acts1 k"
    and "dev_round U A B sz acts2 (k1, q1) es2 (k2, q2)" and "prompt A B acts2 k1"
  shows "device_run A B (tr @ es1 @ es2) (\<lambda>_. Free, f0) = Some (\<lambda>_. Free, k_store k2)"
proof -
  obtain sl where d: "device_run A B tr (\<lambda>_. Free, f0) = Some (sl, k_store k)" and inv: "dev_inv U A B n sl k q"
    using reach_dev_inv [OF assms(1-3)] by blast
  obtain sl1 where d1: "device_run A B es1 (sl, k_store k) = Some (sl1, k_store k1)" and inv1: "dev_inv U A B n sl1 k1 q1"
    and n1: "\<forall>t d. sl1 t \<noteq> Pending d"
    by (rule prompt_round [OF assms(1,2) inv assms(4,5)])
  obtain sl2 where d2: "device_run A B es2 (sl1, k_store k1) = Some (sl2, k_store k2)" and "dev_inv U A B n sl2 k2 q2"
    and "(\<forall>t d. sl1 t \<noteq> Pending d) \<longrightarrow> sl2 = (\<lambda>_. Free)"
    by (rule prompt_round [OF assms(1,2) inv1 assms(6,7)])
  then show ?thesis using d d1 n1 by (simp add: device_run_append)
qed

theorem loop_device_serves_witness:
  "\<exists>es1 es2 f. device_run linux_abi demo_backing ([Start 0 demo_read] @ es1 @ es2) (\<lambda>_. Free, []) = Some (\<lambda>_. Free, f)"
proof -
  obtain k q sl where r: "dev_reach (slot_uring 1) linux_abi demo_backing 65536 1 [] k q [Start 0 demo_read]"
    and ns: "\<not> queue_stopping q" and i: "dev_inv (slot_uring 1) linux_abi demo_backing 1 sl k q"
    by (rule demo_device)
  obtain es1 k1 q1 sl1 where r1: "dev_round (slot_uring 1) linux_abi demo_backing 65536 (prompt_acts k) (k, q) es1 (k1, q1)"
    and ns1: "\<not> queue_stopping q1" and i1: "dev_inv (slot_uring 1) linux_abi demo_backing 1 sl1 k1 q1"
    by (rule prompt_round_exists [OF uring_ok_slot abi_ok_linux i ns])
  obtain es2 k2 q2 where r2: "dev_round (slot_uring 1) linux_abi demo_backing 65536 (prompt_acts k1) (k1, q1) es2 (k2, q2)"
    by (rule prompt_round_exists [OF uring_ok_slot abi_ok_linux i1 ns1])
  show ?thesis
    using loop_device_serves [OF uring_ok_slot abi_ok_linux r r1 prompt_acts_prompt r2 prompt_acts_prompt] by blast
qed

end
