(* ===== verification/Ublk_Server.thy ===== *)
theory Ublk_Server
  imports Ublk_Device_Props Ublk_Thread
begin

text \<open>
  All queues of a loop device at once: the threads that \<open>ublk_start_daemon\<close> creates, each with its
  own ring, and one backing file behind them, from the initialisation of a queue to its release.
  Threads and kernel interleave in every order: the kernel acts on one queue at a time, a thread is
  created or wakes up at any moment. The server is a block device with a slot for every tag of every
  queue.
\<close>

section \<open>The abstract device\<close>

definition server_step ::
  "abi \<Rightarrow> 'f backing \<Rightarrow> nat \<times> 'f dev_event \<Rightarrow> (nat \<Rightarrow> nat \<Rightarrow> slot) \<times> 'f \<Rightarrow> ((nat \<Rightarrow> nat \<Rightarrow> slot) \<times> 'f) option" where
  "server_step A B = (\<lambda>(i, e) (sl, f). case device_step A B e (sl i, f) of
     None \<Rightarrow> None | Some (s, f') \<Rightarrow> Some (sl(i := s), f'))"

fun server_run ::
  "abi \<Rightarrow> 'f backing \<Rightarrow> (nat \<times> 'f dev_event) list \<Rightarrow> (nat \<Rightarrow> nat \<Rightarrow> slot) \<times> 'f \<Rightarrow> ((nat \<Rightarrow> nat \<Rightarrow> slot) \<times> 'f) option" where
  "server_run A B [] x = Some x"
| "server_run A B (e # es) x = (case server_step A B e x of None \<Rightarrow> None | Some x' \<Rightarrow> server_run A B es x')"

lemma server_run_append:
  "server_run A B (es @ es') x = (case server_run A B es x of None \<Rightarrow> None | Some x' \<Rightarrow> server_run A B es' x')"
  by (induction es arbitrary: x) (auto split: option.split)

text \<open>The steps of one queue.\<close>

lemma server_run_queue:
  "device_run A B es (sl i, f) = Some (s, f') \<Longrightarrow> server_run A B (map (Pair i) es) (sl, f) = Some (sl(i := s), f')"
proof (induction es arbitrary: sl f)
  case (Cons e es)
  then obtain s1 f1 where e: "device_step A B e (sl i, f) = Some (s1, f1)" "device_run A B es (s1, f1) = Some (s, f')"
    by (auto split: option.splits)
  have "server_run A B (map (Pair i) es) (sl(i := s1), f1) = Some ((sl(i := s1))(i := s), f')"
    by (rule Cons.IH) (simp add: e)
  then show ?case using e by (simp add: server_step_def fun_eq_iff fun_upd_def)
qed (simp add: fun_upd_idem)

section \<open>The threads\<close>

text \<open>
  A queue thread between two calls of \<open>ublk_process_io\<close>: the entries its round began with, the kernel's
  side of its ring (whose copy of the file is brought up to date before every action), its queue, the
  page size, what it has acquired and released, and whether it is still running.
\<close>

record ('f, 'r) worker =
  wk_from :: "sqe list"
  wk_k :: "'f kernel"
  wk_q :: "'r ublk_queue"
  wk_page :: u32
  wk_log :: "q_effect list"
  wk_runs :: bool

text \<open>The parts of \<open>ublk_io_handler_fn\<close>: up to the loop, and one round of it.\<close>

definition thread_starts ::
  "'r uring \<Rightarrow> abi \<Rightarrow> 'r queue_env \<Rightarrow> nat \<Rightarrow> (nat \<Rightarrow> iod) \<Rightarrow> 'f \<Rightarrow> 'r ublk_queue \<Rightarrow> fault + ('f, 'r) worker" where
  "thread_starts U A env depth descs f q =
     (let w = (\<lambda>q v tr runs. \<lparr>wk_from = v, wk_k = \<lparr>k_sub = v, k_held = [], k_posted = [], k_descs = descs, k_store = f\<rparr>,
                wk_q = q, wk_page = env_page env, wk_log = tr, wk_runs = runs\<rparr>) in
      seq (ublk_queue_init A env depth q) (\<lambda>(ret, q1, tr).
        if ret \<noteq> 0 then Inr (w q1 [] tr False)
        else seq (ublk_submit_fetch_commands U A q1) (\<lambda>q2. Inr (w q2 (sq_view U (ring q2)) tr True))))"

definition thread_round :: "'r uring \<Rightarrow> abi \<Rightarrow> u32 \<Rightarrow> event \<Rightarrow> ('f, 'r) worker \<Rightarrow> fault + ('f, 'r) worker" where
  "thread_round U A sz ev w =
     seq (ublk_process_io U A (loop_tgt_ops U A) sz ev (wk_q w)) (\<lambda>(ret, _, q').
       if ret < 0
       then seq (ublk_queue_deinit A (wk_page w) q') (\<lambda>(q'', tr).
              Inr (w\<lparr>wk_q := q'', wk_log := wk_log w @ tr, wk_runs := False\<rparr>))
       else Inr (w\<lparr>wk_q := q', wk_from := sq_view U (ring q'), wk_k := (wk_k w)\<lparr>k_sub := sq_view U (ring q'), k_posted := []\<rparr>\<rparr>))"

fun thread_rounds :: "'r uring \<Rightarrow> abi \<Rightarrow> u32 \<Rightarrow> event list \<Rightarrow> ('f, 'r) worker \<Rightarrow> fault + ('f, 'r) worker" where
  "thread_rounds U A sz [] w = Inr w"
| "thread_rounds U A sz (ev # evs) w =
     (if wk_runs w then seq (thread_round U A sz ev w) (thread_rounds U A sz evs) else Inr w)"

definition thread_result :: "('f, 'r) worker \<Rightarrow> 'r loop_result \<times> q_effect list" where
  "thread_result w = ((if wk_runs w then Waiting else Exited) (wk_q w), wk_log w)"

text \<open>Together they are the thread function.\<close>

lemma thread_rounds_loop:
  assumes "wk_runs w"
  shows "seq (io_loop U A (loop_tgt_ops U A) sz evs (wk_q w)) (\<lambda>res. case res of
      Waiting q3 \<Rightarrow> Inr (Waiting q3, wk_log w)
    | Exited q3 \<Rightarrow> seq (ublk_queue_deinit A (wk_page w) q3) (\<lambda>(q4, tr2). Inr (Exited q4, wk_log w @ tr2)))
    = seq (thread_rounds U A sz evs w) (\<lambda>w'. Inr (thread_result w'))"
  using assms
proof (induction evs arbitrary: w)
  case Nil
  then show ?case by (simp add: seq_def thread_result_def)
next
  case (Cons ev evs)
  have stop: "thread_rounds U A sz evs w' = Inr w'" if "\<not> wk_runs w'" for w' 
    using that by (cases evs) simp_all
  show ?case
  proof (cases "ublk_process_io U A (loop_tgt_ops U A) sz ev (wk_q w)")
    case (Inl x)
    then show ?thesis using Cons.prems by (simp add: thread_round_def seq_def)
  next
    case (Inr r)
    obtain ret adv q' where r: "r = (ret, adv, q')" by (cases r)
    show ?thesis
    proof (cases "ret < 0")
      case True
      then show ?thesis
        using Cons.prems Inr r by (auto simp: thread_round_def seq_def stop thread_result_def split: sum.split)
    next
      case False
      let ?w = "w\<lparr>wk_q := q', wk_from := sq_view U (ring q'), wk_k := (wk_k w)\<lparr>k_sub := sq_view U (ring q'), k_posted := []\<rparr>\<rparr>"
      show ?thesis using Cons.IH [of ?w] Cons.prems Inr r False by (simp add: thread_round_def)
    qed
  qed
qed

lemma handler_is_thread:
  "ublk_io_handler_fn U A (loop_tgt_ops U A) sz depth env evs q =
     seq (thread_starts U A env depth descs f q) (\<lambda>w. seq (thread_rounds U A sz evs w) (\<lambda>w'. Inr (thread_result w')))"
proof (cases "ublk_queue_init A env depth q")
  case (Inl x)
  then show ?thesis by (simp add: ublk_io_handler_fn_def thread_starts_def seq_def)
next
  case (Inr r)
  obtain ret q1 tr where r: "r = (ret, q1, tr)" by (cases r)
  show ?thesis
  proof (cases "ret = 0")
    case True
    then show ?thesis
      using thread_rounds_loop [where 'a = 'f, of "\<lparr>wk_from = v, wk_k = k, wk_q = q2, wk_page = env_page env, wk_log = tr, wk_runs = True\<rparr>" for v k q2]
      by (cases "ublk_submit_fetch_commands U A q1") (simp_all add: ublk_io_handler_fn_def thread_starts_def Inr r)
  next
    case False
    then show ?thesis
      using Inr r by (cases evs) (simp_all add: ublk_io_handler_fn_def thread_starts_def thread_result_def)
  qed
qed

section \<open>The server\<close>

text \<open>What the call of the system in \<open>ublk_process_io\<close> finds; \<open>ret\<close> is its result.\<close>

definition found :: "int \<Rightarrow> ('f, 'r) worker \<Rightarrow> event" where
  "found ret w = round_event ret ((wk_k w)\<lparr>k_sub := wk_from w\<rparr>) (wk_k w)"

definition may_wake :: "int \<Rightarrow> ('f, 'r) worker \<Rightarrow> bool" where
  "may_wake ret w \<longleftrightarrow> wk_runs w \<and> (ret = - ETIME \<longrightarrow> process_io_timeout (wk_q w) \<noteq> None)"

inductive serve_step ::
  "'r uring \<Rightarrow> abi \<Rightarrow> 'f backing \<Rightarrow> u32 \<Rightarrow> nat \<Rightarrow> 'f \<times> ('f, 'r) worker list \<Rightarrow> (nat \<times> 'f dev_event) list
   \<Rightarrow> 'f \<times> ('f, 'r) worker list \<Rightarrow> bool"
  for U A B sz n where
  create: "\<lbrakk>queue_zeroed q; env_ok U depth env; depth \<le> UBLK_QUEUE_DEPTH; depth \<le> n;
      thread_starts U A env depth descs f q = Inr w\<rbrakk> \<Longrightarrow> serve_step U A B sz n (f, ws) [] (f, ws @ [w])"
| kernel: "\<lbrakk>i < length ws; wk_runs (ws ! i); kernel_act A B a ((wk_k (ws ! i))\<lparr>k_store := f\<rparr>) = Some (es, k')\<rbrakk>
    \<Longrightarrow> serve_step U A B sz n (f, ws) (map (Pair i) es) (k_store k', ws[i := (ws ! i)\<lparr>wk_k := k'\<rparr>])"
| wake: "\<lbrakk>i < length ws; may_wake ret (ws ! i); thread_round U A sz (found ret (ws ! i)) (ws ! i) = Inr w\<rbrakk>
    \<Longrightarrow> serve_step U A B sz n (f, ws) [] (f, ws[i := w])"

inductive_cases serve_stepE: "serve_step U A B sz n (f, ws) es (f', ws')"

inductive serve_reach ::
  "'r uring \<Rightarrow> abi \<Rightarrow> 'f backing \<Rightarrow> u32 \<Rightarrow> nat \<Rightarrow> 'f \<Rightarrow> 'f \<times> ('f, 'r) worker list \<Rightarrow> (nat \<times> 'f dev_event) list \<Rightarrow> bool"
  for U A B sz n f0 where
  start: "serve_reach U A B sz n f0 (f0, []) []"
| step: "\<lbrakk>serve_reach U A B sz n f0 x tr; serve_step U A B sz n x es y\<rbrakk> \<Longrightarrow> serve_reach U A B sz n f0 y (tr @ es)"

section \<open>Its invariant\<close>

text \<open>
  A running thread holds what it has acquired and not released; one that has returned holds nothing
  (after a failed \<open>mmap\<close> it has also unmapped the address \<open>MAP_FAILED\<close>) and leaves only requests that
  were delivered after its last round.
\<close>

definition left_over :: "(nat \<Rightarrow> slot) \<Rightarrow> ('f, 'r) worker \<Rightarrow> bool" where
  "left_over s w \<longleftrightarrow> (\<forall>t. s t \<noteq> Free \<longrightarrow> t \<in> (utag \<circ> cqe_user_data) ` set (k_posted (wk_k w)))"

definition clean :: "('f, 'r) worker \<Rightarrow> bool" where
  "clean w \<longleftrightarrow> released (wk_log w) = acquired (wk_log w)
     \<or> (\<exists>size. released (wk_log w) = add_mset (Map MAP_FAILED size) (acquired (wk_log w)))"

definition worker_inv :: "'r uring \<Rightarrow> abi \<Rightarrow> 'f backing \<Rightarrow> nat \<Rightarrow> (nat \<Rightarrow> slot) \<Rightarrow> ('f, 'r) worker \<Rightarrow> bool" where
  "worker_inv U A B n s w \<longleftrightarrow>
     (if wk_runs w
      then mid_inv U A B n s (wk_from w) (wk_k w) (wk_q w) \<and> q_depth (wk_q w) \<le> length (ios (wk_q w))
        \<and> acquired (wk_log w) = holdings A (wk_page w) (wk_q w) + released (wk_log w)
        \<and> (\<exists>fd. Ring_Opened fd (queue_ring (q_depth (wk_q w))) \<in> set (wk_log w))
      else left_over s w \<and> clean w)"

definition server_inv :: "'r uring \<Rightarrow> abi \<Rightarrow> 'f backing \<Rightarrow> nat \<Rightarrow> (nat \<Rightarrow> nat \<Rightarrow> slot) \<Rightarrow> ('f, 'r) worker list \<Rightarrow> bool" where
  "server_inv U A B n sl ws \<longleftrightarrow>
     (\<forall>i < length ws. worker_inv U A B n (sl i) (ws ! i)) \<and> (\<forall>i \<ge> length ws. sl i = (\<lambda>_. Free))"

lemma mid_inv_store [simp]: "mid_inv U A B n sl from (k\<lparr>k_store := f\<rparr>) q = mid_inv U A B n sl from k q"
  by (simp add: mid_inv_def sim_def carried_def cookies_def)

lemma server_inv_update:
  assumes "server_inv U A B n sl ws" and "i < length ws" and "worker_inv U A B n s w"
  shows "server_inv U A B n (sl(i := s)) (ws[i := w])"
  using assms by (auto simp: server_inv_def nth_list_update)

lemma starts_inv:
  assumes ring: "uring_ok U n" and abi: "abi_ok A" and "queue_zeroed q" and "env_ok U depth env" and "depth \<le> UBLK_QUEUE_DEPTH"
    and n: "depth \<le> n" and run: "thread_starts U A env depth descs f q = Inr w"
  shows "worker_inv U A B n (\<lambda>_. Free) w"
  using assms(3-5)
proof (cases rule: queue_init_result [where A = A])
  case (failed qf trf)
  then have "w = w\<lparr>wk_runs := False, wk_log := trf\<rparr>" using run by (auto simp: thread_starts_def ENOMEM_def)
  then have w: "\<not> wk_runs w" "wk_log w = trf" by (metis worker.select_convs(5,6) worker.surjective worker.update_convs(5,6))+
  show ?thesis using failed(2) w by (cases "env_mmap env = None") (auto simp: worker_inv_def left_over_def clean_def)
next
  case (ready q1 tr)
  have n1: "q_depth q1 \<le> n" using ready(3) n by simp
  obtain q2 where q2: "ublk_submit_fetch_commands U A q1 = Inr q2" by (rule submit_fetch_fresh [OF ring abi ready(2) n1])
  have same: "resources q2 = resources q1" using submit_fetch_resources q2 by (simp add: ublk_submit_fetch_commands_def)
  have len: "q_depth q1 \<le> length (ios q1)" using ready(2) by (simp add: queue_fresh_def)
  have w: "w = \<lparr>wk_from = sq_view U (ring q2), wk_k = \<lparr>k_sub = sq_view U (ring q2), k_held = [], k_posted = [], k_descs = descs, k_store = f\<rparr>,
      wk_q = q2, wk_page = env_page env, wk_log = tr, wk_runs = True\<rparr>"
    using run ready(1) q2 by (simp add: thread_starts_def)
  show ?thesis
    using dev_mid_inv [OF start_inv [OF ring abi ready(2) n1 q2, where B = B and descs = descs and ?f0.0 = f]]
      ready(3-5,7) holdings_resources [OF same len] resources_eqD(3,4) [OF same] len
    by (simp add: w worker_inv_def)
qed

text \<open>A thread that is done.\<close>

lemma done_left_over:
  assumes ring: "uring_ok U n" and inv: "mid_inv U A B n s (wk_from w) (wk_k w) (wk_q w)" and dn: "ublk_queue_is_done U (wk_q w)"
  shows "left_over s w"
  unfolding left_over_def
proof (intro allI impI)
  fix t
  assume a: "s t \<noteq> Free"
  have v: "sq_view U (ring (wk_q w)) = []" and io: "io_inflight (wk_q w) = 0"
    using dn by (simp_all add: ublk_queue_is_done_def ublk_queue_is_idle_def uring_ready [OF ring])
  obtain K where qi: "queue_inv U K {} 0 (wk_q w)" and K: "K = cookies (wk_k w)" and sim: "sim A B s (wk_k w)" and sub: "k_sub (wk_k w) = []"
    using inv v by (auto simp: mid_inv_def loop_inv_def)
  have "size {#ud \<in># K. is_target_io ud#} = 0" using queue_invD(6) [OF qi] io v by (simp add: outstanding_def)
  then have nt: "\<not> is_target_io (sqe_user_data x)" if "x \<in> set (k_held (wk_k w))" for x
    using that by (auto simp: K cookies_def filter_mset_eq_mempty_iff)
  have "t \<in> (utag \<circ> sqe_user_data) ` set (k_held (wk_k w)) \<union> (utag \<circ> cqe_user_data) ` set (k_posted (wk_k w))"
    using simD(5) [OF sim a] by (simp add: carried_def sub)
  moreover have "t \<noteq> (utag \<circ> sqe_user_data) x" if "x \<in> set (k_held (wk_k w))" for x
    using simD(3) [OF sim that] nt [OF that] a by (auto simp: entry_ok_def)
  ultimately show "t \<in> (utag \<circ> cqe_user_data) ` set (k_posted (wk_k w))" by blast
qed

lemma process_io_count:
  assumes "\<not> ublk_queue_is_done U q" and "ublk_process_io U A ops sz ev q = Inr (m, advice, q')"
  shows "\<not> m < 0"
  using assms by (auto simp: ublk_process_io_def ublk_reap_events_uring_def Let_def elim!: seq_InrE split: if_splits prod.splits)

lemma worker_wakes:
  assumes ring: "uring_ok U n" and abi: "abi_ok A" and inv: "worker_inv U A B n s w" and may: "may_wake ret w"
  obtains w' where "thread_round U A sz (found ret w) w = Inr w'" and "worker_inv U A B n s w'"
proof -
  have mid: "mid_inv U A B n s (k_sub ((wk_k w)\<lparr>k_sub := wk_from w\<rparr>)) (wk_k w) (wk_q w)"
    and len: "q_depth (wk_q w) \<le> length (ios (wk_q w))"
    and acq: "acquired (wk_log w) = holdings A (wk_page w) (wk_q w) + released (wk_log w)"
      "\<exists>fd. Ring_Opened fd (queue_ring (q_depth (wk_q w))) \<in> set (wk_log w)"
    using inv may by (simp_all add: worker_inv_def may_wake_def)
  show thesis
  proof (cases "ublk_queue_is_done U (wk_q w)")
    case True
    obtain q' tr where d: "ublk_queue_deinit A (wk_page w) (wk_q w) = Inr (q', tr)"
      and "released tr = holdings A (wk_page w) (wk_q w)" "acquired tr = {#}"
      by (rule queue_deinit_releases [OF len])
    moreover have "left_over s w" by (rule done_left_over [OF ring _ True]) (use mid in simp)
    moreover have "ublk_process_io U A (loop_tgt_ops U A) sz (found ret w) (wk_q w) = Inr (- ENODEV, [], wk_q w)"
      using True by (simp add: ublk_process_io_def)
    ultimately show thesis using acq by (intro that) (auto simp: thread_round_def ENODEV_def worker_inv_def left_over_def clean_def)
  next
    case False
    have ret: "ret = - ETIME \<Longrightarrow> process_io_timeout (wk_q w) \<noteq> None" using may by (simp add: may_wake_def)
    obtain m advice q' where p: "ublk_process_io U A (loop_tgt_ops U A) sz (found ret w) (wk_q w) = Inr (m, advice, q')"
      and i: "dev_inv U A B n s ((wk_k w)\<lparr>k_sub := sq_view U (ring q'), k_posted := []\<rparr>) q'"
      unfolding found_def by (rule thread_sim [OF ring abi mid False ret, where sz = sz])
    have same: "resources q' = resources (wk_q w)" by (rule loop_steady.process_io_steady [OF p])
    have m: "\<not> m < 0" by (rule process_io_count [OF False p])
    show thesis
    proof (rule that)
      show "thread_round U A sz (found ret w) w = Inr (w\<lparr>wk_q := q', wk_from := sq_view U (ring q'),
          wk_k := (wk_k w)\<lparr>k_sub := sq_view U (ring q'), k_posted := []\<rparr>\<rparr>)"
        using p m by (simp add: thread_round_def)
    qed (use may dev_mid_inv [OF i] acq holdings_resources [OF same len] resources_eqD(3,4) [OF same] len in
        \<open>simp add: worker_inv_def may_wake_def\<close>)
  qed
qed

lemma serve_step_sim:
  assumes ring: "uring_ok U n" and abi: "abi_ok A" and inv: "server_inv U A B n sl ws"
    and step: "serve_step U A B sz n (f, ws) es (f', ws')"
  shows "\<exists>sl'. server_run A B es (sl, f) = Some (sl', f') \<and> server_inv U A B n sl' ws'"
  using step
proof (cases rule: serve_stepE [consumes 1])
  case (1 q depth env descs w)
  have "sl (length ws) = (\<lambda>_. Free)" using inv by (simp add: server_inv_def)
  moreover have "worker_inv U A B n (\<lambda>_. Free) w" by (rule starts_inv [OF ring abi 1(4-8)])
  ultimately show ?thesis using inv 1(1-3) by (auto simp: server_inv_def nth_append less_Suc_eq)
next
  case (2 i a esi k')
  have w: "mid_inv U A B n (sl i) (wk_from (ws ! i)) ((wk_k (ws ! i))\<lparr>k_store := f\<rparr>) (wk_q (ws ! i))"
    using inv 2(2,3) by (simp add: server_inv_def worker_inv_def)
  then have "sim A B (sl i) ((wk_k (ws ! i))\<lparr>k_store := f\<rparr>)" by (simp add: mid_inv_def)
  then obtain s where "device_run A B esi (sl i, k_store ((wk_k (ws ! i))\<lparr>k_store := f\<rparr>)) = Some (s, k_store k')" "sim A B s k'"
    using kernel_act_sim [OF _ 2(4)] by blast
  then have s: "device_run A B esi (sl i, f) = Some (s, k_store k')" "sim A B s k'" by simp_all
  have "worker_inv U A B n s ((ws ! i)\<lparr>wk_k := k'\<rparr>)"
    using mid_inv_act [OF w 2(4) s(2)] inv 2(2,3) by (simp add: server_inv_def worker_inv_def)
  then show ?thesis
    using server_run_queue [where sl = sl and i = i, OF s(1)] server_inv_update [OF inv 2(2)] 2(1,5,6) by auto
next
  case (3 i ret w)
  have i: "worker_inv U A B n (sl i) (ws ! i)" using inv 3(2) by (simp add: server_inv_def)
  obtain w1 where "thread_round U A sz (found ret (ws ! i)) (ws ! i) = Inr w1" and "worker_inv U A B n (sl i) w1"
    by (rule worker_wakes [OF ring abi i 3(3)])
  then have "worker_inv U A B n (sl i) w" using 3(4) by simp
  then show ?thesis using server_inv_update [OF inv 3(2), of "sl i" w] 3(1,5,6) by auto
qed

lemma serve_reach_inv:
  assumes ring: "uring_ok U n" and abi: "abi_ok A" and reach: "serve_reach U A B sz n f0 (f, ws) tr"
  shows "\<exists>sl. server_run A B tr (\<lambda>_ _. Free, f0) = Some (sl, f) \<and> server_inv U A B n sl ws"
  using reach
proof (induction "(f, ws)" tr arbitrary: f ws rule: serve_reach.induct)
  case start
  then show ?case by (simp add: server_inv_def)
next
  case (step x tr es)
  obtain f1 ws1 where x: "x = (f1, ws1)" by (cases x)
  obtain sl1 where "server_run A B tr (\<lambda>_ _. Free, f0) = Some (sl1, f1)" and inv1: "server_inv U A B n sl1 ws1"
    using step.hyps(2) [OF x] by blast
  moreover obtain sl where "server_run A B es (sl1, f1) = Some (sl, f)" "server_inv U A B n sl ws"
    using serve_step_sim [OF ring abi inv1] step.hyps(3) x by blast
  ultimately show ?case by (auto simp: server_run_append)
qed

section \<open>The properties\<close>

text \<open>
  C3. The whole server is one block device, whatever the interleaving of its queue threads and the
  kernel: every run is a run of the device with a slot for each tag of each queue, all queues work on
  the same backing file, and requests of different queues are never mixed up. No thread faults in a
  round. A thread that has returned has released what it acquired (one thing more, the address
  \<open>MAP_FAILED\<close>, when its \<open>mmap\<close> failed) and leaves only requests unanswered that the driver delivered
  after its last round.
\<close>

theorem server_refines:
  assumes "uring_ok U n" and "abi_ok A" and "serve_reach U A B sz n f0 (f, ws) tr"
  shows "\<exists>sl. server_run A B tr (\<lambda>_ _. Free, f0) = Some (sl, f)
    \<and> (\<forall>i < length ws. (wk_runs (ws ! i) \<or> left_over (sl i) (ws ! i) \<and> clean (ws ! i))
        \<and> (\<forall>ret. may_wake ret (ws ! i) \<longrightarrow> (\<exists>w. thread_round U A sz (found ret (ws ! i)) (ws ! i) = Inr w)))"
proof -
  obtain sl where run: "server_run A B tr (\<lambda>_ _. Free, f0) = Some (sl, f)" and inv: "server_inv U A B n sl ws"
    using serve_reach_inv [OF assms] by blast
  have "worker_inv U A B n (sl i) (ws ! i)" if "i < length ws" for i using inv that by (simp add: server_inv_def)
  then show ?thesis using run worker_wakes [OF assms(1,2)] by (metis worker_inv_def)
qed

text \<open>Two queues of one tag each, which are both sent a request.\<close>

lemma serve_acts:
  assumes "serve_reach U A B sz n f0 (f, ws) tr" and "i < length ws" and "wk_runs (ws ! i)"
    and "kernel_run A B acts ((wk_k (ws ! i))\<lparr>k_store := f\<rparr>) = Some (es, k')"
  shows "\<exists>s. serve_reach U A B sz n f0 (k_store k', ws[i := (ws ! i)\<lparr>wk_k := k'\<lparr>k_store := s\<rparr>\<rparr>]) (tr @ map (Pair i) es)"
  using assms
proof (induction acts arbitrary: f ws tr es)
  case Nil
  then have "k'\<lparr>k_store := k_store (wk_k (ws ! i))\<rparr> = wk_k (ws ! i)" "es = []" "k_store k' = f" by auto
  then show ?case using Nil.prems(1) by (auto intro: exI [of _ "k_store (wk_k (ws ! i))"])
next
  case (Cons a acts)
  obtain es1 k1 es2 where a: "kernel_act A B a ((wk_k (ws ! i))\<lparr>k_store := f\<rparr>) = Some (es1, k1)"
    and r: "kernel_run A B acts k1 = Some (es2, k')" and es: "es = es1 @ es2" using Cons.prems(4) by (auto split: option.splits)
  let ?ws = "ws[i := (ws ! i)\<lparr>wk_k := k1\<rparr>]"
  have "serve_reach U A B sz n f0 (k_store k1, ?ws) (tr @ map (Pair i) es1)"
    by (rule serve_reach.step [OF Cons.prems(1) serve_step.kernel [OF Cons.prems(2,3) a]])
  then show ?case
    using Cons.IH [of "k_store k1" ?ws "tr @ map (Pair i) es1" es2] Cons.prems(2,3) r by (simp add: es)
qed

text \<open>A round of one queue and the kernel, as in \<open>Ublk_Device\<close>, is a run of the server.\<close>

lemma serve_round:
  assumes reach: "serve_reach U A B sz n f0 (f, ws) tr" and i: "i < length ws" and runs: "wk_runs (ws ! i)"
    and from_eq: "wk_from (ws ! i) = k_sub (wk_k (ws ! i))"
    and rnd: "dev_round U A B sz acts ((wk_k (ws ! i))\<lparr>k_store := f\<rparr>, wk_q (ws ! i)) es (k2, q2)"
  shows "\<exists>w. serve_reach U A B sz n f0 (k_store k2, ws[i := w]) (tr @ map (Pair i) es) \<and> wk_runs w
    \<and> wk_from w = k_sub k2 \<and> wk_q w = q2 \<and> (\<forall>g. (wk_k w)\<lparr>k_store := g\<rparr> = k2\<lparr>k_store := g\<rparr>)"
proof -
  let ?w = "ws ! i"
  from rnd obtain k' ret m advice where nd: "\<not> ublk_queue_is_done U (wk_q ?w)"
    and run: "kernel_run A B acts ((wk_k ?w)\<lparr>k_store := f\<rparr>) = Some (es, k')"
    and ret: "ret = - ETIME \<Longrightarrow> process_io_timeout (wk_q ?w) \<noteq> None"
    and p: "ublk_process_io U A (loop_tgt_ops U A) sz (round_event ret ((wk_k ?w)\<lparr>k_store := f\<rparr>) k') (wk_q ?w) = Inr (m, advice, q2)"
    and k2: "k2 = k'\<lparr>k_sub := sq_view U (ring q2), k_posted := []\<rparr>"
    by (rule dev_roundE) blast
  obtain s where r1: "serve_reach U A B sz n f0 (k_store k', ws[i := ?w\<lparr>wk_k := k'\<lparr>k_store := s\<rparr>\<rparr>]) (tr @ map (Pair i) es)"
    using serve_acts [OF reach i runs run] by blast
  let ?w1 = "?w\<lparr>wk_k := k'\<lparr>k_store := s\<rparr>\<rparr>"
  let ?w2 = "?w1\<lparr>wk_q := q2, wk_from := sq_view U (ring q2), wk_k := (wk_k ?w1)\<lparr>k_sub := sq_view U (ring q2), k_posted := []\<rparr>\<rparr>"
  have e: "found ret ?w1 = round_event ret ((wk_k ?w)\<lparr>k_store := f\<rparr>) k'" by (simp add: found_def round_event_def from_eq)
  have t: "thread_round U A sz (found ret ?w1) ?w1 = Inr ?w2"
    using p process_io_count [OF nd p] unfolding e by (simp add: thread_round_def)
  have may: "may_wake ret ?w1" using runs ret by (simp add: may_wake_def)
  have "serve_step U A B sz n (k_store k', ws[i := ?w1]) [] (k_store k', (ws[i := ?w1])[i := ?w2])"
    using serve_step.wake [of i "ws[i := ?w1]" ret U A sz ?w2 B n "k_store k'"] i may t by simp
  then have "serve_reach U A B sz n f0 (k_store k2, ws[i := ?w2]) (tr @ map (Pair i) es)"
    using serve_reach.step [OF r1] k2 by fastforce
  then show ?thesis by (rule_tac x = ?w2 in exI) (use runs k2 in simp)
qed

lemma demo_init:
  obtains q tr where "ublk_queue_init linux_abi (demo_env None) 1 demo_zeroed = Inr (0, q, tr)"
    and "queue_fresh (slot_uring 1) q" and "q_depth q = 1"
proof -
  have ok: "env_ok (slot_uring 1) 1 (demo_env None)" by simp
  have d: "1 \<le> UBLK_QUEUE_DEPTH" by (simp add: UBLK_QUEUE_DEPTH_def)
  have "\<exists>q tr. ublk_queue_init linux_abi (demo_env None) 1 demo_zeroed = Inr (0, q, tr)"
    by (simp add: ublk_queue_init_def demo_env_def demo_zeroed_def with_io_def UBLK_QUEUE_DEPTH_def)
  then show thesis
    using that by (cases rule: queue_init_result [where A = linux_abi, OF demo_zeroed_ok ok d]) (auto simp: ENOMEM_def)
qed

lemma demo_thread:
  fixes B :: "'f backing"
  obtains w :: "'f \<Rightarrow> ('f, sqe list \<times> sqe list) worker"
  where "\<And>f ws tr. serve_reach (slot_uring 1) linux_abi B 65536 1 f0 (f, ws) tr
      \<Longrightarrow> serve_reach (slot_uring 1) linux_abi B 65536 1 f0 (f, ws @ [w f]) tr"
    and "\<And>f. wk_runs (w f)" and "\<And>f. q_depth (wk_q (w f)) = 1" and "\<And>f. \<not> queue_stopping (wk_q (w f))"
    and "\<And>f. wk_from (w f) = k_sub (wk_k (w f))" and "\<And>f g. (wk_k (w f))\<lparr>k_store := g\<rparr> = wk_k (w g)"
    and "\<And>f. dev_inv (slot_uring 1) linux_abi B 1 (\<lambda>_. Free) (wk_k (w f)) (wk_q (w f))"
    and "\<And>f d. sent linux_abi d \<Longrightarrow> \<exists>k'. kernel_run linux_abi B [Take, Deliver 0 d] (wk_k (w f)) = Some ([Start 0 d], k') \<and> k_held k' = []"
proof -
  let ?U = "slot_uring 1"
  have ok: "env_ok ?U 1 (demo_env None)" by simp
  have d: "1 \<le> UBLK_QUEUE_DEPTH" by (simp add: UBLK_QUEUE_DEPTH_def)
  obtain q0 log where q0: "ublk_queue_init linux_abi (demo_env None) 1 demo_zeroed = Inr (0, q0, log)"
    and fresh: "queue_fresh ?U q0" "q_depth q0 = 1" by (rule demo_init)
  have n0: "q_depth q0 \<le> 1" by (simp add: fresh(2))
  obtain q where q: "ublk_submit_fetch_commands ?U linux_abi q0 = Inr q" and st: "\<not> queue_stopping q" and dq: "q_depth q = 1"
    and act: "\<And>descs f d. sent linux_abi d \<Longrightarrow> \<exists>k'. kernel_run linux_abi B [Take, Deliver 0 d]
        \<lparr>k_sub = sq_view ?U (ring q), k_held = [], k_posted = [], k_descs = descs, k_store = f\<rparr> = Some ([Start 0 d], k') \<and> k_held k' = []"
    by (rule demo_fetched [OF fresh, where B = B]) blast
  define w where "w = (\<lambda>f :: 'f. \<lparr>wk_from = sq_view ?U (ring q),
    wk_k = \<lparr>k_sub = sq_view ?U (ring q), k_held = [], k_posted = [], k_descs = (\<lambda>_. demo_read), k_store = f\<rparr>,
    wk_q = q, wk_page = env_page (demo_env None), wk_log = log, wk_runs = True\<rparr>)"
  have new: "thread_starts ?U linux_abi (demo_env None) 1 (\<lambda>_. demo_read) f demo_zeroed = Inr (w f)" for f
    using q0 q by (simp add: thread_starts_def w_def)
  have inv: "dev_inv ?U linux_abi B 1 (\<lambda>_. Free) (wk_k (w f)) (wk_q (w f))" for f
    using start_inv [OF uring_ok_slot abi_ok_linux fresh(1) n0 q] by (simp add: w_def)
  show thesis
  proof (rule that [of w])
    show "serve_reach ?U linux_abi B 65536 1 f0 (f, ws @ [w f]) tr"
      if "serve_reach ?U linux_abi B 65536 1 f0 (f, ws) tr" for f ws tr
      using serve_reach.step [OF that serve_step.create [OF demo_zeroed_ok ok d order_refl new]] by simp
    show "\<exists>k'. kernel_run linux_abi B [Take, Deliver 0 d] (wk_k (w f)) = Some ([Start 0 d], k') \<and> k_held k' = []"
      if "sent linux_abi d" for f d using act [OF that] by (simp only: w_def worker.select_convs)
  qed (use dq st inv in \<open>simp_all add: w_def\<close>)
qed

theorem server_refines_witness:
  "\<exists>f ws sl. length ws = 2 \<and> serve_reach (slot_uring 1) linux_abi demo_backing 65536 1 [] (f, ws) [(0, Start 0 demo_read), (1, Start 0 demo_read)]
     \<and> server_run linux_abi demo_backing [(0, Start 0 demo_read), (1, Start 0 demo_read)] (\<lambda>_ _. Free, []) = Some (sl, f)
     \<and> sl 0 0 = Pending demo_read \<and> sl 1 0 = Pending demo_read"
proof -
  let ?R = "serve_reach (slot_uring 1) linux_abi demo_backing 65536 1 []"
  obtain w where c: "\<And>f ws tr. ?R (f, ws) tr \<Longrightarrow> ?R (f, ws @ [w f]) tr" and runs: "\<And>f. wk_runs (w f)"
    and st: "\<And>f g. (wk_k (w f))\<lparr>k_store := g\<rparr> = wk_k (w g)"
    and act: "\<And>f d. sent linux_abi d \<Longrightarrow> \<exists>k'. kernel_run linux_abi demo_backing [Take, Deliver 0 d] (wk_k (w f)) = Some ([Start 0 d], k') \<and> k_held k' = []"
    by (rule demo_thread) blast
  have r2: "?R ([], [w [], w []]) []" using c [OF c [OF serve_reach.start]] by simp
  obtain k1 where a1: "kernel_run linux_abi demo_backing [Take, Deliver 0 demo_read] ((wk_k ([w [], w []] ! 0))\<lparr>k_store := []\<rparr>) = Some ([Start 0 demo_read], k1)"
    using act [OF demo_read_sent, of "[]"] st by auto
  obtain w1 where r3: "?R (k_store k1, [w1, w []]) [(0, Start 0 demo_read)]"
    using serve_acts [OF r2 _ _ a1] runs by auto
  obtain k2 where a2: "kernel_run linux_abi demo_backing [Take, Deliver 0 demo_read] ((wk_k ([w1, w []] ! 1))\<lparr>k_store := k_store k1\<rparr>) = Some ([Start 0 demo_read], k2)"
    using act [OF demo_read_sent, of "k_store k1"] st by auto
  obtain w2 where r4: "?R (k_store k2, [w1, w2]) [(0, Start 0 demo_read), (1, Start 0 demo_read)]"
    using serve_acts [OF r3 _ _ a2] runs by auto
  from server_refines [OF uring_ok_slot abi_ok_linux r4] obtain sl where
    run: "server_run linux_abi demo_backing [(0, Start 0 demo_read), (1, Start 0 demo_read)] (\<lambda>_ _. Free, []) = Some (sl, k_store k2)" by blast
  then have "sl 0 0 = Pending demo_read \<and> sl 1 0 = Pending demo_read" by (auto simp: server_step_def)
  with r4 run show ?thesis by (intro exI [of _ "k_store k2"] exI [of _ "[w1, w2]"] exI [of _ sl]) simp
qed

text \<open>
  C9. The rings are large enough: the ring of a running queue thread was set up with one submission
  entry and one completion entry for each tag (\<open>IORING_SETUP_CQSIZE\<close> is set), and in no reachable state
  of the server does the thread queue more entries, or are more completions waiting for it. So the
  completion queue never overflows.
\<close>

theorem server_rings_suffice:
  assumes "uring_ok U n" and "abi_ok A" and "serve_reach U A B sz n f0 (f, ws) tr"
    and "i < length ws" and "wk_runs (ws ! i)"
  shows "\<exists>fd s. Ring_Opened fd s \<in> set (wk_log (ws ! i)) \<and> s = queue_ring (q_depth (wk_q (ws ! i)))
    \<and> bit (rs_flags s) 3 \<and> length (wk_from (ws ! i)) \<le> unat (rs_entries s)
    \<and> length (k_posted (wk_k (ws ! i))) + length (k_held (wk_k (ws ! i))) \<le> unat (rs_cq_entries s)"
proof -
  let ?w = "ws ! i"
  obtain sl where "server_inv U A B n sl ws" using serve_reach_inv [OF assms(1-3)] by blast
  then have mid: "mid_inv U A B n (sl i) (wk_from ?w) (wk_k ?w) (wk_q ?w)"
    and log: "\<exists>fd. Ring_Opened fd (queue_ring (q_depth (wk_q ?w))) \<in> set (wk_log ?w)"
    using assms(4,5) by (auto simp: server_inv_def worker_inv_def)
  obtain K where qi: "queue_inv U K {} 0 (wk_q ?w)" and K: "outstanding U K (wk_q ?w) = cookies (wk_k ?w)"
    and v: "wk_from ?w = sq_view U (ring (wk_q ?w))"
    using mid by (auto simp: mid_inv_def loop_inv_def outstanding_def add.commute)
  have d: "q_depth (wk_q ?w) \<le> 128" using queue_invD(2) [OF qi] by (simp add: UBLK_QUEUE_DEPTH_def)
  have bound: "size (outstanding U K (wk_q ?w)) \<le> q_depth (wk_q ?w)" by (rule queue_inv_outstanding_bound [OF qi])
  have from_le: "length (wk_from ?w) \<le> q_depth (wk_q ?w)" using bound by (simp add: outstanding_def v)
  have rest_le: "length (k_posted (wk_k ?w)) + length (k_held (wk_k ?w)) \<le> q_depth (wk_q ?w)"
    using bound by (simp add: K cookies_def)
  have u: "unat (word_of_nat (q_depth (wk_q ?w)) :: u32) = q_depth (wk_q ?w)" by (rule unat_of_nat_small) (use d in simp)
  have b: "bit (rs_flags (queue_ring (q_depth (wk_q ?w)))) 3"
    by (simp add: queue_ring_def ublk_setup_ring_def bit_or_iff IORING_SETUP_CQSIZE_def bit_exp_iff)
  show ?thesis using log b from_le rest_le u by (auto simp: queue_ring_def ublk_setup_ring_def)
qed

theorem server_rings_suffice_witness:
  "\<exists>f ws fd s. serve_reach (slot_uring 1) linux_abi demo_backing 65536 1 [] (f, ws) []
     \<and> length ws = 1 \<and> Ring_Opened fd s \<in> set (wk_log (ws ! 0)) \<and> rs_cq_entries s = 1"
proof -
  let ?R = "serve_reach (slot_uring 1) linux_abi demo_backing 65536 1 []"
  obtain w where c: "\<And>f ws tr. ?R (f, ws) tr \<Longrightarrow> ?R (f, ws @ [w f]) tr" and w: "\<And>f. wk_runs (w f)" "\<And>f. q_depth (wk_q (w f)) = 1"
    by (rule demo_thread) blast
  have r: "?R ([], [w []]) []" using c [OF serve_reach.start] by simp
  obtain fd s where "Ring_Opened fd s \<in> set (wk_log ([w []] ! 0))" "s = queue_ring (q_depth (wk_q ([w []] ! 0)))"
    using server_rings_suffice [OF uring_ok_slot abi_ok_linux r, of 0] w by auto
  with r w show ?thesis
    by (intro exI [of _ "[]"] exI [of _ "[w []]"] exI [of _ fd] exI [of _ s]) (simp add: queue_ring_def ublk_setup_ring_def)
qed

end
