(* ===== verification/Ublk_Storage.thy ===== *)
theory Ublk_Storage
  imports Ublk_Server
begin

text \<open>
  The server keeps data: what one queue thread had written to the backing file another reads back.
  The refinement of \<open>Ublk_Server\<close> gives the order in which the requests are performed; here the backing
  file has bytes.
\<close>

section \<open>A backing file of bytes\<close>

text \<open>
  Reads and writes copy between memory and file; a short or failed write may leave anything in its own
  range, but nothing else changes.
\<close>

definition stores :: "'f backing \<Rightarrow> ('f \<Rightarrow> nat \<Rightarrow> u8) \<Rightarrow> ('f \<Rightarrow> nat \<Rightarrow> u8) \<Rightarrow> bool" where
  "stores B mem fbytes \<longleftrightarrow> (\<forall>op addr len off f r f'. B op addr len off f = (r, f') \<longrightarrow>
     (op = Op_Write \<longrightarrow> (\<forall>x. x < off \<or> off + len \<le> x \<longrightarrow> fbytes f' x = fbytes f x)
        \<and> (r = word_of_nat len \<longrightarrow> (\<forall>x < len. fbytes f' (off + x) = mem f (unat addr + x)))) \<and>
     (op \<noteq> Op_Write \<longrightarrow> fbytes f' = fbytes f) \<and>
     (op = Op_Read \<and> r = word_of_nat len \<longrightarrow> (\<forall>x < len. mem f' (unat addr + x) = fbytes f (off + x))))"

definition is_write :: "abi \<Rightarrow> iod \<Rightarrow> bool" where
  "is_write A d \<longleftrightarrow> abi_get_op A (iod_op_flags d) = abi_op_write A"

definition is_read :: "abi \<Rightarrow> iod \<Rightarrow> bool" where
  "is_read A d \<longleftrightarrow> abi_get_op A (iod_op_flags d) = abi_op_read A"

definition first_byte :: "iod \<Rightarrow> nat" where
  "first_byte d = 512 * unat (iod_start_sector d)"

definition byte_count :: "iod \<Rightarrow> nat" where
  "byte_count d = 512 * unat (iod_nr_sectors d)"

definition byte_range :: "iod \<Rightarrow> nat set" where
  "byte_range d = {first_byte d ..< first_byte d + byte_count d}"

text \<open>The whole request was transferred.\<close>

definition complete :: "iod \<Rightarrow> s32 \<Rightarrow> bool" where
  "complete d r \<longleftrightarrow> r = word_of_nat (byte_count d)"

lemma perform_write:
  assumes "abi_ok A" and "stores B mem fbytes" and "is_write A d" and "perform A B d f = (r, f')"
  shows "x \<notin> byte_range d \<Longrightarrow> fbytes f' x = fbytes f x"
    and "complete d r \<Longrightarrow> x < byte_count d \<Longrightarrow> fbytes f' (first_byte d + x) = mem f (unat (iod_addr d) + x)"
proof -
  have "abi_op_write A \<noteq> abi_op_read A" using assms(1) by (auto simp: abi_ok_def)
  then have "B Op_Write (iod_addr d) (byte_count d) (first_byte d) f = (r, f')"
    using assms(3,4) by (simp add: perform_def is_write_def byte_count_def first_byte_def Let_def)
  then show "x \<notin> byte_range d \<Longrightarrow> fbytes f' x = fbytes f x"
    "complete d r \<Longrightarrow> x < byte_count d \<Longrightarrow> fbytes f' (first_byte d + x) = mem f (unat (iod_addr d) + x)"
    using assms(2) unfolding stores_def byte_range_def complete_def by auto
qed

lemma perform_no_write:
  assumes "stores B mem fbytes" and "\<not> is_write A d" and "perform A B d f = (r, f')"
  shows "fbytes f' = fbytes f"
proof -
  obtain op addr len off where "B op addr len off f = (r, f')" "op \<noteq> Op_Write"
    using assms(2,3) by (auto simp: perform_def is_write_def Let_def split: if_splits)
  then show ?thesis using assms(1) unfolding stores_def by blast
qed

lemma perform_read:
  assumes "stores B mem fbytes" and "is_read A d" and "perform A B d f = (r, f')" and "complete d r" and "x < byte_count d"
  shows "mem f' (unat (iod_addr d) + x) = fbytes f (first_byte d + x)"
proof -
  have "B Op_Read (iod_addr d) (byte_count d) (first_byte d) f = (r, f')"
    using assms(2,3) by (simp add: perform_def is_read_def byte_count_def first_byte_def Let_def)
  then show ?thesis using assms(1,4,5) unfolding stores_def complete_def by blast
qed

section \<open>Bytes that are left alone\<close>

text \<open>No write to \<open>R\<close> is performed, and nobody else changes those bytes of the file.\<close>

fun spares :: "abi \<Rightarrow> ('f \<Rightarrow> nat \<Rightarrow> u8) \<Rightarrow> nat set \<Rightarrow> nat \<times> 'f dev_event \<Rightarrow> (nat \<Rightarrow> nat \<Rightarrow> slot) \<times> 'f \<Rightarrow> bool" where
  "spares A fbytes R (i, Perform t) (sl, f) \<longleftrightarrow> (\<forall>d. sl i t = Pending d \<longrightarrow> is_write A d \<longrightarrow> byte_range d \<inter> R = {})"
| "spares A fbytes R (i, Touched g) (sl, f) \<longleftrightarrow> (\<forall>x \<in> R. fbytes (g f) x = fbytes f x)"
| "spares A fbytes R (i, e) (sl, f) \<longleftrightarrow> True"

fun undisturbed ::
  "abi \<Rightarrow> 'f backing \<Rightarrow> ('f \<Rightarrow> nat \<Rightarrow> u8) \<Rightarrow> nat set \<Rightarrow> (nat \<times> 'f dev_event) list \<Rightarrow> (nat \<Rightarrow> nat \<Rightarrow> slot) \<times> 'f \<Rightarrow> bool" where
  "undisturbed A B fbytes R [] x \<longleftrightarrow> True"
| "undisturbed A B fbytes R (e # es) x \<longleftrightarrow>
     spares A fbytes R e x \<and> (case server_step A B e x of None \<Rightarrow> True | Some x' \<Rightarrow> undisturbed A B fbytes R es x')"

lemma spares_keeps:
  assumes abi: "abi_ok A" and st: "stores B mem fbytes" and sp: "spares A fbytes R (i, e) (sl, f)"
    and step: "server_step A B (i, e) (sl, f) = Some (sl', f')" and x: "x \<in> R"
  shows "fbytes f' x = fbytes f x"
proof (cases e)
  case (Perform t)
  then obtain d r where d: "sl i t = Pending d" and p: "perform A B d f = (r, f')"
    using step by (auto simp: server_step_def split: option.splits slot.splits prod.splits)
  show ?thesis
  proof (cases "is_write A d")
    case True
    then have "x \<notin> byte_range d" using sp Perform d x by auto
    then show ?thesis by (rule perform_write(1) [OF abi st True p])
  qed (simp add: perform_no_write [OF st _ p])
qed (use step sp x in \<open>auto simp: server_step_def split: option.splits if_splits\<close>)

lemma undisturbed_keeps:
  assumes "abi_ok A" and "stores B mem fbytes"
  shows "undisturbed A B fbytes R es (sl, f) \<Longrightarrow> server_run A B es (sl, f) = Some (sl', f') \<Longrightarrow> x \<in> R \<Longrightarrow> fbytes f' x = fbytes f x"
proof (induction es arbitrary: sl f)
  case (Cons e es)
  obtain i e' where e: "e = (i, e')" by (cases e)
  obtain sl1 f1 where s: "server_step A B (i, e') (sl, f) = Some (sl1, f1)" and r: "server_run A B es (sl1, f1) = Some (sl', f')"
    using Cons.prems(2) by (auto simp: e split: option.splits)
  have "fbytes f1 x = fbytes f x" by (rule spares_keeps [OF assms _ s Cons.prems(3)]) (use Cons.prems(1) e in simp)
  moreover have "fbytes f' x = fbytes f1 x" by (rule Cons.IH [OF _ r Cons.prems(3)]) (use Cons.prems(1) e s in simp)
  ultimately show ?case by simp
qed simp

section \<open>What is written is read back\<close>

lemma server_run_perform:
  assumes "server_run A B ((i, Perform t) # es) (sl, f) = Some x"
  obtains d r f' where "sl i t = Pending d" and "perform A B d f = (r, f')"
    and "server_run A B es (sl(i := (sl i)(t := Answered r)), f') = Some x"
  using assms by (auto simp: server_step_def split: option.splits slot.splits prod.splits)

text \<open>
  C4. Data integrity, end to end and across queues: take any run of the server in which a request is
  performed and later, for any queue, another one. Both were delivered by the driver and not yet
  answered. If the first was a write and the second a read of sectors it had covered, both transferred
  everything, and in between no write to these sectors was performed and nobody else changed them in
  the file, then the memory of the read holds what the memory of the write had held.
\<close>

theorem server_stores:
  assumes "uring_ok U n" and "abi_ok A" and "stores B mem fbytes"
    and "serve_reach U A B sz n f0 (f, ws) (tr1 @ (i, Perform t) # tr2 @ (j, Perform u) # tr3)"
  shows "\<exists>sl1 f1 d r g1 sl2 f2 d' r' g2.
      server_run A B tr1 (\<lambda>_ _. Free, f0) = Some (sl1, f1) \<and> sl1 i t = Pending d \<and> perform A B d f1 = (r, g1)
    \<and> server_run A B tr2 (sl1(i := (sl1 i)(t := Answered r)), g1) = Some (sl2, f2) \<and> sl2 j u = Pending d' \<and> perform A B d' f2 = (r', g2)
    \<and> (is_write A d \<and> complete d r \<and> is_read A d' \<and> complete d' r' \<and> byte_range d' \<subseteq> byte_range d
        \<and> undisturbed A B fbytes (byte_range d') tr2 (sl1(i := (sl1 i)(t := Answered r)), g1)
       \<longrightarrow> (\<forall>x < byte_count d'. mem g2 (unat (iod_addr d') + x) = mem f1 (unat (iod_addr d) + (first_byte d' - first_byte d) + x)))"
proof -
  obtain sl where "server_run A B (tr1 @ (i, Perform t) # tr2 @ (j, Perform u) # tr3) (\<lambda>_ _. Free, f0) = Some (sl, f)"
    using serve_reach_inv [OF assms(1,2,4)] by blast
  then obtain sl1 f1 where r1: "server_run A B tr1 (\<lambda>_ _. Free, f0) = Some (sl1, f1)"
    and "server_run A B ((i, Perform t) # tr2 @ (j, Perform u) # tr3) (sl1, f1) = Some (sl, f)"
    unfolding server_run_append by (auto simp del: server_run.simps split: option.splits)
  then obtain d r g1 where d: "sl1 i t = Pending d" and p: "perform A B d f1 = (r, g1)"
    and "server_run A B (tr2 @ (j, Perform u) # tr3) (sl1(i := (sl1 i)(t := Answered r)), g1) = Some (sl, f)"
    by (elim server_run_perform)
  then obtain sl2 f2 where r2: "server_run A B tr2 (sl1(i := (sl1 i)(t := Answered r)), g1) = Some (sl2, f2)"
    and "server_run A B ((j, Perform u) # tr3) (sl2, f2) = Some (sl, f)"
    unfolding server_run_append by (auto simp del: server_run.simps split: option.splits)
  then obtain d' r' g2 where d': "sl2 j u = Pending d'" and p': "perform A B d' f2 = (r', g2)" by (elim server_run_perform)
  have "mem g2 (unat (iod_addr d') + x) = mem f1 (unat (iod_addr d) + (first_byte d' - first_byte d) + x)"
    if w: "is_write A d" "complete d r" and rd: "is_read A d'" "complete d' r'" and sub: "byte_range d' \<subseteq> byte_range d"
      and un: "undisturbed A B fbytes (byte_range d') tr2 (sl1(i := (sl1 i)(t := Answered r)), g1)" and x: "x < byte_count d'" for x
  proof -
    have y: "first_byte d' + x \<in> byte_range d'" using x by (simp add: byte_range_def)
    then have "first_byte d' + x \<in> byte_range d" "first_byte d' \<in> byte_range d" using sub x by (auto simp: byte_range_def)
    then have o: "first_byte d' + x = first_byte d + (first_byte d' - first_byte d + x)" "first_byte d' - first_byte d + x < byte_count d"
      by (auto simp: byte_range_def)
    have "mem g2 (unat (iod_addr d') + x) = fbytes f2 (first_byte d' + x)" by (rule perform_read [OF assms(3) rd(1) p' rd(2) x])
    also have "\<dots> = fbytes g1 (first_byte d' + x)" by (rule undisturbed_keeps [OF assms(2,3) un r2 y])
    also have "\<dots> = mem f1 (unat (iod_addr d) + (first_byte d' - first_byte d + x))"
      unfolding o(1) by (rule perform_write(2) [OF assms(2,3) w(1) p w(2) o(2)])
    finally show ?thesis by (simp add: add.assoc)
  qed
  then show ?thesis
    by (rule_tac x = sl1 in exI, rule_tac x = f1 in exI, rule_tac x = d in exI, rule_tac x = r in exI, rule_tac x = g1 in exI,
        rule_tac x = sl2 in exI, rule_tac x = f2 in exI, rule_tac x = d' in exI, rule_tac x = r' in exI, rule_tac x = g2 in exI)
      (use r1 d p r2 d' p' in simp)
qed

text \<open>A new queue that is sent a request, the last one the kernel performs.\<close>

lemma demo_performs:
  fixes B :: "'f backing"
  assumes reach: "serve_reach (slot_uring 1) linux_abi B 65536 1 f0 (f, ws) tr" and d: "sent linux_abi d"
  shows "\<exists>f' ws'. length ws' = Suc (length ws)
    \<and> serve_reach (slot_uring 1) linux_abi B 65536 1 f0 (f', ws') (tr @ [(length ws, Start 0 d), (length ws, Perform 0)])"
proof -
  let ?U = "slot_uring 1" and ?R = "serve_reach (slot_uring 1) linux_abi B 65536 1 f0" and ?i = "length ws"
  obtain w where new: "\<And>f ws tr. ?R (f, ws) tr \<Longrightarrow> ?R (f, ws @ [w f]) tr" and w: "\<And>f. wk_runs (w f)"
    "\<And>f. \<not> queue_stopping (wk_q (w f))" "\<And>f. wk_from (w f) = k_sub (wk_k (w f))" "\<And>f g. (wk_k (w f))\<lparr>k_store := g\<rparr> = wk_k (w g)"
    and dp: "\<And>f. q_depth (wk_q (w f)) = 1"
    and inv: "\<And>f. dev_inv ?U linux_abi B 1 (\<lambda>_. Free) (wk_k (w f)) (wk_q (w f))"
    and act: "\<And>f d. sent linux_abi d \<Longrightarrow> \<exists>k'. kernel_run linux_abi B [Take, Deliver 0 d] (wk_k (w f)) = Some ([Start 0 d], k') \<and> k_held k' = []"
    by (rule demo_thread) blast
  obtain k' where run: "kernel_run linux_abi B [Take, Deliver 0 d] (wk_k (w f)) = Some ([Start 0 d], k')" and held: "k_held k' = []"
    using act [OF d] by blast
  have nf: "\<forall>i r. Fail i r \<notin> set [Take, Deliver 0 d]" by simp
  obtain k2 q2 sl2 where rnd: "dev_round ?U linux_abi B 65536 [Take, Deliver 0 d] (wk_k (w f), wk_q (w f)) [Start 0 d] (k2, q2)"
    by (rule round_exists [OF uring_ok_slot abi_ok_linux inv w(2) run nf])
  obtain k1 sl1 where "kernel_run linux_abi B [Take, Deliver 0 d] (wk_k (w f)) = Some ([Start 0 d], k1)"
    and s1: "device_run linux_abi B [Start 0 d] (\<lambda>_. Free, k_store (wk_k (w f))) = Some (sl1, k_store k1)"
    and i2: "dev_inv ?U linux_abi B 1 sl1 k2 q2" and h: "k_held k2 = k_held k1"
    by (rule dev_round_sim [OF uring_ok_slot abi_ok_linux inv rnd])
  then have h2: "k_held k2 = []" using run held by simp
  have sim: "sim linux_abi B sl1 k2" and p2: "k_posted k2 = []" and sub: "k_sub k2 = sq_view ?U (ring q2)"
    and qi: "queue_inv ?U (mset (map sqe_user_data (k_held k2))) {} 0 q2" and n2: "q_depth q2 \<le> 1"
    using i2 by (simp_all add: dev_inv_def loop_inv_def)
  have p0: "sl1 0 = Pending d" using s1 by auto
  have "length (k_sub k2) \<le> 1"
    unfolding sub using queue_inv_outstanding_bound [OF qi] n2 by (simp add: outstanding_def)
  moreover have "0 \<in> (utag \<circ> sqe_user_data) ` set (k_sub k2)"
    using simD(5) [OF sim, of 0] p0 h2 p2 by (simp add: carried_def)
  ultimately obtain s where s: "k_sub k2 = [s]" "utag (sqe_user_data s) = 0"
    by (cases "k_sub k2") auto
  have "entry_ok linux_abi B sl1 True s" by (rule simD(2) [OF sim]) (simp add: s(1))
  then have nc: "\<not> is_command s" using s(2) p0 by (auto simp: entry_ok_def split: if_splits)
  have r0: "?R (f, ws @ [w f]) tr" by (rule new [OF reach])
  have "dev_round ?U linux_abi B 65536 [Take, Deliver 0 d] ((wk_k ((ws @ [w f]) ! ?i))\<lparr>k_store := f\<rparr>, wk_q ((ws @ [w f]) ! ?i)) [Start 0 d] (k2, q2)"
    using rnd w(4) by simp
  from serve_round [OF r0 _ _ _ this] w(1,3) obtain w2 where r2: "?R (k_store k2, (ws @ [w f])[?i := w2]) (tr @ map (Pair ?i) [Start 0 d])"
    and w2: "wk_runs w2" "\<And>g. (wk_k w2)\<lparr>k_store := g\<rparr> = k2\<lparr>k_store := g\<rparr>" by auto
  have same: "(wk_k w2)\<lparr>k_store := k_store k2\<rparr> = k2" using w2(2) [of "k_store k2"] by simp
  obtain k3 where "kernel_run linux_abi B [Take, Execute 0] k2 = Some ([Perform 0], k3)"
    using nc s h2 by (cases "exec_entry B s (k_store k2)") simp
  then have "kernel_run linux_abi B [Take, Execute 0] ((wk_k ((ws @ [w f])[?i := w2] ! ?i))\<lparr>k_store := k_store k2\<rparr>) = Some ([Perform 0], k3)"
    using same by (simp del: kernel_run.simps)
  from serve_acts [OF r2 _ _ this] w2(1)
  have "\<exists>w3. ?R (k_store k3, (ws @ [w f])[?i := w2, ?i := w3]) ((tr @ map (Pair ?i) [Start 0 d]) @ map (Pair ?i) [Perform 0])" by auto
  then obtain w3 where "?R (k_store k3, (ws @ [w f])[?i := w2, ?i := w3]) (tr @ [(?i, Start 0 d), (?i, Perform 0)])" by auto
  then show ?thesis by (intro exI [of _ "k_store k3"] exI [of _ "ws @ [w3]"]) simp
qed

text \<open>Memory and file as two arrays of bytes; transfers are complete.\<close>

definition byte_store :: "((nat \<Rightarrow> u8) \<times> (nat \<Rightarrow> u8)) backing" where
  "byte_store op addr len off = (\<lambda>(m, b). (word_of_nat len, case op of
     Op_Write \<Rightarrow> (m, \<lambda>x. if off \<le> x \<and> x < off + len then m (unat addr + (x - off)) else b x)
   | Op_Read \<Rightarrow> (\<lambda>x. if unat addr \<le> x \<and> x < unat addr + len then b (off + (x - unat addr)) else m x, b)
   | _ \<Rightarrow> (m, b)))"

lemma byte_store_stores: "stores byte_store fst snd"
  by (auto simp: stores_def byte_store_def split: uring_op.splits)

definition demo_write :: iod where
  "demo_write = \<lparr>iod_op_flags = 1, iod_nr_sectors = 16, iod_start_sector = 8, iod_addr = 65536\<rparr>"

lemma demo_write_sent: "sent linux_abi demo_write"
  by (simp add: sent_def loop_request_def demo_write_def linux_abi_def)

lemma demo_requests:
  "is_write linux_abi demo_write" "is_read linux_abi demo_read" "first_byte demo_write = 4096" "byte_count demo_write = 8192"
  "first_byte demo_read = 8192" "byte_count demo_read = 4096" "unat (iod_addr demo_write) = 65536" "unat (iod_addr demo_read) = 8192"
  by (simp_all add: is_write_def is_read_def first_byte_def byte_count_def demo_write_def demo_read_def linux_abi_def)

theorem server_stores_witness:
  "\<exists>f ws. serve_reach (slot_uring 1) linux_abi byte_store 65536 1 (\<lambda>_. 7, \<lambda>_. 0) (f, ws)
       [(0, Start 0 demo_write), (0, Perform 0), (1, Start 0 demo_read), (1, Perform 0)]
     \<and> (\<forall>x < 4096. fst f (8192 + x) = 7)"
proof -
  let ?R = "serve_reach (slot_uring 1) linux_abi byte_store 65536 1 (\<lambda>_. 7, \<lambda>_. 0)"
  obtain f1 ws1 where r1: "?R (f1, ws1) [(0, Start 0 demo_write), (0, Perform 0)]" and l1: "length ws1 = 1"
    using demo_performs [OF serve_reach.start demo_write_sent] by fastforce
  obtain f2 ws2 where r2: "?R (f2, ws2) ([(0, Start 0 demo_write)] @ (0, Perform 0) # [(1, Start 0 demo_read)] @ (1, Perform 0) # [])"
    using demo_performs [OF r1 demo_read_sent] l1 by auto
  obtain sl1 f1 d r g1 sl2 f2' d' r' g2 where s1: "server_run linux_abi byte_store [(0, Start 0 demo_write)] (\<lambda>_ _. Free, (\<lambda>_. 7, \<lambda>_. 0)) = Some (sl1, f1)"
    and d: "sl1 0 0 = Pending d" and p: "perform linux_abi byte_store d f1 = (r, g1)"
    and s2: "server_run linux_abi byte_store [(1, Start 0 demo_read)] (sl1(0 := (sl1 0)(0 := Answered r)), g1) = Some (sl2, f2')"
    and d': "sl2 1 0 = Pending d'" and p': "perform linux_abi byte_store d' f2' = (r', g2)"
    and imp: "is_write linux_abi d \<and> complete d r \<and> is_read linux_abi d' \<and> complete d' r' \<and> byte_range d' \<subseteq> byte_range d
        \<and> undisturbed linux_abi byte_store snd (byte_range d') [(1, Start 0 demo_read)] (sl1(0 := (sl1 0)(0 := Answered r)), g1)
       \<longrightarrow> (\<forall>x < byte_count d'. fst g2 (unat (iod_addr d') + x) = fst f1 (unat (iod_addr d) + (first_byte d' - first_byte d) + x))"
    using server_stores [OF uring_ok_slot abi_ok_linux byte_store_stores r2] by blast
  have dd: "d = demo_write" "d' = demo_read" "f1 = (\<lambda>_. 7, \<lambda>_. 0)" using s1 s2 d d' by (auto simp: server_step_def)
  have "complete d r" "complete d' r'"
    using p p' by (auto simp: perform_def Let_def byte_store_def complete_def byte_count_def split: if_splits prod.splits)
  moreover have "byte_range demo_read \<subseteq> byte_range demo_write" by (simp add: byte_range_def demo_requests)
  moreover have "undisturbed linux_abi byte_store snd (byte_range d') [(1, Start 0 demo_read)] (sl1(0 := (sl1 0)(0 := Answered r)), g1)"
    by (simp split: option.split)
  ultimately have "\<forall>x < 4096. fst g2 (8192 + x) = 7" using imp by (simp add: dd demo_requests)
  moreover have "f2 = g2"
    using serve_reach_inv [OF uring_ok_slot abi_ok_linux r2] s1 s2 p p' d d' by (auto simp: server_step_def split: prod.splits)
  ultimately show ?thesis using r2 by (intro exI [of _ f2] exI [of _ ws2]) simp
qed

end
