(* ===== verification/Ublk_Null_Device.thy ===== *)
theory Ublk_Null_Device
  imports Ublk_Device_Props
begin

text \<open>
  The null target as a block device: the queue thread of \<open>miniublk.c\<close> with \<open>null_tgt_ops\<close>, composed
  with the kernel of \<open>Ublk_Device\<close>, refines a device that keeps a request per tag, finishes it with its
  full size and leaves the contents of memory alone.
\<close>

section \<open>The abstract device and the composed system\<close>

text \<open>
  A request that was started is finished with the number of bytes it asks for; no request is performed
  on the contents \<open>'f\<close>, which only the driver and others touch.
\<close>

fun null_step :: "'f dev_event \<Rightarrow> (nat \<Rightarrow> iod option) \<times> 'f \<Rightarrow> ((nat \<Rightarrow> iod option) \<times> 'f) option" where
  "null_step (Start t d) (m, f) = (if m t = None then Some (m(t := Some d), f) else None)"
| "null_step (Perform t) (m, f) = None"
| "null_step (Finish t r) (m, f) = (case m t of
     None \<Rightarrow> None
   | Some d \<Rightarrow> if unat r = 512 * unat (iod_nr_sectors d) then Some (m(t := None), f) else None)"
| "null_step (Touched g) (m, f) = Some (m, g f)"

fun null_run :: "'f dev_event list \<Rightarrow> (nat \<Rightarrow> iod option) \<times> 'f \<Rightarrow> ((nat \<Rightarrow> iod option) \<times> 'f) option" where
  "null_run [] x = Some x"
| "null_run (e # es) x = (case null_step e x of None \<Rightarrow> None | Some x' \<Rightarrow> null_run es x')"

lemma null_run_append:
  "null_run (es @ es') x = (case null_run es x of None \<Rightarrow> None | Some x' \<Rightarrow> null_run es' x')"
  by (induction es arbitrary: x) (auto split: option.split)

text \<open>The kernel has no backing file to offer: the null target never asks for one.\<close>

definition no_backing :: "'f backing" where
  "no_backing op addr len off f = (word_of_nat len, f)"

inductive null_round ::
  "'r uring \<Rightarrow> abi \<Rightarrow> u32 \<Rightarrow> 'f kact list \<Rightarrow> 'f kernel \<times> 'r ublk_queue \<Rightarrow> 'f dev_event list
   \<Rightarrow> 'f kernel \<times> 'r ublk_queue \<Rightarrow> bool"
  for U A sz where
  round: "\<lbrakk>\<not> ublk_queue_is_done U q; kernel_run A no_backing acts k = Some (es, k');
      ret = - ETIME \<Longrightarrow> process_io_timeout q \<noteq> None;
      ublk_process_io U A (null_tgt_ops U A) sz (round_event ret k k') q = Inr (m, advice, q')\<rbrakk>
    \<Longrightarrow> null_round U A sz acts (k, q) es (k'\<lparr>k_sub := sq_view U (ring q'), k_posted := []\<rparr>, q')"

inductive_cases null_roundE: "null_round U A sz acts (k, q) es (k', q')"

inductive null_reach ::
  "'r uring \<Rightarrow> abi \<Rightarrow> u32 \<Rightarrow> nat \<Rightarrow> 'f \<Rightarrow> 'f kernel \<Rightarrow> 'r ublk_queue \<Rightarrow> 'f dev_event list \<Rightarrow> bool"
  for U A sz n f0 where
  start: "\<lbrakk>queue_fresh U q; q_depth q \<le> n; ublk_submit_fetch_commands U A q = Inr q'\<rbrakk>
    \<Longrightarrow> null_reach U A sz n f0 \<lparr>k_sub = sq_view U (ring q'), k_held = [], k_posted = [], k_descs = descs, k_store = f0\<rparr> q' []"
| step: "\<lbrakk>null_reach U A sz n f0 k q tr; null_round U A sz acts (k, q) es (k', q')\<rbrakk>
    \<Longrightarrow> null_reach U A sz n f0 k' q' (tr @ es)"

section \<open>The simulation\<close>

text \<open>
  The slots of \<open>Ublk_Device\<close> say more than the null device knows: whether the thread has already
  answered. An answer is the size of the request.
\<close>

definition full_size :: "iod \<Rightarrow> s32" where
  "full_size d = push_bit 9 (iod_nr_sectors d)"

definition null_rel :: "abi \<Rightarrow> (nat \<Rightarrow> iod option) \<Rightarrow> (nat \<Rightarrow> slot) \<Rightarrow> bool" where
  "null_rel A m sl \<longleftrightarrow> (\<forall>t. case m t of
     None \<Rightarrow> sl t = Free
   | Some d \<Rightarrow> sent A d \<and> (sl t = Pending d \<or> sl t = Answered (full_size d)))"

lemma full_size: "sent A d \<Longrightarrow> unat (full_size d) = 512 * unat (iod_nr_sectors d)"
  using unat_sectors(1) by (simp add: full_size_def sent_def)

lemma null_relD:
  assumes "null_rel A m sl"
  shows "sl t = Free \<Longrightarrow> m t = None" and "sl t = Pending d \<Longrightarrow> m t = Some d \<and> sent A d"
    and "sl t = Answered r \<Longrightarrow> \<exists>d. m t = Some d \<and> sent A d \<and> r = full_size d"
  using assms by (auto simp: null_rel_def split: option.splits dest: spec [of _ t])

lemma null_rel_free: "null_rel A m sl \<Longrightarrow> null_rel A (m(t := None)) (sl(t := Free))"
  by (auto simp: null_rel_def split: option.splits) (metis option.distinct(1))

lemma null_rel_hold: "null_rel A m sl \<Longrightarrow> sent A d \<Longrightarrow> v = Pending d \<or> v = Answered (full_size d) \<Longrightarrow> null_rel A (m(t := Some d)) (sl(t := v))"
  by (auto simp: null_rel_def split: option.splits) (metis option.distinct(1))+

text \<open>Nothing of the null target is ever executed by the kernel.\<close>

lemma kernel_act_null:
  assumes sim: "sim A B sl k" and act: "kernel_act A B a k = Some (es, k')" and no: "\<And>s. s \<in> set (k_held k) \<Longrightarrow> is_command s"
    and rel: "null_rel A m sl" and run: "device_run A B es (sl, k_store k) = Some (sl', f)"
  shows "\<exists>m'. null_run es (m, k_store k) = Some (m', f) \<and> null_rel A m' sl'"
proof (cases a)
  case Take
  then consider "es = []" | t r where "es = [Finish t r]" using act by (auto split: list.splits if_splits)
  then show ?thesis
  proof cases
    case 2
    then have r: "sl t = Answered r" "sl' = sl(t := Free)" "f = k_store k" using run by (auto split: if_splits)
    then obtain d where d: "m t = Some d" "sent A d" "r = full_size d" using null_relD(3) [OF rel] by blast
    have "null_rel A (m(t := None)) sl'" using null_rel_free [OF rel] by (simp add: r(2))
    then show ?thesis using d full_size [OF d(2)] 2 r(3) by simp
  qed (use run rel in auto)
next
  case (Execute i)
  then show ?thesis using act no [OF nth_mem] by (auto split: if_splits)
next
  case (Deliver i d)
  then obtain t where es: "es = [Start t d]" and st: "sent A d" using act by (auto simp: Let_def split: if_splits)
  then have r: "sl t = Free" "sl' = sl(t := Pending d)" "f = k_store k" using run by (auto split: if_splits)
  have "null_rel A (m(t := Some d)) sl'" using null_rel_hold [OF rel st] by (simp add: r(2))
  then show ?thesis using null_relD(1) [OF rel r(1)] r(3) by (simp add: es)
next
  case (Fail i r)
  then show ?thesis using act run rel by (auto split: if_splits)
next
  case (Touch g)
  then show ?thesis using act run rel by auto
qed

lemma set_without: "set (without i xs) \<subseteq> set xs"
  using set_take_subset [of i xs] set_drop_subset [of "Suc i" xs] by (auto simp: without_def)

lemma kernel_act_held:
  assumes "kernel_act A B a k = Some (es, k')" and "\<forall>s \<in> set (k_held k @ k_sub k). is_command s"
  shows "\<forall>s \<in> set (k_held k' @ k_sub k'). is_command s"
  using assms
  by (cases a) (auto simp: post_def Let_def split: list.splits if_splits prod.splits dest!: subsetD [OF set_without])

lemma kernel_run_null:
  assumes "sim A B sl k" and "kernel_run A B acts k = Some (es, k')" and "\<forall>s \<in> set (k_held k @ k_sub k). is_command s" and "null_rel A m sl"
  shows "\<exists>sl' m'. device_run A B es (sl, k_store k) = Some (sl', k_store k') \<and> sim A B sl' k' \<and> null_run es (m, k_store k) = Some (m', k_store k') \<and> null_rel A m' sl'
    \<and> (\<forall>s \<in> set (k_held k' @ k_sub k'). is_command s)"
  using assms
proof (induction acts arbitrary: k sl m es)
  case (Cons a acts)
  obtain es1 k1 es2 where a: "kernel_act A B a k = Some (es1, k1)" and r: "kernel_run A B acts k1 = Some (es2, k')"
    and es: "es = es1 @ es2" using Cons.prems(2) by (auto split: option.splits)
  obtain sl1 where d1: "device_run A B es1 (sl, k_store k) = Some (sl1, k_store k1)" and s1: "sim A B sl1 k1"
    by (rule kernel_act_sim [OF Cons.prems(1) a])
  have no: "is_command s" if "s \<in> set (k_held k)" for s using Cons.prems(3) that by simp
  obtain m1 where m1: "null_run es1 (m, k_store k) = Some (m1, k_store k1)" "null_rel A m1 sl1"
    using kernel_act_null [OF Cons.prems(1) a no Cons.prems(4) d1] by blast
  from Cons.IH [OF s1 r kernel_act_held [OF a Cons.prems(3)] m1(2)] show ?case
    using m1(1) d1 by (auto simp: es null_run_append device_run_append)
qed auto

text \<open>
  A completion is answered by an entry of the same tag; what the slots say of that tag may change with it.
\<close>

lemma sim_served:
  assumes sim: "sim A B sl (k\<lparr>k_sub := v, k_posted := c # cs\<rparr>)" and s: "entry_ok A B sl' True s"
    and t: "utag (sqe_user_data s) = utag (cqe_user_data c)" and same: "\<And>u. u \<noteq> utag (cqe_user_data c) \<Longrightarrow> sl' u = sl u"
  shows "sim A B sl' (k\<lparr>k_sub := v @ [s], k_posted := cs\<rparr>)"
    (is "sim A B sl' ?k'")
proof -
  let ?k = "k\<lparr>k_sub := v, k_posted := c # cs\<rparr>" and ?t = "utag (cqe_user_data c)"
  have p: "mset (carried ?k') = mset (carried ?k)" by (simp add: carried_def t)
  have d: "distinct (carried ?k)" by (rule simD(1) [OF sim])
  then have other: "x \<in> set v \<union> set (k_held k) \<Longrightarrow> utag (sqe_user_data x) \<noteq> ?t"
    "y \<in> set cs \<Longrightarrow> utag (cqe_user_data y) \<noteq> ?t" for x y
    by (auto simp: carried_def dest: imageI [where f = "utag \<circ> sqe_user_data"] imageI [where f = "utag \<circ> cqe_user_data"])
  show ?thesis
  proof (rule simI)
    show "distinct (carried ?k')" using d mset_eq_imp_distinct_iff [OF p] by blast
    show "entry_ok A B sl' True x" if "x \<in> set (k_sub ?k')" for x
      using that simD(2) [OF sim, of x] other(1) [of x] s by (auto intro: entry_ok_same same)
    show "entry_ok A B sl' False x" if "x \<in> set (k_held ?k')" for x
      using that simD(3) [OF sim, of x] other(1) [of x] by (auto intro: entry_ok_same same)
    show "answer_ok A sl' (k_descs ?k') x" if "x \<in> set (k_posted ?k')" for x
      using that simD(4) [OF sim, of x] other(2) [of x] by (auto intro: answer_ok_same same)
    show "u \<in> set (carried ?k')" if "sl' u \<noteq> Free" for u
      using that simD(5) [OF sim, of u] same [of u] mset_eq_setD [OF p] by (cases "u = ?t") (auto simp: carried_def t)
  qed
qed

lemma null_handle_sim:
  assumes ring: "uring_ok U n" and abi: "abi_ok A" and inv: "loop_inv U (null_tgt_ops U A) n K q" and ud: "cqe_user_data c \<in># K"
    and sim: "sim A B sl (k\<lparr>k_sub := sq_view U (ring q), k_posted := c # cs\<rparr>)" and rel: "null_rel A m sl"
    and cmds: "\<forall>s \<in> set (sq_view U (ring q)). is_command s"
  obtains q' sl' where "ublk_handle_cqe A (null_tgt_ops U A) (k_descs k) c q = Inr q'"
    and "loop_inv U (null_tgt_ops U A) n (K - {#cqe_user_data c#}) q'"
    and "sim A B sl' (k\<lparr>k_sub := sq_view U (ring q'), k_posted := cs\<rparr>)" and "null_rel A m sl'"
    and "\<forall>s \<in> set (sq_view U (ring q')). is_command s" and "q_state q' = stop_after A c q"
proof -
  let ?t = "utag (cqe_user_data c)" and ?d = "k_descs k (utag (cqe_user_data c))"
  have qi: "queue_inv U K {} 0 q" and n: "q_depth q \<le> n" using inv by (simp_all add: loop_inv_def)
  have ans: "answer_ok A sl (k_descs k) c" using simD(4) [OF sim, of c] by simp
  have cmd: "\<not> is_target_io (cqe_user_data c)" using loop_inv_no_target [OF inv _ ud] by simp
  obtain q' where h: "ublk_handle_cqe A (null_tgt_ops U A) (k_descs k) c q = Inr q'"
    and inv': "loop_inv U (null_tgt_ops U A) n (K - {#cqe_user_data c#}) q'" and st: "q_state q' = stop_after A c q"
    using null.handle_cqe_keeps [OF ring abi inv ud, where iods = "k_descs k"] by (auto simp: any_request_def)
  obtain q2 where h2: "ublk_handle_cqe A (null_tgt_ops U A) (k_descs k) c q =
       (if cqe_res c = abi_res_ok A then seq (queue_io (null_tgt_ops U A) (k_descs k) ?t q2) (\<lambda>(_, q3). Inr q3)
        else with_io ?t (\<lambda>io. io\<lparr>io_flags := UBLKSRV_IO_FREE\<rparr>) q2)"
    and q2: "queue_inv U (K - {#cqe_user_data c#}) {?t} 0 q2" "io_flags (ios q2 ! ?t) = 0" "q_depth q2 = q_depth q" "ring q2 = ring q"
    by (rule command_completion [OF qi ud cmd, of A "null_tgt_ops U A" "k_descs k"])
  show thesis
  proof (cases "cqe_res c = abi_res_ok A")
    case True
    have d: "sl ?t = Pending ?d" "sent A ?d" using ans cmd True by (simp_all add: answer_ok_def Let_def)
    have n2: "q_depth q2 \<le> n" using n q2(3) by simp
    obtain q3 s where q3: "ublk_complete_io U A ?t (full_size ?d) q2 = Inr (1, q3)"
      and s: "sq_view U (ring q3) = sq_view U (ring q2) @ [s]" "utag (sqe_user_data s) = ?t"
        "sqe_off s = ucast (abi_commit_and_fetch_req A)" "cmd_result (sqe_cmd s) = full_size ?d"
        "\<not> is_target_io (sqe_user_data s)" "cmd_tag (sqe_cmd s) = word_of_nat ?t" "sqe_opcode s = Op_Uring_Cmd"
      by (rule ublk_complete_io_inv [OF ring abi q2(1) n2 singletonI q2(2) zero_le, where res = "full_size ?d"])
    have q': "q3 = q'" using h h2 q3 True by (simp add: ublk_null_queue_io_def ublk_get_iod_def full_size_def)
    let ?sl = "sl(?t := Answered (full_size ?d))"
    have "entry_ok A B ?sl True s" using s tag_word by (simp add: entry_ok_def is_command_def command_tag_def)
    then have sim': "sim A B ?sl (k\<lparr>k_sub := sq_view U (ring q'), k_posted := cs\<rparr>)"
      using sim_served [OF sim _ s(2), of ?sl] s(1) q2(4) q' by simp
    have "m ?t = Some ?d" using null_relD(2) [OF rel d(1)] by simp
    then have rel': "null_rel A m ?sl" using null_rel_hold [OF rel d(2), of "Answered (full_size ?d)" ?t] by (simp add: fun_upd_idem)
    have "\<forall>s \<in> set (sq_view U (ring q')). is_command s" using cmds s(1,7) q2(4) q' by (auto simp: is_command_def)
    with sim' rel' show thesis by (rule that [OF h inv' _ _ _ st])
  next
    case False
    have r: "ring q' = ring q" using h h2 q2(4) False by (auto simp: with_io_def split: if_splits)
    have "sl ?t = Free" using ans cmd False by (simp add: answer_ok_def Let_def)
    from sim_dropped [OF sim this] show thesis by (rule that [OF h inv' _ rel _ st, unfolded r]) (rule cmds)
  qed
qed

lemma null_reap_sim:
  assumes ring: "uring_ok U n" and abi: "abi_ok A"
  shows "\<lbrakk>loop_inv U (null_tgt_ops U A) n K q; mset (map cqe_user_data cs) \<subseteq># K; null_rel A m sl;
      \<forall>s \<in> set (sq_view U (ring q)). is_command s; sim A B sl (k\<lparr>k_sub := sq_view U (ring q), k_posted := cs\<rparr>)\<rbrakk>
    \<Longrightarrow> \<exists>q' sl'. reap_cqes A (null_tgt_ops U A) (k_descs k) cs q = Inr q'
          \<and> sim A B sl' (k\<lparr>k_sub := sq_view U (ring q'), k_posted := []\<rparr>) \<and> null_rel A m sl'
          \<and> (\<forall>s \<in> set (sq_view U (ring q')). is_command s)
          \<and> (\<not> queue_stopping q \<and> (\<forall>c \<in> set cs. cqe_res c \<noteq> abi_res_abort A) \<longrightarrow> \<not> queue_stopping q')"
proof (induction cs arbitrary: K q sl)
  case (Cons c cs)
  have cK: "cqe_user_data c \<in># K" using Cons.prems(2) by (auto dest: mset_subset_eqD)
  have sub: "mset (map cqe_user_data cs) \<subseteq># K - {#cqe_user_data c#}" using Cons.prems(2) by (simp add: insert_subset_eq_iff)
  obtain q1 sl1 where h: "ublk_handle_cqe A (null_tgt_ops U A) (k_descs k) c q = Inr q1"
    and i1: "loop_inv U (null_tgt_ops U A) n (K - {#cqe_user_data c#}) q1"
    and s1: "sim A B sl1 (k\<lparr>k_sub := sq_view U (ring q1), k_posted := cs\<rparr>)" and r1: "null_rel A m sl1"
    and c1: "\<forall>s \<in> set (sq_view U (ring q1)). is_command s" and st: "q_state q1 = stop_after A c q"
    by (rule null_handle_sim [OF ring abi Cons.prems(1) cK Cons.prems(5,3,4)])
  have "\<not> queue_stopping q \<Longrightarrow> cqe_res c \<noteq> abi_res_abort A \<Longrightarrow> \<not> queue_stopping q1"
    using st by (auto simp: queue_stopping_bit stop_after_def split: if_splits)
  then show ?case using Cons.IH [OF i1 sub r1 c1 s1] h by auto
qed (use assms in auto)

section \<open>Rounds\<close>

definition null_inv :: "'r uring \<Rightarrow> abi \<Rightarrow> nat \<Rightarrow> (nat \<Rightarrow> slot) \<Rightarrow> (nat \<Rightarrow> iod option) \<Rightarrow> 'f kernel \<Rightarrow> 'r ublk_queue \<Rightarrow> bool" where
  "null_inv U A n sl m k q \<longleftrightarrow> loop_inv U (null_tgt_ops U A) n (mset (map sqe_user_data (k_held k))) q
     \<and> sim A no_backing sl k \<and> null_rel A m sl \<and> (\<forall>s \<in> set (k_held k @ k_sub k). is_command s)
     \<and> k_sub k = sq_view U (ring q) \<and> k_posted k = []"

lemma null_thread:
  assumes ring: "uring_ok U n" and abi: "abi_ok A" and inv: "null_inv U A n sl m k q" and nd: "\<not> ublk_queue_is_done U q"
    and run: "kernel_run A no_backing acts k = Some (es, k')" and ret: "ret = - ETIME \<longrightarrow> process_io_timeout q \<noteq> None"
  obtains h advice q' sl' m' where "ublk_process_io U A (null_tgt_ops U A) sz (round_event ret k k') q = Inr (h, advice, q')"
    and "null_run es (m, k_store k) = Some (m', k_store k')"
    and "null_inv U A n sl' m' (k'\<lparr>k_sub := sq_view U (ring q'), k_posted := []\<rparr>) q'"
    and "\<not> queue_stopping q \<and> (\<forall>c \<in> set (k_posted k'). cqe_res c \<noteq> abi_res_abort A) \<longrightarrow> \<not> queue_stopping q'"
    and "prompt A no_backing acts k \<Longrightarrow> m' = (\<lambda>_. None)"
proof -
  let ?ev = "round_event ret k k'" and ?K = "mset (map sqe_user_data (k_held k))"
  have li: "loop_inv U (null_tgt_ops U A) n ?K q" and sim0: "sim A no_backing sl k" and rel0: "null_rel A m sl"
    and c0: "\<forall>s \<in> set (k_held k @ k_sub k). is_command s" and sub: "k_sub k = sq_view U (ring q)" and p0: "k_posted k = []"
    using inv by (simp_all add: null_inv_def)
  obtain sl1 m1 where d1: "device_run A no_backing es (sl, k_store k) = Some (sl1, k_store k')" and sim: "sim A no_backing sl1 k'" and d: "null_run es (m, k_store k) = Some (m1, k_store k')"
    and rel: "null_rel A m1 sl1" and c: "\<forall>s \<in> set (k_held k' @ k_sub k'). is_command s"
    using kernel_run_null [OF sim0 run c0 rel0] by blast
  have ck: "?K + mset (map sqe_user_data (k_sub k)) = cookies k'"
    using kernel_run_cookies [OF run] p0 by (simp add: cookies_def ac_simps)
  obtain j where j: "k_sub k' = drop j (k_sub k)" using kernel_run_cookies [OF run] by blast
  have none: "sl t \<noteq> Pending x" for t x
  proof
    assume a: "sl t = Pending x"
    then obtain s where s: "s \<in> set (k_sub k) \<union> set (k_held k)" "utag (sqe_user_data s) = t"
      using simD(5) [OF sim0, of t] p0 by (auto simp: carried_def)
    then show False
      using simD(2,3) [OF sim0, of s] c0 a by (auto simp: entry_ok_def split: if_splits)
  qed
  have quick: "m1 = (\<lambda>_. None)" if pr: "prompt A no_backing acts k"
  proof
    show "m1 t = None" for t by (rule null_relD(1) [OF rel prompt_slots(2) [OF sim0 p0 run pr d1 sim none]])
  qed
  have req: "\<forall>x \<in> set (k_posted k'). cqe_res x = abi_res_ok A \<and> \<not> is_target_io (cqe_user_data x)
      \<longrightarrow> any_request A (k_descs k' (utag (cqe_user_data x)))" by (simp add: any_request_def)
  note possible = round_event_possible [where request = any_request and A = A, OF ring ck sub j ret req]
  note ok = possible(1) and K = possible(2) and v1 = possible(3)
  let ?q1 = "q\<lparr>ring := consume U (ev_consumed ?ev) (ring q)\<rparr>"
  have i1: "loop_inv U (null_tgt_ops U A) n (?K + taken U ?ev q) ?q1"
    using loop_inv_consume [OF ring, where ops = "null_tgt_ops U A" and K = ?K and ev = ?ev and q = q] li by simp
  have same: "k'\<lparr>k_sub := sq_view U (ring ?q1), k_posted := k_posted k'\<rparr> = k'" by (simp add: v1)
  have sub1: "mset (map cqe_user_data (k_posted k')) \<subseteq># ?K + taken U ?ev q" unfolding K by (simp add: reaped_def round_event_def)
  obtain q2 sl2 where q2: "reap_cqes A (null_tgt_ops U A) (k_descs k') (k_posted k') ?q1 = Inr q2"
    "sim A no_backing sl2 (k'\<lparr>k_sub := sq_view U (ring q2), k_posted := []\<rparr>)" "null_rel A m1 sl2"
    "\<forall>s \<in> set (sq_view U (ring q2)). is_command s"
    "\<not> queue_stopping q \<and> (\<forall>c \<in> set (k_posted k'). cqe_res c \<noteq> abi_res_abort A) \<longrightarrow> \<not> queue_stopping q2"
    using null_reap_sim [OF ring abi i1 sub1 rel, where B = no_backing and k = k'] sim c unfolding same
    by (auto simp: queue_stopping_bit v1)
  have r: "reap_cqes A (null_tgt_ops U A) (ev_iods ?ev) (ev_cqes ?ev) ?q1 = Inr q2" using q2(1) by (simp add: round_event_def)
  obtain advice w where pr: "ublk_process_io U A (null_tgt_ops U A) sz ?ev q = Inr (int (length (ev_cqes ?ev)), advice, q2\<lparr>q_state := w\<rparr>)"
    and w: "bit w 0 = bit (q_state q2) 0"
    by (rule process_io_reaped [OF nd r])
  have "loop_inv U (null_tgt_ops U A) n (?K + taken U ?ev q - reaped ?ev) (q2\<lparr>q_state := w\<rparr>)"
    using null.process_io_keeps [OF ring abi li ok nd, of sz] pr by auto
  then have "null_inv U A n sl2 m1 (k'\<lparr>k_sub := sq_view U (ring (q2\<lparr>q_state := w\<rparr>)), k_posted := []\<rparr>) (q2\<lparr>q_state := w\<rparr>)"
    using q2(2-4) c unfolding K by (auto simp: null_inv_def)
  with pr d show thesis by (rule that) (use q2(5) w quick in \<open>simp_all add: queue_stopping_bit\<close>)
qed

lemma null_round_keeps:
  assumes ring: "uring_ok U n" and abi: "abi_ok A" and inv: "null_inv U A n sl m k q" and rnd: "null_round U A sz acts (k, q) es (k2, q2)"
  obtains sl' m' where "null_run es (m, k_store k) = Some (m', k_store k2)" and "null_inv U A n sl' m' k2 q2"
    and "prompt A no_backing acts k \<Longrightarrow> m' = (\<lambda>_. None)"
proof -
  from rnd obtain k' ret h advice where nd: "\<not> ublk_queue_is_done U q" and run: "kernel_run A no_backing acts k = Some (es, k')"
    and ret: "ret = - ETIME \<longrightarrow> process_io_timeout q \<noteq> None"
    and p: "ublk_process_io U A (null_tgt_ops U A) sz (round_event ret k k') q = Inr (h, advice, q2)"
    and k2: "k2 = k'\<lparr>k_sub := sq_view U (ring q2), k_posted := []\<rparr>"
    by (rule null_roundE) blast
  show thesis
    by (rule null_thread [OF ring abi inv nd run ret, where sz = sz]) (use p k2 that in auto)
qed

lemma null_start_inv:
  assumes ring: "uring_ok U n" and abi: "abi_ok A" and fresh: "queue_fresh U q" "q_depth q \<le> n" "ublk_submit_fetch_commands U A q = Inr q'"
  shows "null_inv U A n (\<lambda>_. Free) (\<lambda>_. None) \<lparr>k_sub = sq_view U (ring q'), k_held = [], k_posted = [], k_descs = descs, k_store = f0\<rparr> q'"
proof -
  let ?k = "\<lparr>k_sub = sq_view U (ring q'), k_held = [], k_posted = [], k_descs = descs, k_store = f0\<rparr>"
  have "dev_inv U A no_backing n (\<lambda>_. Free) ?k q'" by (rule start_inv [OF ring abi fresh])
  then have s: "sim A no_backing (\<lambda>_. Free) ?k" by (simp add: dev_inv_def)
  have "is_command x" if "x \<in> set (sq_view U (ring q'))" for x
    using simD(2) [OF s, of x] that by (auto simp: entry_ok_def split: if_splits)
  moreover have "queue_reach U A (null_tgt_ops U A) any_request 0 n {#} q'" by (rule queue_reach.start [OF fresh])
  ultimately show ?thesis using s null.reach_inv [OF ring abi] by (simp add: null_inv_def null_rel_def)
qed

lemma null_reach_inv:
  assumes ring: "uring_ok U n" and abi: "abi_ok A" and reach: "null_reach U A sz n f0 k q tr"
  shows "\<exists>sl m. null_run tr (\<lambda>_. None, f0) = Some (m, k_store k) \<and> null_inv U A n sl m k q"
  using reach
proof (induction rule: null_reach.induct)
  case (start q q' descs)
  have "null_inv U A n (\<lambda>_. Free) (\<lambda>_. None)
      \<lparr>k_sub = sq_view U (ring q'), k_held = [], k_posted = [], k_descs = descs, k_store = f0\<rparr> q'"
    by (rule null_start_inv [OF ring abi start])
  then show ?case by auto
next
  case (step k q tr acts es k2 q2)
  then obtain sl m where d: "null_run tr (\<lambda>_. None, f0) = Some (m, k_store k)" and inv: "null_inv U A n sl m k q" by blast
  obtain sl' m' where "null_run es (m, k_store k) = Some (m', k_store k2)" and "null_inv U A n sl' m' k2 q2"
    by (rule null_round_keeps [OF ring abi inv step(2)])
  then show ?case using d by (auto simp: null_run_append)
qed

section \<open>A concrete run\<close>

lemma kernel_run_answers:
  "kernel_run A B acts k = Some (es, k') \<Longrightarrow> \<forall>s \<in> set (k_held k @ k_sub k). is_command s \<Longrightarrow> \<forall>i r. Fail i r \<notin> set acts
    \<Longrightarrow> \<forall>c \<in> set (k_posted k') - set (k_posted k). cqe_res c = abi_res_ok A"
proof (induction acts arbitrary: k es)
  case (Cons a acts)
  obtain es1 k1 es2 where a: "kernel_act A B a k = Some (es1, k1)" and r: "kernel_run A B acts k1 = Some (es2, k')"
    using Cons.prems(1) by (auto split: option.splits)
  have h: "\<forall>s \<in> set (k_held k1 @ k_sub k1). is_command s" by (rule kernel_act_held [OF a Cons.prems(2)])
  have nf: "\<forall>i r. Fail i r \<notin> set acts" "\<And>i r. a \<noteq> Fail i r" using Cons.prems(3) by auto
  have "\<forall>c \<in> set (k_posted k1) - set (k_posted k). cqe_res c = abi_res_ok A"
    using a nf(2) Cons.prems(2) by (cases a) (auto simp: post_def Let_def split: list.splits if_splits prod.splits)
  then show ?case using Cons.IH [OF r h nf(1)] by blast
qed auto

lemma null_round_exists:
  assumes ring: "uring_ok U n" and abi: "abi_ok A" and inv: "null_inv U A n sl m k q" and ns: "\<not> queue_stopping q"
    and run: "kernel_run A no_backing acts k = Some (es, k')" and nf: "\<forall>i r. Fail i r \<notin> set acts"
  obtains k2 q2 sl2 m2 where "null_round U A sz acts (k, q) es (k2, q2)" and "\<not> queue_stopping q2"
    and "null_inv U A n sl2 m2 k2 q2"
proof -
  have sim: "sim A no_backing sl k" and p: "k_posted k = []" and rel: "null_rel A m sl"
    and cmd: "\<forall>s \<in> set (k_held k @ k_sub k). is_command s" using inv by (simp_all add: null_inv_def)
  have li: "loop_inv U (null_tgt_ops U A) n (mset (map sqe_user_data (k_held k))) q" using inv by (simp add: null_inv_def)
  have nd: "\<not> ublk_queue_is_done U q" using ns by (simp add: ublk_queue_is_done_def)
  have ret: "(0 :: int) = - ETIME \<longrightarrow> process_io_timeout q \<noteq> None" by (simp add: ETIME_def)
  have neq: "abi_res_ok A \<noteq> abi_res_abort A" using abi by (simp add: abi_ok_def)
  obtain h advice q2 sl2 m2 where pr: "ublk_process_io U A (null_tgt_ops U A) sz (round_event 0 k k') q = Inr (h, advice, q2)"
    and i2: "null_inv U A n sl2 m2 (k'\<lparr>k_sub := sq_view U (ring q2), k_posted := []\<rparr>) q2"
    and st: "\<not> queue_stopping q \<and> (\<forall>c \<in> set (k_posted k'). cqe_res c \<noteq> abi_res_abort A) \<longrightarrow> \<not> queue_stopping q2"
    by (rule null_thread [OF ring abi inv nd run ret, where sz = sz])
  have "null_round U A sz acts (k, q) es (k'\<lparr>k_sub := sq_view U (ring q2), k_posted := []\<rparr>, q2)"
    by (rule null_round.round [OF nd run _ pr]) (use ret in blast)
  moreover have "\<forall>c \<in> set (k_posted k'). cqe_res c = abi_res_ok A"
    using kernel_run_answers [OF run cmd] nf p by auto
  ultimately show thesis by (intro that [OF _ _ i2]) (use st ns neq in auto)
qed

text \<open>Between rounds what is not free has been answered, and the answer waits in the ring.\<close>

lemma null_inv_answers:
  assumes inv: "null_inv U A n sl m k q" and t: "m t \<noteq> None"
  shows "\<exists>s \<in> set (k_sub k). utag (sqe_user_data s) = t"
proof -
  have sim: "sim A no_backing sl k" and rel: "null_rel A m sl" and c: "\<forall>s \<in> set (k_held k @ k_sub k). is_command s" and p: "k_posted k = []"
    using inv by (simp_all add: null_inv_def)
  have f: "sl t \<noteq> Free" using null_relD(1) [OF rel] t by auto
  then have "t \<in> set (carried k)" by (rule simD(5) [OF sim])
  moreover have "t \<noteq> utag (sqe_user_data s)" if "s \<in> set (k_held k)" for s
    using simD(3) [OF sim that] c that f by (auto simp: entry_ok_def split: if_splits)
  ultimately show ?thesis using p by (auto simp: carried_def)
qed

lemma null_demo:
  obtains k q sl m where "null_reach (slot_uring 1) linux_abi 65536 1 ([] :: nat list) k q [Start 0 demo_read]"
    and "\<not> queue_stopping q" and "null_inv (slot_uring 1) linux_abi 1 sl m k q"
proof -
  let ?U = "slot_uring 1"
  have dq: "q_depth demo_queue = 1" by (simp add: demo_queue_def)
  then have d1: "q_depth demo_queue \<le> 1" by simp
  obtain q0 where q0: "ublk_submit_fetch_commands ?U linux_abi demo_queue = Inr q0" and ns: "\<not> queue_stopping q0"
    and act: "\<And>descs f. \<exists>k'. kernel_run linux_abi (no_backing :: nat list backing) [Take, Deliver 0 demo_read]
        \<lparr>k_sub = sq_view ?U (ring q0), k_held = [], k_posted = [], k_descs = descs, k_store = f\<rparr> = Some ([Start 0 demo_read], k')"
    by (rule demo_fetched [OF demo_fresh dq, where B = "no_backing :: nat list backing"]) (use demo_read_sent in blast)
  let ?k0 = "\<lparr>k_sub = sq_view ?U (ring q0), k_held = [], k_posted = [], k_descs = (\<lambda>_. demo_read), k_store = [] :: nat list\<rparr>"
  have r0: "null_reach ?U linux_abi 65536 1 ([] :: nat list) ?k0 q0 []" by (rule null_reach.start [OF demo_fresh d1 q0])
  have i0: "null_inv ?U linux_abi 1 (\<lambda>_. Free) (\<lambda>_. None) ?k0 q0"
    by (rule null_start_inv [OF uring_ok_slot abi_ok_linux demo_fresh d1 q0])
  obtain k' where run: "kernel_run linux_abi no_backing [Take, Deliver 0 demo_read] ?k0 = Some ([Start 0 demo_read], k')"
    using act by blast
  have nf: "\<forall>i r. Fail i r \<notin> set [Take, Deliver 0 demo_read]" by simp
  obtain k q sl m where "null_round ?U linux_abi 65536 [Take, Deliver 0 demo_read] (?k0, q0) [Start 0 demo_read] (k, q)"
    and "\<not> queue_stopping q" and "null_inv ?U linux_abi 1 sl m k q"
    by (rule null_round_exists [OF uring_ok_slot abi_ok_linux i0 ns run nf])
  then show thesis using null_reach.step [OF r0] that by fastforce
qed

section \<open>The properties\<close>

text \<open>
  C7. End to end, the null target is a block device that transfers nothing: whatever requests the
  driver delivers and in whatever order the kernel takes entries and fails or aborts commands, each
  run of the queue thread with the kernel is a run of the abstract device. A request is finished once,
  never before it was started, and with exactly the number of bytes it asks for, 512 for each sector;
  the contents change only where others touch them. When the thread is done no request is left
  unanswered.
\<close>

theorem null_device_refines:
  assumes "uring_ok U n" and "abi_ok A" and "null_reach U A sz n f0 k q tr"
  shows "\<exists>m. null_run tr (\<lambda>_. None, f0) = Some (m, k_store k) \<and> (ublk_queue_is_done U q \<longrightarrow> m = (\<lambda>_. None))"
proof -
  obtain sl m where r: "null_run tr (\<lambda>_. None, f0) = Some (m, k_store k)" and inv: "null_inv U A n sl m k q"
    using null_reach_inv [OF assms] by blast
  have "m t = None" if "ublk_queue_is_done U q" for t
  proof (rule ccontr)
    assume "m t \<noteq> None"
    moreover have "k_sub k = []"
      using that inv by (simp add: null_inv_def ublk_queue_is_done_def ublk_queue_is_idle_def uring_ready [OF assms(1)])
    ultimately show False using null_inv_answers [OF inv] by simp
  qed
  then show ?thesis using r by blast
qed

theorem null_device_refines_witness:
  "\<exists>k q m. null_reach (slot_uring 1) linux_abi 65536 1 ([] :: nat list) k q [Start 0 demo_read]
     \<and> null_run [Start 0 demo_read] (\<lambda>_. None, []) = Some (m, k_store k) \<and> m 0 = Some demo_read"
proof -
  obtain k q where r: "null_reach (slot_uring 1) linux_abi 65536 1 ([] :: nat list) k q [Start 0 demo_read]"
    by (rule null_demo)
  from null_device_refines [OF uring_ok_slot abi_ok_linux r] show ?thesis using r by auto
qed

text \<open>
  C36. The null target answers at once: in any reachable state, after one round in which the kernel
  takes all entries and delivers no new request, every request that was started has been finished,
  with its full size, and the device is free.
\<close>

theorem null_device_serves:
  assumes "uring_ok U n" and "abi_ok A" and "null_reach U A sz n f0 k q tr"
    and "null_round U A sz acts (k, q) es (k', q')" and "prompt A no_backing acts k"
  shows "null_run (tr @ es) (\<lambda>_. None, f0) = Some (\<lambda>_. None, k_store k')"
proof -
  obtain sl m where r: "null_run tr (\<lambda>_. None, f0) = Some (m, k_store k)" and inv: "null_inv U A n sl m k q"
    using null_reach_inv [OF assms(1-3)] by blast
  obtain sl' m' where "null_run es (m, k_store k) = Some (m', k_store k')" and "m' = (\<lambda>_. None)"
    by (rule null_round_keeps [OF assms(1,2) inv assms(4)]) (use assms(5) in blast)
  then show ?thesis using r by (simp add: null_run_append)
qed

theorem null_device_serves_witness:
  "\<exists>es f. null_run ([Start 0 demo_read] @ es) (\<lambda>_. None, [] :: nat list) = Some (\<lambda>_. None, f)"
proof -
  obtain k q sl m where r: "null_reach (slot_uring 1) linux_abi 65536 1 ([] :: nat list) k q [Start 0 demo_read]"
    and ns: "\<not> queue_stopping q" and inv: "null_inv (slot_uring 1) linux_abi 1 sl m k q"
    by (rule null_demo)
  obtain es k1 where run: "kernel_run linux_abi no_backing (prompt_acts k) k = Some (es, k1)"
    using prompt_acts_prompt [of linux_abi no_backing k] by (auto simp: prompt_def split: option.splits)
  have nf: "\<forall>i r. Fail i r \<notin> set (prompt_acts k)" by (auto simp: prompt_acts_def)
  obtain k2 q2 where "null_round (slot_uring 1) linux_abi 65536 (prompt_acts k) (k, q) es (k2, q2)"
    by (rule null_round_exists [OF uring_ok_slot abi_ok_linux inv ns run nf])
  from null_device_serves [OF uring_ok_slot abi_ok_linux r this prompt_acts_prompt] show ?thesis by blast
qed

end
