(* ===== verification/Syz_Lib.thy ===== *)
theory Syz_Lib
  imports C_Lib
begin

text \<open>
  The parts of \<open>sg/syzkaller1.c\<close> that compute without the system: bit-field stores, the Internet
  checksum, and the replacement of \<open>#\<close> in device names. The C integers are kept at their width.
\<close>

section \<open>Bit fields\<close>

definition BITMASK_LEN :: "nat \<Rightarrow> 'a::len word" where
  "BITMASK_LEN bf_len = ucast (push_bit bf_len 1 - 1 :: u64)"

definition BITMASK_LEN_OFF :: "nat \<Rightarrow> nat \<Rightarrow> 'a::len word" where
  "BITMASK_LEN_OFF bf_off bf_len = push_bit bf_off (BITMASK_LEN bf_len)"

definition STORE_BY_BITMASK :: "'a::len word \<Rightarrow> 'a word \<Rightarrow> nat \<Rightarrow> nat \<Rightarrow> 'a word" where
  "STORE_BY_BITMASK old val bf_off bf_len =
     (if bf_off = 0 \<and> bf_len = 0 then val
      else (old AND NOT (BITMASK_LEN_OFF bf_off bf_len)) OR push_bit bf_off (val AND BITMASK_LEN bf_len))"

lemma bit_BITMASK_LEN: "n < 64 \<Longrightarrow> bit (BITMASK_LEN n :: 'a::len word) i \<longleftrightarrow> i < n \<and> i < LENGTH('a)"
proof -
  assume "n < 64"
  moreover have "(push_bit n 1 - 1 :: u64) = mask n" by (simp add: mask_eq_exp_minus_1 push_bit_of_1)
  ultimately show ?thesis unfolding BITMASK_LEN_def by (auto simp: bit_simps)
qed

text \<open>The field gets the low bits of the value, all other bits keep theirs.\<close>

lemma STORE_BY_BITMASK_bits:
  fixes old val :: "'a::len word"
  assumes "bf_len < 64" and "bf_off \<noteq> 0 \<or> bf_len \<noteq> 0" and "i < LENGTH('a)"
  shows "bit (STORE_BY_BITMASK old val bf_off bf_len) i
    = (if bf_off \<le> i \<and> i < bf_off + bf_len then bit val (i - bf_off) else bit old i)"
proof -
  have "\<not> (bf_off = 0 \<and> bf_len = 0)" using assms(2) by auto
  then show ?thesis
    using assms(1,3) unfolding STORE_BY_BITMASK_def BITMASK_LEN_OFF_def
    by (auto simp: bit_simps bit_BITMASK_LEN)
qed

section \<open>Internet checksum\<close>

text \<open>The 16-bit words of the data, least significant byte first, a last odd byte on its own.\<close>

fun csum_add :: "u32 \<Rightarrow> u8 list \<Rightarrow> u32" where
  "csum_add acc (a # b # ds) = csum_add (acc + (ucast a + push_bit 8 (ucast b))) ds"
| "csum_add acc [a] = acc + ucast a"
| "csum_add acc [] = acc"

lemma fold_decreases: "0xffff < acc \<Longrightarrow> unat ((acc AND 0xffff) + drop_bit 16 acc) = unat acc mod 65536 + unat acc div 65536" for acc :: u32
proof -
  have m: "unat (acc AND 0xffff) = unat acc mod 65536"
  proof -
    have "acc AND 0xffff = take_bit 16 acc" by (simp add: take_bit_eq_mask mask_eq_exp_minus_1)
    then show ?thesis by (simp add: take_bit_eq_mod unat_mod)
  qed
  have d: "unat (drop_bit 16 acc) = unat acc div 65536" by (simp only: unat_drop_bit_eq) (simp add: drop_bit_eq_div)
  have "unat acc < 2 ^ LENGTH(32)" by (rule unsigned_less)
  then have "unat acc mod 65536 + unat acc div 65536 < 2 ^ LENGTH(32)" by simp
  then show ?thesis by (simp add: unat_word_ariths m d)
qed

text \<open>The \<open>while\<close> loop: each round makes the accumulator smaller.\<close>

function csum_fold :: "u32 \<Rightarrow> u32" where
  "csum_fold acc = (if 0xffff < acc then csum_fold ((acc AND 0xffff) + drop_bit 16 acc) else acc)"
  by auto
termination
proof (relation "measure unat")
  fix acc :: u32
  assume big: "0xffff < acc"
  then have "65535 < unat acc" by (simp add: word_less_nat_alt)
  then have "0 < unat acc div 65536" by (simp add: div_greater_zero_iff)
  moreover have "unat acc div 65536 * 65536 + unat acc mod 65536 = unat acc" by (rule div_mult_mod_eq)
  ultimately have "unat acc mod 65536 + unat acc div 65536 < unat acc" by linarith
  then show "((acc AND 0xffff) + drop_bit 16 acc, acc) \<in> measure unat" by (simp add: fold_decreases [OF big])
qed simp

declare csum_fold.simps [simp del]

definition csum_inet_update :: "u32 \<Rightarrow> u8 list \<Rightarrow> u32" where
  "csum_inet_update acc data = (if data = [] then acc else csum_fold (csum_add acc data))"

definition csum_inet_init :: u32 where
  "csum_inet_init = 0"

definition csum_inet_digest :: "u32 \<Rightarrow> u16" where
  "csum_inet_digest acc = ucast (NOT acc)"

subsection \<open>Reference\<close>

text \<open>Ones' complement addition: 0 stays 0, everything else is brought into \<open>1 .. 65535\<close> modulo 65535.\<close>

definition ones :: "nat \<Rightarrow> nat" where
  "ones s = (if s = 0 then 0 else (s - 1) mod 65535 + 1)"

fun word_sum :: "u8 list \<Rightarrow> nat" where
  "word_sum (a # b # ds) = unat a + 256 * unat b + word_sum ds"
| "word_sum [a] = unat a"
| "word_sum [] = 0"

lemma ones_small: "s \<le> 65535 \<Longrightarrow> ones s = s"
  by (auto simp: ones_def)

lemma ones_le: "ones s \<le> 65535"
  by (simp add: ones_def Suc_le_eq)

lemma ones_fold: "ones (s mod 65536 + s div 65536) = ones s"
proof -
  let ?t = "s mod 65536 + s div 65536"
  have s: "s = ?t + 65535 * (s div 65536)" using div_mult_mod_eq [of s 65536] by linarith
  then have zero: "?t = 0 \<longleftrightarrow> s = 0" by auto
  show ?thesis
  proof (cases "s = 0")
    case False
    then have "?t \<noteq> 0" using zero by simp
    then have "s - 1 = (?t - 1) + 65535 * (s div 65536)" using s by linarith
    then have "(s - 1) mod 65535 = (?t - 1) mod 65535" by (metis mod_mult_self2)
    then show ?thesis using False \<open>?t \<noteq> 0\<close> by (simp only: ones_def if_False)
  qed simp
qed

lemma ones_plus: "ones (ones s + t) = ones (s + t)"
proof (cases "s = 0")
  case False
  have "(s - 1) mod 65535 + t + 65535 * ((s - 1) div 65535) = s + t - 1"
    using False mod_mult_div_eq [of "s - 1" 65535] by linarith
  then have "((s - 1) mod 65535 + t) mod 65535 = (s + t - 1) mod 65535" by (metis mod_mult_self2)
  then show ?thesis using False by (simp add: ones_def)
qed (simp add: ones_def)

lemma csum_fold_ones: "unat (csum_fold acc) = ones (unat acc)"
proof (induction acc rule: csum_fold.induct)
  case (1 acc)
  show ?case
  proof (cases "0xffff < acc")
    case True
    then show ?thesis
      using "1.IH" by (subst csum_fold.simps) (simp add: fold_decreases ones_fold)
  next
    case False
    then have "unat acc \<le> 65535" by (simp add: not_less word_le_nat_alt)
    then show ?thesis using False by (subst csum_fold.simps) (simp add: ones_small)
  qed
qed


lemma word_sum_le: "word_sum ds \<le> 65535 * ((length ds + 1) div 2)"
proof (induction ds rule: word_sum.induct)
  case (1 a b ds)
  have "unat a \<le> 255" "unat b \<le> 255" using unsigned_less [of a, where 'a = nat] unsigned_less [of b, where 'a = nat] by simp_all
  then show ?case using 1 by simp
next
  case (2 a)
  have "unat a \<le> 255" using unsigned_less [of a, where 'a = nat] by simp
  then show ?case by simp
qed simp

lemma unat_le16: "unat (ucast a + push_bit 8 (ucast b) :: u32) = unat a + 256 * unat b" for a b :: u8
proof -
  have ab: "unat a \<le> 255" "unat b \<le> 255" using unsigned_less [of a, where 'a = nat] unsigned_less [of b, where 'a = nat] by simp_all
  have "unat (ucast a :: u32) = unat a" "unat (ucast b :: u32) = unat b"
    using ab by (simp_all add: unsigned_ucast_eq take_bit_nat_eq_self)
  then show ?thesis using ab by (simp add: push_bit_eq_mult unat_word_ariths)
qed

lemma csum_add_sum: "unat acc + word_sum ds < 2 ^ 32 \<Longrightarrow> unat (csum_add acc ds) = unat acc + word_sum ds"
proof (induction acc ds rule: csum_add.induct)
  case (1 acc a b ds)
  have step: "unat (acc + (ucast a + push_bit 8 (ucast b))) = unat acc + (unat a + 256 * unat b)"
    using "1.prems" unat_le16 [of a b] by (simp add: unat_word_ariths(1))
  have "unat (csum_add (acc + (ucast a + push_bit 8 (ucast b))) ds) = unat acc + (unat a + 256 * unat b) + word_sum ds"
    unfolding step [symmetric] by (rule "1.IH") (use "1.prems" step in simp)
  then show ?case by (simp only: csum_add.simps word_sum.simps add.assoc)
next
  case (2 acc a)
  have "unat a \<le> 255" using unsigned_less [of a, where 'a = nat] by simp
  then have "unat (ucast a :: u32) = unat a" by (simp add: unsigned_ucast_eq take_bit_nat_eq_self)
  then show ?case using 2 by (simp add: unat_word_ariths)
qed simp

text \<open>The accumulator after an update, for data that cannot overflow 32 bits.\<close>

lemma csum_update_ones:
  assumes "acc \<le> 0xffff" and "length ds \<le> 2 ^ 17"
  shows "unat (csum_inet_update acc ds) = ones (unat acc + word_sum ds)"
proof -
  have acc: "unat acc \<le> 65535" using assms(1) by (simp add: word_le_nat_alt)
  have "word_sum ds \<le> 65535 * ((length ds + 1) div 2)" by (rule word_sum_le)
  also have "\<dots> \<le> 65535 * 65536" using assms(2) by (intro mult_le_mono2) simp
  finally have "unat acc + word_sum ds < 2 ^ 32" using acc by simp
  from csum_add_sum [OF this] show ?thesis
    using acc by (auto simp: csum_inet_update_def csum_fold_ones ones_small)
qed

lemma word_sum_append: "even (length as) \<Longrightarrow> word_sum (as @ bs) = word_sum as + word_sum bs"
  by (induction as rule: word_sum.induct) simp_all

lemma unat_digest:
  assumes "acc \<le> 0xffff"
  shows "unat (csum_inet_digest acc) = 65535 - unat acc"
proof -
  have acc: "unat acc \<le> 65535" using assms by (simp add: word_le_nat_alt)
  have "csum_inet_digest acc = NOT (ucast acc)"
    unfolding csum_inet_digest_def by (rule bit_word_eqI) (simp add: bit_simps)
  then have "csum_inet_digest acc = - 1 - (ucast acc :: u16)" by (simp add: not_eq_complement)
  moreover have "unat (ucast acc :: u16) = unat acc" using acc by (simp add: unsigned_ucast_eq take_bit_nat_eq_self)
  moreover have "(ucast acc :: u16) \<le> - 1" by simp
  moreover have "unat (- 1 :: u16) = 65535" by (simp add: unsigned_minus_1_eq_mask mask_eq_exp_minus_1)
  ultimately show ?thesis by (simp add: unat_sub)
qed

text \<open>A digest as the two bytes the code's little-endian words are made of.\<close>

definition digest_bytes :: "u16 \<Rightarrow> u8 list" where
  "digest_bytes d = [ucast d, ucast (drop_bit 8 d)]"

lemma word_sum_digest: "word_sum (digest_bytes d) = unat d"
proof -
  have "unat d < 65536" using unsigned_less [of d, where 'a = nat] by simp
  moreover have "unat (ucast d :: u8) = unat d mod 256" by (simp add: unsigned_ucast_eq take_bit_eq_mod)
  moreover have "unat (ucast (drop_bit 8 d) :: u8) = unat (drop_bit 8 d) mod 256" by (simp add: unsigned_ucast_eq take_bit_eq_mod)
  moreover have "unat (drop_bit 8 d) = unat d div 256" by (simp only: unat_drop_bit_eq) (simp add: drop_bit_eq_div)
  ultimately have "word_sum (digest_bytes d) = unat d mod 256 + 256 * (unat d div 256)" by (simp add: digest_bytes_def)
  then show ?thesis by simp
qed

lemma csum_inet_laws:
  assumes "even (length as)" and "length (as @ bs) + 2 \<le> 2 ^ 17"
  shows "csum_inet_update (csum_inet_update csum_inet_init as) bs = csum_inet_update csum_inet_init (as @ bs)"
    and "unat (csum_inet_digest (csum_inet_update csum_inet_init (as @ bs))) = 65535 - ones (word_sum (as @ bs))"
    and "even (length bs) \<Longrightarrow> csum_inet_digest (csum_inet_update csum_inet_init
      (as @ bs @ digest_bytes (csum_inet_digest (csum_inet_update csum_inet_init (as @ bs))))) = 0"
proof -
  have zero: "(0 :: u32) \<le> 0xffff" "unat (0 :: u32) = 0" by simp_all
  have le: "csum_inet_update 0 ds \<le> 0xffff" if "length ds \<le> 2 ^ 17" for ds
    using csum_update_ones [OF zero(1) that] ones_le by (simp add: word_le_nat_alt)
  have whole: "unat (csum_inet_update 0 (as @ bs)) = ones (word_sum (as @ bs))"
    using csum_update_ones [OF zero(1), of "as @ bs"] assms(2) by simp
  have la: "length as \<le> 2 ^ 17" and lb: "length bs \<le> 2 ^ 17" and lab: "length (as @ bs) \<le> 2 ^ 17" using assms(2) by simp_all
  have "unat (csum_inet_update (csum_inet_update 0 as) bs) = ones (word_sum as + word_sum bs)"
    using csum_update_ones [OF le [OF la] lb] csum_update_ones [OF zero(1) la] by (simp add: ones_plus)
  then have "unat (csum_inet_update (csum_inet_update 0 as) bs) = unat (csum_inet_update 0 (as @ bs))"
    unfolding whole word_sum_append [OF assms(1)] .
  then show "csum_inet_update (csum_inet_update csum_inet_init as) bs = csum_inet_update csum_inet_init (as @ bs)"
    unfolding csum_inet_init_def by (simp only: word_unat_eq_iff)
  show dig: "unat (csum_inet_digest (csum_inet_update csum_inet_init (as @ bs))) = 65535 - ones (word_sum (as @ bs))"
    unfolding csum_inet_init_def by (simp only: unat_digest [OF le [OF lab]] whole)
  assume "even (length bs)"
  then have ev: "even (length (as @ bs))" using assms(1) by simp
  let ?d = "digest_bytes (csum_inet_digest (csum_inet_update 0 (as @ bs)))"
  have ld: "length (as @ bs @ ?d) \<le> 2 ^ 17" using assms(2) by (simp add: digest_bytes_def)
  have "unat (csum_inet_update 0 (as @ bs @ ?d)) = ones (word_sum ((as @ bs) @ ?d))"
    using csum_update_ones [OF zero(1) ld] by simp
  also have "\<dots> = ones (ones (word_sum (as @ bs)) + (65535 - ones (word_sum (as @ bs))))"
    unfolding word_sum_append [OF ev] word_sum_digest dig [unfolded csum_inet_init_def] by (simp only: ones_plus)
  also have "\<dots> = 65535" using ones_le [of "word_sum (as @ bs)"] by (simp add: ones_small)
  finally have "unat (csum_inet_digest (csum_inet_update 0 (as @ bs @ ?d))) = 0" by (simp only: unat_digest [OF le [OF ld]] diff_self_eq_0)
  then show "csum_inet_digest (csum_inet_update csum_inet_init
      (as @ bs @ digest_bytes (csum_inet_digest (csum_inet_update csum_inet_init (as @ bs))))) = 0"
    unfolding csum_inet_init_def by (simp only: unat_eq_zero)
qed

text \<open>
  C39. The checksum is the Internet checksum: for data of at most 128 KiB, in any number of pieces of
  even length, the accumulator is the ones' complement sum of the 16-bit words, the digest its
  complement, and data followed by its own digest has the digest 0.
\<close>

theorem csum_inet_correct:
  assumes "even (length as)" and "length (as @ bs) + 2 \<le> 2 ^ 17"
  shows "csum_inet_update (csum_inet_update csum_inet_init as) bs = csum_inet_update csum_inet_init (as @ bs)
    \<and> unat (csum_inet_digest (csum_inet_update csum_inet_init (as @ bs))) = 65535 - ones (word_sum (as @ bs))
    \<and> (even (length bs) \<longrightarrow> csum_inet_digest (csum_inet_update csum_inet_init
          (as @ bs @ digest_bytes (csum_inet_digest (csum_inet_update csum_inet_init (as @ bs))))) = 0)"
  using csum_inet_laws [OF assms] by blast

theorem csum_inet_correct_witness:
  "csum_inet_update (csum_inet_update csum_inet_init [1, 2]) [3, 4, 5] = csum_inet_update csum_inet_init [1, 2, 3, 4, 5]
    \<and> unat (csum_inet_digest (csum_inet_update csum_inet_init [1, 2, 3, 4, 5])) = 65535 - 1545"
  using csum_inet_correct [of "[1, 2]" "[3, 4, 5]"] by (simp add: ones_def)

section \<open>Device names\<close>

fun strchr :: "string \<Rightarrow> char \<Rightarrow> nat option" where
  "strchr [] c = None"
| "strchr (x # xs) c = (if x = c then Some 0 else map_option Suc (strchr xs c))"

definition hash_digit :: "u64 \<Rightarrow> char" where
  "hash_digit a1 = char_of (48 + unat (a1 mod 10))"

text \<open>
  Reference: the hashes from left to right become the decimal digits of the number, the last digit
  first, then zeros.
\<close>

fun fill_hashes :: "string \<Rightarrow> nat \<Rightarrow> string" where
  "fill_hashes [] n = []"
| "fill_hashes (c # cs) n =
     (if c = CHR ''#'' then ''0123456789'' ! (n mod 10) # fill_hashes cs (n div 10) else c # fill_hashes cs n)"

lemma decimal_char: "d < 10 \<Longrightarrow> char_of (48 + d) = ''0123456789'' ! d" for d :: nat
proof -
  have all: "\<forall>d \<in> set [0..<10]. char_of (48 + d) = ''0123456789'' ! d" by code_simp
  assume "d < 10"
  then have "d \<in> set [0..<10]" by (simp only: set_upt atLeastLessThan_iff) simp
  then show ?thesis using all by blast
qed

lemma decimal_not_hash: "''0123456789'' ! (n mod 10) \<noteq> CHR ''#''"
proof -
  have all: "\<forall>d \<in> set [0..<10]. ''0123456789'' ! d \<noteq> CHR ''#''" by code_simp
  have "n mod 10 \<in> set [0..<10]" by (simp only: set_upt atLeastLessThan_iff) simp
  then show ?thesis using all by blast
qed

lemma hash_digit_decimal: "hash_digit a = ''0123456789'' ! (unat a mod 10)"
proof -
  have "unat (a mod 10) = unat a mod 10" by (simp add: unat_mod)
  then show ?thesis unfolding hash_digit_def by (simp add: decimal_char)
qed

lemma hash_digit_not_hash: "hash_digit a \<noteq> CHR ''#''"
  unfolding hash_digit_decimal by (rule decimal_not_hash)

lemma strchr_None: "strchr s c = None \<longleftrightarrow> c \<notin> set s"
  by (induction s) auto

lemma fill_hashes_none: "CHR ''#'' \<notin> set s \<Longrightarrow> fill_hashes s a = s"
  by (induction s) auto

lemma fill_hashes_first:
  "strchr s (CHR ''#'') = Some i \<Longrightarrow> i < length s \<and> fill_hashes s (unat a) = fill_hashes (s[i := hash_digit a]) (unat (a div 10))
     \<and> count_list s (CHR ''#'') = Suc (count_list (s[i := hash_digit a]) (CHR ''#''))"
proof (induction s arbitrary: i)
  case (Cons x xs)
  show ?case
  proof (cases "x = CHR ''#''")
    case True
    then show ?thesis
      using Cons.prems hash_digit_not_hash [of a] by (auto simp: hash_digit_decimal [of a] unat_div decimal_not_hash)
  next
    case False
    then obtain j where "strchr xs (CHR ''#'') = Some j" "i = Suc j" using Cons.prems by auto
    then show ?thesis using Cons.IH [of j] False by auto
  qed
qed simp

text \<open>The \<open>while\<close> loop of \<open>syz_open_dev\<close>: each round makes the first hash a digit.\<close>

function hash_while :: "string \<Rightarrow> u64 \<Rightarrow> string" where
  "hash_while buf a1 = (case strchr buf (CHR ''#'') of None \<Rightarrow> buf
     | Some i \<Rightarrow> hash_while (buf[i := hash_digit a1]) (a1 div 10))"
  by auto
termination
proof (relation "measure (\<lambda>(buf, _). count_list buf (CHR ''#''))")
  fix buf a1 i
  assume "strchr buf (CHR ''#'') = Some i"
  from fill_hashes_first [OF this, of a1]
  show "((buf[i := hash_digit a1], a1 div 10), (buf, a1)) \<in> measure (\<lambda>(buf, _). count_list buf (CHR ''#''))" by simp
qed simp

declare hash_while.simps [simp del]

text \<open>The same loop, stopped after \<open>n\<close> rounds.\<close>

fun hash_loop :: "nat \<Rightarrow> string \<Rightarrow> u64 \<Rightarrow> string option" where
  "hash_loop n buf a1 = (case strchr buf (CHR ''#'') of None \<Rightarrow> Some buf
     | Some i \<Rightarrow> (case n of 0 \<Rightarrow> None | Suc m \<Rightarrow> hash_loop m (buf[i := hash_digit a1]) (a1 div 10)))"

declare hash_loop.simps [simp del]

lemma hash_loop_fill: "hash_loop n s a = (if count_list s (CHR ''#'') \<le> n then Some (fill_hashes s (unat a)) else None)"
proof (induction n arbitrary: s a)
  case 0
  show ?case
  proof (cases "strchr s (CHR ''#'')")
    case None
    then have "CHR ''#'' \<notin> set s" by (simp add: strchr_None)
    then show ?thesis using None by (simp add: hash_loop.simps fill_hashes_none count_list_0_iff)
  next
    case (Some i)
    then show ?thesis using fill_hashes_first [OF Some, of a] by (simp add: hash_loop.simps)
  qed
next
  case (Suc n)
  show ?case
  proof (cases "strchr s (CHR ''#'')")
    case None
    then have "CHR ''#'' \<notin> set s" by (simp add: strchr_None)
    then show ?thesis using None by (simp add: hash_loop.simps fill_hashes_none count_list_0_iff)
  next
    case (Some i)
    then show ?thesis using fill_hashes_first [OF Some, of a] Suc.IH by (subst hash_loop.simps) simp
  qed
qed


lemma hash_while_fill: "hash_while s a = fill_hashes s (unat a)"
proof (induction s a rule: hash_while.induct)
  case (1 s a)
  show ?case
  proof (cases "strchr s (CHR ''#'')")
    case None
    then have "CHR ''#'' \<notin> set s" by (simp add: strchr_None)
    then show ?thesis using None by (subst hash_while.simps) (simp add: fill_hashes_none)
  next
    case (Some i)
    then show ?thesis using 1 fill_hashes_first [OF Some, of a] by (subst hash_while.simps) simp
  qed
qed

text \<open>
  C38. The loop that replaces the hashes ends: it is over after exactly as many rounds as there are
  hashes in the name, not earlier, and it leaves the hashes, from left to right, replaced by the decimal
  digits of the number, the last digit first.
\<close>

theorem hash_loop_terminates:
  "hash_loop n s a = (if count_list s (CHR ''#'') \<le> n then Some (hash_while s a) else None) \<and> hash_while s a = fill_hashes s (unat a)
    \<and> CHR ''#'' \<notin> set (hash_while s a)"
proof -
  have "CHR ''#'' \<notin> set (fill_hashes s n)" for n
    using decimal_not_hash by (induction s n rule: fill_hashes.induct) (auto dest: sym simp del: nth_Cons_numeral)
  then show ?thesis by (simp add: hash_loop_fill hash_while_fill)
qed

end
