(* ===== verification/Syz_Run.thy ===== *)
theory Syz_Run
  imports Syz_Lib Sys_Prog
begin

text \<open>
  The test program of \<open>sg/syzkaller1.c\<close>: the address space with its segmentation faults, the pseudo
  system call \<open>syz_open_dev\<close>, the test itself, and the removal of its directory.
\<close>

section \<open>Address space\<close>

type_synonym amem = "int \<Rightarrow> u8 option"

record sz_proc =
  sz_mem :: amem
  skip_segv :: int

text \<open>\<open>segv_handler\<close>: \<open>True\<close> when it jumps back behind the statement, \<open>False\<close> when it ends the process.\<close>

definition segv_handler :: "int \<Rightarrow> int \<Rightarrow> bool" where
  "segv_handler skip a \<longleftrightarrow> skip \<noteq> 0 \<and> (a < 2 ^ 20 \<or> 100 * 2 ^ 20 < a)"

text \<open>A statement returns the memory it leaves and the address it faulted at, if any.\<close>

type_synonym stmt = "amem \<Rightarrow> amem \<times> int option"

definition SIGSEGV :: int where "SIGSEGV = 11"

definition NONFAILING :: "stmt \<Rightarrow> sz_proc \<Rightarrow> stop + sz_proc" where
  "NONFAILING st p =
     (let skip = skip_segv p + 1 in case st (sz_mem p) of
        (m, None) \<Rightarrow> Inr (p\<lparr>sz_mem := m, skip_segv := skip - 1\<rparr>)
      | (m, Some a) \<Rightarrow> if segv_handler skip a then Inr (p\<lparr>sz_mem := m, skip_segv := skip - 1\<rparr>) else Inl (Exit SIGSEGV))"

text \<open>\<open>memcpy\<close> byte by byte, and the store of one value, which happens as a whole or not at all.\<close>

fun copy_to :: "int \<Rightarrow> u8 list \<Rightarrow> stmt" where
  "copy_to a [] m = (m, None)"
| "copy_to a (b # bs) m = (if m a = None then (m, Some a) else copy_to (a + 1) bs (m(a \<mapsto> b)))"

definition store :: "int \<Rightarrow> u8 list \<Rightarrow> stmt" where
  "store a bs m = (case copy_to a bs m of (m', None) \<Rightarrow> (m', None) | (_, Some f) \<Rightarrow> (m, Some f))"

fun le_bytes :: "nat \<Rightarrow> nat \<Rightarrow> u8 list" where
  "le_bytes 0 v = []"
| "le_bytes (Suc n) v = word_of_nat (v mod 256) # le_bytes n (v div 256)"

text \<open>A C string of at most \<open>n\<close> characters, or the address that could not be read.\<close>

fun read_cstr :: "amem \<Rightarrow> int \<Rightarrow> nat \<Rightarrow> int + string" where
  "read_cstr m a 0 = Inr []"
| "read_cstr m a (Suc n) = (case m a of None \<Rightarrow> Inl a
     | Some b \<Rightarrow> if b = 0 then Inr [] else seq (read_cstr m (a + 1) n) (\<lambda>s. Inr (char_of (unat b) # s)))"

section \<open>System\<close>

record 'k sz_os =
  sz_mmap :: "nat \<Rightarrow> nat \<Rightarrow> 'k \<Rightarrow> bool \<times> 'k"
  sz_open :: "string \<Rightarrow> u64 \<Rightarrow> 'k \<Rightarrow> u64 \<times> 'k"
  sz_syscall :: "int \<Rightarrow> u64 list \<Rightarrow> amem \<Rightarrow> 'k \<Rightarrow> u64 \<times> 'k"
  sz_opendir :: "string \<Rightarrow> 'k \<Rightarrow> string list option \<times> 'k"
  sz_lstat :: "string \<Rightarrow> 'k \<Rightarrow> (int \<times> bool) \<times> 'k"
  sz_unlink :: "string \<Rightarrow> 'k \<Rightarrow> (int \<times> int) \<times> 'k"
  sz_rmdir :: "string \<Rightarrow> 'k \<Rightarrow> (int \<times> int) \<times> 'k"
  sz_umount :: "string \<Rightarrow> 'k \<Rightarrow> int \<times> 'k"

text \<open>Calls of the executor whose results are not used: signal handlers, process groups, limits, name spaces.\<close>

datatype handler = Ignored | Handled_By_Segv

datatype control =
    Sigaction int handler
  | Pdeathsig int
  | Setpgrp
  | Setsid
  | Setrlimit int u64
  | Unshare u32

text \<open>The events: of the test, of \<open>remove_dir\<close>, and of the executor (\<open>Syz_Exec\<close>).\<close>

datatype sz_event =
    Sz_Mmap nat nat bool
  | Sz_Open string u64 u64
  | Sz_Syscall int "u64 list" "u8 option list" u64
  | Sz_Opendir string
  | Sz_Lstat string
  | Sz_Unlink string int
  | Sz_Umount string int
  | Sz_Closedir string
  | Sz_Rmdir string int int
  | Sz_Control control
  | Sz_Mkdtemp "string option"
  | Sz_Chmod string int
  | Sz_Chdir string int
  | Sz_Mkdir string int
  | Sz_Fork int
  | Sz_Wait int bool int
  | Sz_Usleep nat
  | Sz_Clock
  | Sz_Kill int int

type_synonym ('k, 'a) sz_prog = "('k, sz_event, 'a) sys_prog"

definition lift_stop :: "stop + 'a \<Rightarrow> ('k, 'a) sz_prog" where
  "lift_stop r = (case r of Inl s \<Rightarrow> halt s | Inr x \<Rightarrow> returns x)"

section \<open>System calls\<close>

text \<open>
  \<open>syz_open_dev\<close>. When the copy of the name faults and the handler skips it, the local buffer was
  not filled, and the search for \<open>#\<close> reads uninitialised memory.
\<close>

definition syz_open_dev :: "'k sz_os \<Rightarrow> sz_proc \<Rightarrow> u64 \<Rightarrow> u64 \<Rightarrow> u64 \<Rightarrow> ('k, u64) sz_prog" where
  "syz_open_dev S p a0 a1 a2 =
     (if a0 = 0xc \<or> a0 = 0xb
      then let buf = ''/dev/'' @ (if a0 = 0xc then ''char'' else ''block'') @ ''/'' @ decimal (unat (ucast a1 :: u8)) @ '':''
                 @ decimal (unat (ucast a2 :: u8))
           in syscall (sz_open S buf 2) (Sz_Open buf 2)
      else (case read_cstr (sz_mem p) (uint a0) 1023 of
          Inl a \<Rightarrow> halt (if segv_handler (skip_segv p + 1) a then Fault Uninitialised else Exit SIGSEGV)
        | Inr s \<Rightarrow> let buf = hash_while s a1 in syscall (sz_open S buf a2) (Sz_Open buf a2)))"

definition NR_syz_open_dev :: int where "NR_syz_open_dev = 1000002"
definition NR_read :: int where "NR_read = 0"
definition NR_write :: int where "NR_write = 1"

text \<open>The event of a real system call shows the memory its second argument points to, third argument many bytes.\<close>

definition pointed :: "amem \<Rightarrow> u64 list \<Rightarrow> u8 option list" where
  "pointed m args = map (\<lambda>i. m (uint (args ! 1) + int i)) [0..<unat (args ! 2)]"

definition execute_syscall :: "'k sz_os \<Rightarrow> sz_proc \<Rightarrow> int \<Rightarrow> u64 list \<Rightarrow> ('k, u64) sz_prog" where
  "execute_syscall S p nr args =
     (if nr = NR_syz_open_dev then syz_open_dev S p (args ! 0) (args ! 1) (args ! 2)
      else syscall (sz_syscall S nr args (sz_mem p)) (Sz_Syscall nr args (pointed (sz_mem p) args)))"

section \<open>The test\<close>

definition stores :: "(int \<times> u8 list) list" where
  "stores = [(0x20001fdc, le_bytes 8 0), (0x20001fe4, le_bytes 8 0), (0x20001fec, le_bytes 2 3), (0x20001fee, le_bytes 2 4),
     (0x20001ff0, le_bytes 4 9), (0x20001ff4, le_bytes 8 0), (0x20001ffc, le_bytes 8 0x2710), (0x20002004, le_bytes 2 7),
     (0x20002006, le_bytes 2 7), (0x20002008, le_bytes 4 8)]"

fun run_stores :: "(int \<times> u8 list) list \<Rightarrow> sz_proc \<Rightarrow> stop + sz_proc" where
  "run_stores [] p = Inr p"
| "run_stores ((a, bs) # rest) p = seq (NONFAILING (store a bs) p) (run_stores rest)"

definition map_fixed :: "sz_proc \<Rightarrow> sz_proc" where
  "map_fixed p = p\<lparr>sz_mem := (\<lambda>a. if 0x20000000 \<le> a \<and> a < 0x20005000 then Some 0 else sz_mem p a)\<rparr>"

definition string_bytes :: "string \<Rightarrow> u8 list" where
  "string_bytes s = map (\<lambda>c. word_of_nat (of_char c)) s"

text \<open>\<open>PROT_READ | PROT_WRITE\<close> and \<open>MAP_FIXED | MAP_ANONYMOUS\<close>.\<close>

definition syz_test :: "'k sz_os \<Rightarrow> string \<Rightarrow> sz_proc \<Rightarrow> ('k, sz_proc) sz_prog" where
  "syz_test S dev_sg p =
     andthen (syscall (sz_mmap S 0x3 0x30) (Sz_Mmap 0x3 0x30)) (\<lambda>ok.
     let p0 = (if ok then map_fixed p else p) in
     andthen (lift_stop (NONFAILING (copy_to 0x20000000 (string_bytes dev_sg)) p0)) (\<lambda>p1.
     andthen (execute_syscall S p1 NR_syz_open_dev [0x20000000, 0, 2]) (\<lambda>r2.
     andthen (lift_stop (run_stores stores p1)) (\<lambda>p2.
     andthen (execute_syscall S p2 NR_write [r2, 0x20001fdc, 0x30]) (\<lambda>r13.
     andthen (execute_syscall S p2 NR_read [r2, 0x20002f36, 0]) (\<lambda>r14. returns p2))))))"

section \<open>Removing a directory\<close>

definition kRetryStatus :: int where "kRetryStatus = 69"

definition exitf :: "('k, 'a) sz_prog" where
  "exitf = halt (Exit kRetryStatus)"

function unlink_loop :: "'k sz_os \<Rightarrow> string \<Rightarrow> nat \<Rightarrow> ('k, unit) sz_prog" where
  "unlink_loop S f i =
     andthen (syscall (sz_unlink S f) (\<lambda>p. Sz_Unlink f (fst p))) (\<lambda>(ret, e).
       if ret = 0 then returns ()
       else if e = EROFS then returns ()
       else if e \<noteq> EBUSY \<or> 100 < i then exitf
       else andthen (syscall (sz_umount S f) (Sz_Umount f)) (\<lambda>ret. if ret \<noteq> 0 then exitf else unlink_loop S f (i + 1)))"
  by auto
termination by (relation "measure (\<lambda>(S, f, i). 102 - i)") auto

declare unlink_loop.simps [simp del]

text \<open>\<open>again\<close> is the way back to \<open>retry\<close>, as long as \<open>iter < 100\<close>.\<close>

function rmdir_loop :: "'k sz_os \<Rightarrow> string \<Rightarrow> ('k, unit) sz_prog option \<Rightarrow> nat \<Rightarrow> ('k, unit) sz_prog" where
  "rmdir_loop S dir again i =
     andthen (syscall (sz_rmdir S dir) (\<lambda>p. Sz_Rmdir dir (fst p) (snd p))) (\<lambda>(ret, e).
       if ret = 0 then returns ()
       else if i < 100 then
         (if e = EROFS then returns ()
          else if e = EBUSY then
            andthen (syscall (sz_umount S dir) (Sz_Umount dir)) (\<lambda>ret. if ret \<noteq> 0 then exitf else rmdir_loop S dir again (i + 1))
          else if e = ENOTEMPTY then (case again of Some m \<Rightarrow> m | None \<Rightarrow> exitf)
          else exitf)
       else exitf)"
  by auto
termination by (relation "measure (\<lambda>(S, dir, again, i). 101 - i)") auto

declare rmdir_loop.simps [simp del]

text \<open>\<open>rm\<close> is the recursive call; a path is cut at \<open>FILENAME_MAX - 1\<close> characters.\<close>

fun remove_entries :: "'k sz_os \<Rightarrow> (string \<Rightarrow> ('k, unit) sz_prog) \<Rightarrow> string \<Rightarrow> string list \<Rightarrow> ('k, unit) sz_prog" where
  "remove_entries S rm dir [] = returns ()"
| "remove_entries S rm dir (d_name # rest) =
     (if d_name = ''.'' \<or> d_name = ''..'' then remove_entries S rm dir rest
      else let filename = take 4095 (dir @ ''/'' @ d_name) in
        andthen (syscall (sz_lstat S filename) (\<lambda>_. Sz_Lstat filename)) (\<lambda>(ret, isdir).
          if ret \<noteq> 0 then exitf
          else andthen (if isdir then rm filename else unlink_loop S filename 0) (\<lambda>_. remove_entries S rm dir rest)))"

definition remove_once :: "'k sz_os \<Rightarrow> (string \<Rightarrow> ('k, unit) sz_prog) \<Rightarrow> string \<Rightarrow> ('k, unit) sz_prog option \<Rightarrow> ('k, unit) sz_prog" where
  "remove_once S rm dir again =
     andthen (syscall (sz_opendir S dir) (\<lambda>_. Sz_Opendir dir)) (\<lambda>dp.
     case dp of None \<Rightarrow> exitf | Some entries \<Rightarrow>
       andthen (remove_entries S rm dir entries) (\<lambda>_.
       andthen (emit (Sz_Closedir dir)) (\<lambda>_. rmdir_loop S dir again 0)))"

text \<open>From the label \<open>retry\<close>; the first argument is \<open>100 - iter\<close>.\<close>

primrec remove_retry :: "nat \<Rightarrow> 'k sz_os \<Rightarrow> (string \<Rightarrow> ('k, unit) sz_prog) \<Rightarrow> string \<Rightarrow> ('k, unit) sz_prog" where
  "remove_retry 0 S rm dir = remove_once S rm dir None"
| "remove_retry (Suc n) S rm dir = remove_once S rm dir (Some (remove_retry n S rm dir))"

text \<open>Each level of the recursion takes a stack frame; the first argument is the number of frames left.\<close>

primrec remove_dir :: "nat \<Rightarrow> 'k sz_os \<Rightarrow> string \<Rightarrow> ('k, unit) sz_prog" where
  "remove_dir 0 S dir = halt (Fault Stack_Overflow)"
| "remove_dir (Suc frames) S dir = remove_retry 100 S (remove_dir frames S) dir"

end
