(* ===== verification/Syz_Props.thy ===== *)
theory Syz_Props
  imports Syz_Run
begin

text \<open>
  The properties of the test program of \<open>sg/syzkaller1.c\<close>: what follows from the mapping it asks for,
  which no Linux grants, and when \<open>remove_dir\<close> returns.
\<close>

section \<open>Skipped faults\<close>

text \<open>The counter of the handler is balanced, whether the statement faults or not.\<close>

lemma NONFAILING_skip: "NONFAILING st p = Inr p' \<Longrightarrow> skip_segv p' = skip_segv p"
  by (auto simp: NONFAILING_def Let_def split: prod.splits option.splits if_splits)

text \<open>A mapping has to be shared or private, otherwise it is refused.\<close>

definition mmap_needs_type :: "'k sz_os \<Rightarrow> bool" where
  "mmap_needs_type S \<longleftrightarrow> (\<forall>prot flags k. flags mod 4 = 0 \<longrightarrow> \<not> fst (sz_mmap S prot flags k))"

text \<open>
  C35. The flags of the mapping name neither \<open>MAP_SHARED\<close> nor \<open>MAP_PRIVATE\<close>. On a system that refuses
  such a mapping the address of the device name is not mapped, the copy out of it is skipped, and
  the program goes on with an uninitialised file name.
\<close>

theorem syz_test_uninitialised:
  assumes "mmap_needs_type S" and "sz_mem p 0x20000000 = None" and "skip_segv p = 0"
  shows "syz_test S dev_sg p w = Inl (Fault Uninitialised)"
proof -
  have "\<not> fst (sz_mmap S 0x3 0x30 (kst w))" using assms(1) by (simp add: mmap_needs_type_def)
  then obtain k where mm: "sz_mmap S 0x3 0x30 (kst w) = (False, k)" by (cases "sz_mmap S 0x3 0x30 (kst w)") simp
  have handled: "segv_handler 1 0x20000000" by (simp add: segv_handler_def)
  have copy: "\<exists>f. copy_to 0x20000000 bs (sz_mem p) = (sz_mem p, f) \<and> (f = None \<or> f = Some 0x20000000)" for bs
    using assms(2) by (cases bs) auto
  have "NONFAILING (copy_to 0x20000000 (string_bytes dev_sg)) p = Inr p"
    using copy [of "string_bytes dev_sg"] handled assms(3) by (auto simp: NONFAILING_def Let_def)
  moreover have "read_cstr (sz_mem p) 0x20000000 1023 = Inl 0x20000000"
  proof -
    have "(1023 :: nat) = Suc 1022" by simp
    then show ?thesis using assms(2) by (simp only: read_cstr.simps option.case)
  qed
  ultimately show ?thesis
    using handled assms(3)
    by (simp add: syz_test_def andthen_def syscall_def mm lift_stop_def returns_run execute_syscall_def syz_open_dev_def halt_run)
qed


definition demo_syz :: "(nat \<Rightarrow> bool) \<Rightarrow> unit sz_os" where
  "demo_syz ok = \<lparr>sz_mmap = (\<lambda>_ flags k. (ok flags, k)), sz_open = (\<lambda>_ _ k. (3, k)), sz_syscall = (\<lambda>_ _ _ k. (0, k)),
     sz_opendir = (\<lambda>_ k. (Some [], k)), sz_lstat = (\<lambda>_ k. ((0, False), k)), sz_unlink = (\<lambda>_ k. ((0, 0), k)),
     sz_rmdir = (\<lambda>_ k. ((0, 0), k)), sz_umount = (\<lambda>_ k. (0, k))\<rparr>"

theorem syz_test_uninitialised_witness:
  "syz_test (demo_syz (\<lambda>flags. flags mod 4 \<noteq> 0)) ''/dev/sg0'' \<lparr>sz_mem = (\<lambda>_. None), skip_segv = 0\<rparr> \<lparr>kst = (), sys_log = []\<rparr>
     = Inl (Fault Uninitialised)"
  by (rule syz_test_uninitialised) (simp_all add: mmap_needs_type_def demo_syz_def)

section \<open>Removing a directory\<close>

text \<open>What holds of the last call when \<open>remove_dir\<close> returns.\<close>

definition removed :: "string \<Rightarrow> sz_event list \<Rightarrow> bool" where
  "removed dir tr \<longleftrightarrow> (\<exists>ret e. tr \<noteq> [] \<and> last tr = Sz_Rmdir dir ret e \<and> (ret = 0 \<or> e = EROFS))"

lemma removed_append: "removed dir tr' \<Longrightarrow> removed dir (tr @ tr')"
  by (auto simp: removed_def)

lemma removed_Cons: "removed dir tr \<Longrightarrow> removed dir (x # tr)"
  by (auto simp: removed_def)

lemma removed_one: "ret = 0 \<or> e = EROFS \<Longrightarrow> removed dir [Sz_Rmdir dir ret e]"
  by (simp add: removed_def)

lemma logs_exitf: "logs exitf P"
  unfolding exitf_def by (rule logs_halt)

lemma logs_rmdir_loop:
  "(\<And>m. again = Some m \<Longrightarrow> logs m (\<lambda>_. removed dir)) \<Longrightarrow> logs (rmdir_loop S dir again i) (\<lambda>_. removed dir)"
proof (induction "100 - i" arbitrary: i)
  case 0
  then show ?case
    by (subst rmdir_loop.simps, intro logs_syscall_then)
      (auto intro!: logs_returns logs_exitf simp: removed_def split: prod.splits)
next
  case (Suc n)
  have again: "logs m (\<lambda>_ tr. removed dir (x # tr))" if "again = Some m" for m x
    by (rule logs_weaken [OF Suc.prems [OF that]]) (rule removed_Cons)
  have IH: "logs (rmdir_loop S dir again (i + 1)) (\<lambda>_ tr. removed dir (x # y # tr))" for x y
    by (rule logs_weaken [OF Suc.hyps(1)]) (use Suc.hyps(2) Suc.prems in \<open>auto intro: removed_Cons\<close>)
  have body: "logs (if ret = 0 then returns () else if i < 100 then
      (if e = EROFS then returns () else if e = EBUSY then
         andthen (syscall (sz_umount S dir) (Sz_Umount dir)) (\<lambda>ret. if ret \<noteq> 0 then exitf else rmdir_loop S dir again (i + 1))
       else if e = ENOTEMPTY then (case again of Some m \<Rightarrow> m | None \<Rightarrow> exitf) else exitf) else exitf)
      (\<lambda>_ tr. removed dir (Sz_Rmdir dir ret e # tr))" for ret e
    by (intro logs_if logs_returns logs_exitf logs_syscall_then IH)
      (auto simp: removed_one logs_exitf again split: option.split)
  show ?case
    by (subst rmdir_loop.simps, rule logs_syscall_then) (auto simp: body split: prod.splits)
qed

text \<open>Only calls on files and directories are made.\<close>

fun fs_event :: "sz_event \<Rightarrow> bool" where
  "fs_event (Sz_Opendir _) \<longleftrightarrow> True"
| "fs_event (Sz_Lstat _) \<longleftrightarrow> True"
| "fs_event (Sz_Unlink _ _) \<longleftrightarrow> True"
| "fs_event (Sz_Umount _ _) \<longleftrightarrow> True"
| "fs_event (Sz_Closedir _) \<longleftrightarrow> True"
| "fs_event (Sz_Rmdir _ _ _) \<longleftrightarrow> True"
| "fs_event _ \<longleftrightarrow> False"

lemma fs_exitf: "logs_all fs_event exitf"
  unfolding exitf_def by (rule logs_all_halt)

lemma fs_unlink: "logs_all fs_event (unlink_loop S f i)"
proof (induction "102 - i" arbitrary: i)
  case 0
  then show ?case by (subst unlink_loop.simps) (intro logs_all_rules fs_exitf, auto)
next
  case (Suc n)
  have "logs_all fs_event (unlink_loop S f (i + 1))" using Suc.hyps(2) by (intro Suc.hyps(1)) simp
  then show ?case by (subst unlink_loop.simps) (intro logs_all_rules fs_exitf fs_event.simps [THEN iffD2] TrueI)
qed

lemma fs_rmdir: "(\<And>m. again = Some m \<Longrightarrow> logs_all fs_event m) \<Longrightarrow> logs_all fs_event (rmdir_loop S dir again i)"
proof (induction "100 - i" arbitrary: i)
  case 0
  then show ?case by (subst rmdir_loop.simps) (intro logs_all_rules fs_exitf, auto)
next
  case (Suc n)
  have "logs_all fs_event (rmdir_loop S dir again (i + 1))" using Suc by (intro Suc.hyps(1)) simp_all
  then show ?case
    using Suc.prems by (subst rmdir_loop.simps) (intro logs_all_rules fs_exitf, auto split: option.split intro: fs_exitf)
qed

lemma fs_entries:
  assumes "\<And>f. logs_all fs_event (rm f)"
  shows "logs_all fs_event (remove_entries S rm dir es)"
proof (induction es)
  case Nil
  show ?case unfolding remove_entries.simps by (rule logs_all_returns)
next
  case (Cons e es)
  then show ?case unfolding remove_entries.simps Let_def by (intro logs_all_rules fs_exitf fs_unlink assms) simp_all
qed

lemma fs_once:
  assumes "\<And>m. again = Some m \<Longrightarrow> logs_all fs_event m" and "\<And>f. logs_all fs_event (rm f)"
  shows "logs_all fs_event (remove_once S rm dir again)"
proof -
  have "logs_all fs_event (case dp of None \<Rightarrow> exitf | Some es \<Rightarrow> andthen (remove_entries S rm dir es)
      (\<lambda>_. andthen (emit (Sz_Closedir dir)) (\<lambda>_. rmdir_loop S dir again 0)))" for dp
    by (cases dp) (auto intro!: logs_all_andthen logs_all_emit fs_entries [OF assms(2)] fs_rmdir [OF assms(1)] fs_exitf)
  then show ?thesis unfolding remove_once_def by (intro logs_all_andthen logs_all_syscall) simp_all
qed

lemma fs_retry: "(\<And>f. logs_all fs_event (rm f)) \<Longrightarrow> logs_all fs_event (remove_retry n S rm dir)"
proof (induction n)
  case 0
  then show ?case unfolding remove_retry.simps by (intro fs_once) simp_all
next
  case (Suc n)
  then show ?case unfolding remove_retry.simps by (intro fs_once) auto
qed

lemma fs_remove_dir: "logs_all fs_event (remove_dir frames S dir)"
proof (induction frames arbitrary: dir)
  case 0
  show ?case unfolding remove_dir.simps by (rule logs_all_halt)
next
  case (Suc n)
  then show ?case unfolding remove_dir.simps by (rule fs_retry)
qed

lemma logs_remove_once:
  assumes "\<And>m. again = Some m \<Longrightarrow> logs m (\<lambda>_. removed dir)" and "\<And>f. logs_all fs_event (rm f)"
  shows "logs (remove_once S rm dir again) (\<lambda>_. removed dir)"
proof -
  have tail: "logs (andthen (remove_entries S rm dir es) (\<lambda>_. andthen (emit (Sz_Closedir dir)) (\<lambda>_. rmdir_loop S dir again 0)))
      (\<lambda>_ tr. removed dir (x # tr))" for es x
    by (rule logs_andthen [OF fs_entries [OF assms(2), unfolded logs_all_def]], rule logs_emit_then,
        rule logs_weaken [OF logs_rmdir_loop [OF assms(1)]]) (auto intro: removed_Cons removed_append)
  show ?thesis
    unfolding remove_once_def by (rule logs_syscall_then) (auto simp: tail logs_exitf split: option.split)
qed

lemma logs_remove_retry: "(\<And>f. logs_all fs_event (rm f)) \<Longrightarrow> logs (remove_retry n S rm dir) (\<lambda>_. removed dir)"
proof (induction n)
  case 0
  then show ?case unfolding remove_retry.simps by (intro logs_remove_once) simp_all
next
  case (Suc n)
  then show ?case unfolding remove_retry.simps by (intro logs_remove_once) auto
qed

lemma logs_remove_dir: "logs (remove_dir frames S dir) (\<lambda>_. removed dir)"
  by (cases frames) (simp_all add: logs_halt logs_remove_retry fs_remove_dir)

text \<open>The ways the removal can stop.\<close>

definition stop_ways :: "stop set" where
  "stop_ways = {Exit kRetryStatus, Fault Stack_Overflow}"

lemma stops_exitf: "stops stop_ways exitf"
  unfolding exitf_def by (rule stops_halt) (simp add: stop_ways_def)

lemma stops_unlink: "stops stop_ways (unlink_loop S f i)"
proof (induction "102 - i" arbitrary: i)
  case 0
  then show ?case by (subst unlink_loop.simps) (intro stops_rules stops_exitf, auto)
next
  case (Suc n)
  have "stops stop_ways (unlink_loop S f (i + 1))" using Suc.hyps(2) by (intro Suc.hyps(1)) simp
  then show ?case by (subst unlink_loop.simps) (intro stops_rules stops_exitf)
qed

lemma stops_rmdir: "(\<And>m. again = Some m \<Longrightarrow> stops stop_ways m) \<Longrightarrow> stops stop_ways (rmdir_loop S dir again i)"
proof (induction "100 - i" arbitrary: i)
  case 0
  then show ?case by (subst rmdir_loop.simps) (intro stops_rules stops_exitf, auto)
next
  case (Suc n)
  have "stops stop_ways (rmdir_loop S dir again (i + 1))" using Suc by (intro Suc.hyps(1)) simp_all
  then show ?case
    using Suc.prems by (subst rmdir_loop.simps) (intro stops_rules stops_exitf, auto split: option.split intro: stops_exitf)
qed

lemma stops_entries:
  assumes "\<And>f. stops stop_ways (rm f)"
  shows "stops stop_ways (remove_entries S rm dir es)"
proof (induction es)
  case Nil
  show ?case unfolding remove_entries.simps by (rule stops_returns)
next
  case (Cons e es)
  then show ?case unfolding remove_entries.simps Let_def by (intro stops_rules stops_exitf stops_unlink assms)
qed

lemma stops_once:
  assumes "\<And>m. again = Some m \<Longrightarrow> stops stop_ways m" and "\<And>f. stops stop_ways (rm f)"
  shows "stops stop_ways (remove_once S rm dir again)"
proof -
  have "stops stop_ways (case dp of None \<Rightarrow> exitf | Some es \<Rightarrow> andthen (remove_entries S rm dir es)
      (\<lambda>_. andthen (emit (Sz_Closedir dir)) (\<lambda>_. rmdir_loop S dir again 0)))" for dp
    by (cases dp) (auto intro!: stops_andthen stops_emit stops_entries [OF assms(2)] stops_rmdir [OF assms(1)] stops_exitf)
  then show ?thesis unfolding remove_once_def by (intro stops_andthen stops_syscall)
qed

lemma stops_retry: "(\<And>f. stops stop_ways (rm f)) \<Longrightarrow> stops stop_ways (remove_retry n S rm dir)"
proof (induction n)
  case 0
  then show ?case unfolding remove_retry.simps by (intro stops_once) simp_all
next
  case (Suc n)
  then show ?case unfolding remove_retry.simps by (intro stops_once) auto
qed

lemma stops_remove_dir: "stops stop_ways (remove_dir frames S dir)"
proof (induction frames arbitrary: dir)
  case 0
  show ?case unfolding remove_dir.simps by (rule stops_halt) (simp add: stop_ways_def)
next
  case (Suc n)
  then show ?case unfolding remove_dir.simps by (rule stops_retry)
qed

text \<open>
  C37. \<open>remove_dir\<close> comes to an end, whatever the file system answers, and returns only if its last
  call was a removal of the directory that succeeded or failed because the file system is read-only;
  in every other case the process ends with the retry status or runs out of stack.
\<close>

theorem remove_dir_result:
  "(\<exists>w' tr. remove_dir frames S dir w = Inr ((), w') \<and> sys_log w' = sys_log w @ tr \<and> removed dir tr)
     \<or> remove_dir frames S dir w \<in> {Inl (Exit kRetryStatus), Inl (Fault Stack_Overflow)}"
proof (cases "remove_dir frames S dir w")
  case (Inl s)
  then have "s \<in> stop_ways" using stops_remove_dir [of frames S dir] unfolding stops_def by blast
  then show ?thesis using Inl by (auto simp: stop_ways_def)
next
  case (Inr r)
  then obtain w' where run: "remove_dir frames S dir w = Inr ((), w')" by (cases r) simp
  from logsD [OF logs_remove_dir run] show ?thesis using run by blast
qed

end
