(* ===== verification/Syz_Exec.thy ===== *)
theory Syz_Exec
  imports Syz_Props
begin

text \<open>
  The executor of \<open>sg/syzkaller1.c\<close>: the set-up of the process and of its sandbox, the loop that runs
  the test in a child with a time limit, and \<open>main\<close>. Proved: every round ends with its child reaped
  and its directory removed before the next begins, signals go to the child of the round only, and
  a child that does not end is killed after five seconds.
\<close>

section \<open>System\<close>

text \<open>
  A call that can fail gives its result and \<open>errno\<close>. \<open>ex_wait\<close> has the flag \<open>WNOHANG\<close> as an argument,
  \<open>ex_clock\<close> gives result, \<open>errno\<close>, seconds and nanoseconds.
\<close>

record 'k ex_os =
  ex_sz :: "'k sz_os"
  ex_control :: "control \<Rightarrow> 'k \<Rightarrow> 'k"
  ex_mkdtemp :: "string \<Rightarrow> 'k \<Rightarrow> (string option \<times> int) \<times> 'k"
  ex_chmod :: "string \<Rightarrow> 'k \<Rightarrow> (int \<times> int) \<times> 'k"
  ex_chdir :: "string \<Rightarrow> 'k \<Rightarrow> (int \<times> int) \<times> 'k"
  ex_mkdir :: "string \<Rightarrow> 'k \<Rightarrow> (int \<times> int) \<times> 'k"
  ex_fork :: "'k \<Rightarrow> (int \<times> int) \<times> 'k"
  ex_wait :: "int \<Rightarrow> bool \<Rightarrow> 'k \<Rightarrow> int \<times> 'k"
  ex_usleep :: "nat \<Rightarrow> 'k \<Rightarrow> 'k"
  ex_clock :: "'k \<Rightarrow> (int \<times> int \<times> u64 \<times> u64) \<times> 'k"
  ex_kill :: "int \<Rightarrow> int \<Rightarrow> 'k \<Rightarrow> 'k"

section \<open>Leaving the process\<close>

definition kFailStatus :: int where "kFailStatus = 67"

definition doexit :: "int \<Rightarrow> ('k, 'a) sz_prog" where
  "doexit status = halt (Exit status)"

text \<open>The argument of \<open>fail\<close> is \<open>errno\<close>; the message goes to the standard error stream.\<close>

definition fail :: "int \<Rightarrow> ('k, 'a) sz_prog" where
  "fail e = doexit (if e = ENOMEM \<or> e = EAGAIN then kRetryStatus else kFailStatus)"

section \<open>Set-up\<close>

definition control :: "'k ex_os \<Rightarrow> control \<Rightarrow> ('k, unit) sz_prog" where
  "control S c = syscall (\<lambda>k. ((), ex_control S c k)) (\<lambda>_. Sz_Control c)"

fun controls :: "'k ex_os \<Rightarrow> control list \<Rightarrow> ('k, unit) sz_prog" where
  "controls S [] = returns ()"
| "controls S (c # cs) = andthen (control S c) (\<lambda>_. controls S cs)"

definition SIGBUS :: int where "SIGBUS = 7"
definition SIGKILL :: int where "SIGKILL = 9"

definition install_segv_handler :: "'k ex_os \<Rightarrow> ('k, unit) sz_prog" where
  "install_segv_handler S = controls S [Sigaction SIGSEGV Handled_By_Segv, Sigaction SIGBUS Handled_By_Segv]"

definition call_path :: "('k \<Rightarrow> (int \<times> int) \<times> 'k) \<Rightarrow> (int \<Rightarrow> sz_event) \<Rightarrow> ('k, unit) sz_prog" where
  "call_path f ev = andthen (syscall f (\<lambda>p. ev (fst p))) (\<lambda>(ret, e). if ret \<noteq> 0 then fail e else returns ())"

definition setup_main_process :: "'k ex_os \<Rightarrow> ('k, unit) sz_prog" where
  "setup_main_process S =
     andthen (controls S [Sigaction 0x20 Ignored, Sigaction 0x21 Ignored]) (\<lambda>_.
     andthen (install_segv_handler S) (\<lambda>_.
     andthen (syscall (ex_mkdtemp S ''./syzkaller.XXXXXX'') (\<lambda>p. Sz_Mkdtemp (fst p))) (\<lambda>(tmpdir, e).
     case tmpdir of None \<Rightarrow> fail e | Some dir \<Rightarrow>
       andthen (call_path (ex_chmod S dir) (Sz_Chmod dir)) (\<lambda>_.
       call_path (ex_chdir S dir) (Sz_Chdir dir)))))"

definition RLIMIT_FSIZE :: int where "RLIMIT_FSIZE = 1"
definition RLIMIT_STACK :: int where "RLIMIT_STACK = 3"
definition RLIMIT_CORE :: int where "RLIMIT_CORE = 4"
definition RLIMIT_AS :: int where "RLIMIT_AS = 9"
definition CLONE_NEWNS :: u32 where "CLONE_NEWNS = 0x00020000"
definition CLONE_NEWIPC :: u32 where "CLONE_NEWIPC = 0x08000000"
definition CLONE_IO :: u32 where "CLONE_IO = 0x80000000"

definition sandbox_common :: "'k ex_os \<Rightarrow> ('k, unit) sz_prog" where
  "sandbox_common S = controls S
     [Pdeathsig SIGKILL, Setpgrp, Setsid,
      Setrlimit RLIMIT_AS (push_bit 20 128), Setrlimit RLIMIT_FSIZE (push_bit 20 1),
      Setrlimit RLIMIT_STACK (push_bit 20 1), Setrlimit RLIMIT_CORE 0,
      Unshare CLONE_NEWNS, Unshare CLONE_NEWIPC, Unshare CLONE_IO]"

section \<open>The executor\<close>

definition current_time_ms :: "'k ex_os \<Rightarrow> ('k, u64) sz_prog" where
  "current_time_ms S =
     andthen (syscall (ex_clock S) (\<lambda>_. Sz_Clock)) (\<lambda>(ret, e, sec, nsec).
       if ret \<noteq> 0 then fail e else returns (sec * 1000 + nsec div 1000000))"

definition waitpid :: "'k ex_os \<Rightarrow> int \<Rightarrow> bool \<Rightarrow> ('k, int) sz_prog" where
  "waitpid S which nohang = syscall (ex_wait S which nohang) (Sz_Wait which nohang)"

text \<open>
  \<open>while (waitpid(which, &status, __WALL) != pid) {}\<close> for at most the given number of rounds, with the
  value \<open>False\<close> when it has to go on.
\<close>

fun wait_until :: "nat \<Rightarrow> 'k ex_os \<Rightarrow> int \<Rightarrow> int \<Rightarrow> ('k, bool) sz_prog" where
  "wait_until 0 S which pid = returns False"
| "wait_until (Suc n) S which pid =
     andthen (waitpid S which False) (\<lambda>res. if res \<noteq> pid then wait_until n S which pid else returns True)"

text \<open>The inner loop of \<open>loop\<close>, with the same convention.\<close>

fun poll_child :: "nat \<Rightarrow> 'k ex_os \<Rightarrow> int \<Rightarrow> u64 \<Rightarrow> ('k, bool) sz_prog" where
  "poll_child 0 S pid start = returns False"
| "poll_child (Suc n) S pid start =
     andthen (waitpid S (- 1) True) (\<lambda>res.
     if res = pid then returns True
     else andthen (syscall (\<lambda>k. ((), ex_usleep S 1000 k)) (\<lambda>_. Sz_Usleep 1000)) (\<lambda>_.
       andthen (current_time_ms S) (\<lambda>now.
       if 5 * 1000 < now - start
       then andthen (syscall (\<lambda>k. ((), ex_kill S (- pid) SIGKILL k)) (\<lambda>_. Sz_Kill (- pid) SIGKILL)) (\<lambda>_.
            andthen (syscall (\<lambda>k. ((), ex_kill S pid SIGKILL k)) (\<lambda>_. Sz_Kill pid SIGKILL)) (\<lambda>_.
            wait_until n S (- 1) pid))
       else poll_child n S pid start)))"

text \<open>What the child of a round does.\<close>

definition run_child :: "'k ex_os \<Rightarrow> string \<Rightarrow> sz_proc \<Rightarrow> string \<Rightarrow> ('k, 'a) sz_prog" where
  "run_child S dev_sg p cwdbuf =
     andthen (controls S [Pdeathsig SIGKILL, Setpgrp]) (\<lambda>_.
     andthen (call_path (ex_chdir S cwdbuf) (Sz_Chdir cwdbuf)) (\<lambda>_.
     andthen (syz_test (ex_sz S) dev_sg p) (\<lambda>_. doexit 0)))"

text \<open>What the parent does with it; \<open>False\<close> when its inner loop is not over.\<close>

definition watch_child :: "nat \<Rightarrow> 'k ex_os \<Rightarrow> nat \<Rightarrow> string \<Rightarrow> int \<Rightarrow> ('k, bool) sz_prog" where
  "watch_child polls S frames cwdbuf pid =
     andthen (current_time_ms S) (\<lambda>start.
     andthen (poll_child polls S pid start) (\<lambda>over.
     if over then andthen (remove_dir frames (ex_sz S) cwdbuf) (\<lambda>_. returns True) else returns False))"

definition loop_round :: "nat \<Rightarrow> 'k ex_os \<Rightarrow> nat \<Rightarrow> string \<Rightarrow> sz_proc \<Rightarrow> nat \<Rightarrow> ('k, bool) sz_prog" where
  "loop_round polls S frames dev_sg p iter =
     (let cwdbuf = ''./'' @ decimal iter in
      andthen (call_path (ex_mkdir S cwdbuf) (Sz_Mkdir cwdbuf)) (\<lambda>_.
      andthen (syscall (ex_fork S) (\<lambda>p. Sz_Fork (fst p))) (\<lambda>(pid, e).
      if pid < 0 then fail e
      else if pid = 0 then run_child S dev_sg p cwdbuf
      else watch_child polls S frames cwdbuf pid)))"

text \<open>
  \<open>loop\<close> for a number of rounds, each with a number of polls. It never returns: the value means
  that it has to go on.
\<close>

fun sz_loop :: "nat \<Rightarrow> nat \<Rightarrow> 'k ex_os \<Rightarrow> nat \<Rightarrow> string \<Rightarrow> sz_proc \<Rightarrow> nat \<Rightarrow> ('k, unit) sz_prog" where
  "sz_loop 0 polls S frames dev_sg p iter = returns ()"
| "sz_loop (Suc n) polls S frames dev_sg p iter =
     andthen (loop_round polls S frames dev_sg p iter) (\<lambda>over.
       if over then sz_loop n polls S frames dev_sg p (iter + 1) else returns ())"

text \<open>The parent gets the process number, also a negative one; the child does not come back.\<close>

definition do_sandbox_none :: "nat \<Rightarrow> nat \<Rightarrow> 'k ex_os \<Rightarrow> nat \<Rightarrow> string \<Rightarrow> sz_proc \<Rightarrow> ('k, int option) sz_prog" where
  "do_sandbox_none n polls S frames dev_sg p =
     andthen (syscall (ex_fork S) (\<lambda>p. Sz_Fork (fst p))) (\<lambda>(pid, e).
     if pid \<noteq> 0 then returns (Some pid)
     else andthen (sandbox_common S) (\<lambda>_. andthen (sz_loop n polls S frames dev_sg p 0) (\<lambda>_. returns None)))"

text \<open>The value is the exit status, \<open>None\<close> while the process has to go on.\<close>

definition syz_main :: "nat \<Rightarrow> nat \<Rightarrow> 'k ex_os \<Rightarrow> nat \<Rightarrow> sz_proc \<Rightarrow> string list \<Rightarrow> ('k, int option) sz_prog" where
  "syz_main n polls S frames p args =
     (let dev_sg = (case args of [a] \<Rightarrow> a | _ \<Rightarrow> ''/dev/sg0'') in
      andthen (setup_main_process S) (\<lambda>_.
      andthen (do_sandbox_none n polls S frames dev_sg p) (\<lambda>r.
      case r of None \<Rightarrow> returns None
      | Some pid \<Rightarrow> andthen (wait_until polls S pid pid) (\<lambda>over. returns (if over then Some 0 else None)))))"

end
