(* ===== verification/Syz_Exec_Props.thy ===== *)
theory Syz_Exec_Props
  imports Syz_Exec
begin

text \<open>
  The properties of the executor: the log of its loop is a sequence of complete rounds, each with its
  own child, and a child that does not end by itself is killed and reaped within 5002 polls.
\<close>

section \<open>The log of a round\<close>

definition polling :: "int \<Rightarrow> sz_event \<Rightarrow> bool" where
  "polling pid e \<longleftrightarrow> (\<exists>res. e = Sz_Wait (- 1) True res \<and> res \<noteq> pid) \<or> e = Sz_Usleep 1000 \<or> e = Sz_Clock"

definition kills :: "int \<Rightarrow> sz_event list" where
  "kills pid = [Sz_Kill (- pid) SIGKILL, Sz_Kill pid SIGKILL]"

definition blocked :: "int \<Rightarrow> sz_event \<Rightarrow> bool" where
  "blocked pid e \<longleftrightarrow> (\<exists>res. e = Sz_Wait (- 1) False res \<and> res \<noteq> pid)"

text \<open>
  Waiting for a child: polls, and when it takes too long the two signals and blocking waits; the last
  call, when it is over, is the wait that returned the child.
\<close>

definition wait_log :: "int \<Rightarrow> bool \<Rightarrow> sz_event list \<Rightarrow> bool" where
  "wait_log pid over tr \<longleftrightarrow> (\<exists>xs ys. (\<forall>e \<in> set xs. polling pid e) \<and> (\<forall>e \<in> set ys. blocked pid e) \<and>
     (if over then tr = xs @ [Sz_Wait (- 1) True pid] \<or> tr = xs @ kills pid @ ys @ [Sz_Wait (- 1) False pid]
      else tr = xs \<or> tr = xs @ kills pid @ ys))"

definition round_dir :: "nat \<Rightarrow> string" where
  "round_dir i = ''./'' @ decimal i"

definition round_log :: "nat \<Rightarrow> bool \<Rightarrow> sz_event list \<Rightarrow> bool" where
  "round_log i over tr \<longleftrightarrow> (\<exists>pid ws rm. 0 < pid
     \<and> tr = Sz_Mkdir (round_dir i) 0 # Sz_Fork pid # Sz_Clock # ws @ rm \<and> wait_log pid over ws
     \<and> (\<forall>e \<in> set rm. fs_event e) \<and> (if over then removed (round_dir i) rm else rm = []))"

text \<open>Complete rounds with consecutive numbers.\<close>

fun rounds_log :: "nat \<Rightarrow> sz_event list list \<Rightarrow> bool" where
  "rounds_log i [] \<longleftrightarrow> True"
| "rounds_log i (tr # trs) \<longleftrightarrow> round_log i True tr \<and> rounds_log (i + 1) trs"

section \<open>Logs of the parts\<close>

lemma wait_log_True: "wait_log pid True [Sz_Wait (- 1) True pid]"
  unfolding wait_log_def by (rule exI [of _ "[]"], rule exI [of _ "[]"]) auto

lemma wait_log_False: "wait_log pid False []"
  unfolding wait_log_def by (rule exI [of _ "[]"], rule exI [of _ "[]"]) auto

lemma wait_log_Cons: "polling pid e \<Longrightarrow> wait_log pid over tr \<Longrightarrow> wait_log pid over (e # tr)"
  unfolding wait_log_def by (elim exE conjE, rule_tac x = "e # xs" in exI, rule_tac x = ys in exI) auto

lemma wait_log_poll:
  "res \<noteq> pid \<Longrightarrow> wait_log pid over tr \<Longrightarrow> wait_log pid over (Sz_Wait (- 1) True res # Sz_Usleep 1000 # Sz_Clock # tr)"
  by (intro wait_log_Cons) (simp_all add: polling_def)

lemma wait_log_kills:
  assumes "\<forall>e \<in> set ys. blocked pid e" and "tr = ys @ (if over then [Sz_Wait (- 1) False pid] else [])"
  shows "wait_log pid over (kills pid @ tr)"
  unfolding wait_log_def by (rule exI [of _ "[]"], rule exI [of _ ys]) (use assms in auto)

lemma logs_wait_until:
  "logs (wait_until n S (- 1) pid)
     (\<lambda>over tr. \<exists>ys. (\<forall>e \<in> set ys. blocked pid e) \<and> tr = ys @ (if over then [Sz_Wait (- 1) False pid] else []))"
proof (induction n)
  case 0
  show ?case unfolding wait_until.simps by (rule logs_returns) simp
next
  case (Suc n)
  have more: "logs (wait_until n S (- 1) pid)
      (\<lambda>over tr. \<exists>ys. (\<forall>e \<in> set ys. blocked pid e) \<and> Sz_Wait (- 1) False res # tr = ys @ (if over then [Sz_Wait (- 1) False pid] else []))"
    if "res \<noteq> pid" for res
    by (rule logs_weaken [OF Suc.IH]) (use that in \<open>auto simp: blocked_def intro: exI [of _ "Sz_Wait (- 1) False res # _"]\<close>)
  show ?case
    unfolding wait_until.simps waitpid_def
    by (rule logs_syscall_then, rule logs_if, erule more, rule logs_returns) (rule exI [of _ "[]"], simp)
qed

lemma logs_current_time: "logs (current_time_ms S) (\<lambda>_ tr. tr = [Sz_Clock])"
  unfolding current_time_ms_def fail_def doexit_def
  by (rule logs_syscall_then) (auto intro: logs_returns logs_halt split: prod.splits)

lemma logs_poll_child: "logs (poll_child n S pid start) (wait_log pid)"
proof (induction n)
  case 0
  show ?case unfolding poll_child.simps by (rule logs_returns) (rule wait_log_False)
next
  case (Suc n)
  have again: "logs (poll_child n S pid start) (\<lambda>over tr. wait_log pid over (Sz_Wait (- 1) True res # Sz_Usleep 1000 # Sz_Clock # tr))"
    if "res \<noteq> pid" for res
    by (rule logs_weaken [OF Suc.IH]) (rule wait_log_poll [OF that])
  have kill: "logs (wait_until n S (- 1) pid) (\<lambda>over tr. wait_log pid over
      (Sz_Wait (- 1) True res # Sz_Usleep 1000 # Sz_Clock # Sz_Kill (- pid) SIGKILL # Sz_Kill pid SIGKILL # tr))"
    if "res \<noteq> pid" for res
    by (rule logs_weaken [OF logs_wait_until], rule wait_log_poll [OF that], elim exE conjE)
      (rule wait_log_kills [unfolded kills_def append.simps])
  show ?case
    unfolding poll_child.simps waitpid_def
    apply (rule logs_syscall_then, rule logs_if)
     apply (rule logs_returns, simp add: wait_log_True)
    apply (rule logs_syscall_then, rule logs_andthen [OF logs_current_time], rule logs_if)
     apply (intro logs_syscall_then)
     apply (simp add: kill)
    apply (simp add: again)
    done
qed

lemma logs_call_path: "logs (call_path f ev) (\<lambda>_ tr. tr = [ev 0])"
  unfolding call_path_def fail_def doexit_def
  by (rule logs_syscall_then) (auto intro: logs_returns logs_halt split: prod.splits)

text \<open>The child never comes back.\<close>

lemma run_child_ends: "run_child S dev_sg p d w \<noteq> Inr r"
  by (auto simp: run_child_def andthen_def doexit_def halt_def split: sum.splits)

lemma logs_never: "(\<And>w r. m w \<noteq> Inr r) \<Longrightarrow> logs m P"
  by (simp add: logs_def)

lemma logs_remove_round: "logs (remove_dir frames S d) (\<lambda>_ tr. (\<forall>e \<in> set tr. fs_event e) \<and> removed d tr)"
  by (rule logs_conj [OF fs_remove_dir [unfolded logs_all_def] logs_remove_dir])

lemma logs_loop_round: "logs (loop_round polls S frames dev_sg p i) (round_log i)"
proof -
  let ?d = "''./'' @ decimal i"
  have done_log: "round_log i True (Sz_Mkdir ?d 0 # Sz_Fork pid # Sz_Clock # ws @ rm)"
    if "0 < pid" "wait_log pid True ws" "\<forall>e \<in> set rm. fs_event e" "removed ?d rm" for pid ws rm
    using that unfolding round_log_def round_dir_def by (intro exI conjI) simp_all
  have open_log: "round_log i False (Sz_Mkdir ?d 0 # Sz_Fork pid # Sz_Clock # ws)"
    if "0 < pid" "wait_log pid False ws" for pid ws
    using that unfolding round_log_def round_dir_def by (intro exI [of _ "[]"] exI conjI) simp_all
  have parent: "logs (watch_child polls S frames ?d pid) (\<lambda>over tr. round_log i over (Sz_Mkdir ?d 0 # Sz_Fork pid # tr))" if "0 < pid" for pid
    unfolding watch_child_def
    by (rule logs_andthen [OF logs_current_time], rule logs_andthen [OF logs_poll_child], rule logs_if,
        rule logs_andthen [OF logs_remove_round], rule logs_returns)
      (use that done_log open_log in \<open>auto intro!: logs_returns\<close>)
  show ?thesis
    unfolding loop_round_def Let_def
    by (rule logs_andthen [OF logs_call_path], rule logs_syscall_then)
      (auto simp: fail_def doexit_def logs_halt logs_never run_child_ends parent [simplified] split: prod.split)
qed

text \<open>The whole loop: complete rounds and at most one that is still going on.\<close>

lemma logs_sz_loop:
  "logs (sz_loop n polls S frames dev_sg p i)
     (\<lambda>_ tr. \<exists>trs rest. tr = concat trs @ rest \<and> rounds_log i trs
        \<and> (if length trs = n then rest = [] else length trs < n \<and> round_log (i + length trs) False rest))"
proof (induction n arbitrary: i)
  case 0
  show ?case unfolding sz_loop.simps by (rule logs_returns) (rule exI [of _ "[]"], simp)
next
  case (Suc n)
  have more: "logs (sz_loop n polls S frames dev_sg p (i + 1))
      (\<lambda>_ tr'. \<exists>trs rest. tr @ tr' = concat trs @ rest \<and> rounds_log i trs
        \<and> (if length trs = Suc n then rest = [] else length trs < Suc n \<and> round_log (i + length trs) False rest))"
    if "round_log i True tr" for tr
  proof (rule logs_weaken [OF Suc.IH], elim exE conjE)
    fix tr' trs rest
    assume "tr' = concat trs @ rest" "rounds_log (i + 1) trs"
      "if length trs = n then rest = [] else length trs < n \<and> round_log (i + 1 + length trs) False rest"
    then show "\<exists>trs rest. tr @ tr' = concat trs @ rest \<and> rounds_log i trs
        \<and> (if length trs = Suc n then rest = [] else length trs < Suc n \<and> round_log (i + length trs) False rest)"
      using that by (intro exI [of _ "tr # trs"] exI [of _ rest]) (auto split: if_splits)
  qed
  show ?case
    unfolding sz_loop.simps
  proof (rule logs_andthen [OF logs_loop_round], rule logs_if)
    fix over tr
    assume "round_log i over tr" "\<not> over"
    then show "logs (returns ()) (\<lambda>_ tr'. \<exists>trs rest. tr @ tr' = concat trs @ rest \<and> rounds_log i trs
        \<and> (if length trs = Suc n then rest = [] else length trs < Suc n \<and> round_log (i + length trs) False rest))"
      by (intro logs_returns exI [of _ "[]"] exI [of _ tr]) simp
  qed (use more in simp)
qed

section \<open>A child does not run for ever\<close>

text \<open>
  What the time limit relies on: \<open>clock_gettime\<close> works and shows a time \<open>ms\<close> that never runs backwards,
  goes on by at least a millisecond in \<open>usleep(1000)\<close>, and does not jump by \<open>2 ^ 60\<close> milliseconds in one
  call; the process \<open>pid\<close> that \<open>fork\<close> gave is the only child, which \<open>child\<close> says of a state, until a wait
  returns it, and once it was sent \<open>SIGKILL\<close> the next blocking wait does.
\<close>

definition later :: "('k \<Rightarrow> nat) \<Rightarrow> nat \<Rightarrow> 'k \<Rightarrow> 'k \<Rightarrow> bool" where
  "later ms d k k' \<longleftrightarrow> ms k + d \<le> ms k' \<and> ms k' < ms k + 2 ^ 60"

definition time_passes :: "'k ex_os \<Rightarrow> ('k \<Rightarrow> nat) \<Rightarrow> bool" where
  "time_passes S ms \<longleftrightarrow>
     (\<forall>k. \<exists>e sec nsec k'. ex_clock S k = ((0, e, sec, nsec), k') \<and> later ms 0 k k'
        \<and> sec * 1000 + nsec div 1000000 = word_of_nat (ms k')) \<and>
     (\<forall>k. later ms 1 k (ex_usleep S 1000 k)) \<and>
     (\<forall>which nohang k. later ms 0 k (snd (ex_wait S which nohang k)))"

definition kill_works :: "'k ex_os \<Rightarrow> ('k \<Rightarrow> int \<Rightarrow> bool) \<Rightarrow> bool" where
  "kill_works S child \<longleftrightarrow>
     (\<forall>k pid e k'. ex_fork S k = ((pid, e), k') \<and> 0 < pid \<longrightarrow> child k' pid) \<and>
     (\<forall>k pid. child k pid \<longrightarrow> child (snd (ex_clock S k)) pid \<and> child (ex_usleep S 1000 k) pid
        \<and> (fst (ex_wait S (- 1) True k) \<noteq> pid \<longrightarrow> child (snd (ex_wait S (- 1) True k)) pid)
        \<and> fst (ex_wait S (- 1) False (ex_kill S pid SIGKILL (ex_kill S (- pid) SIGKILL k))) = pid)"

lemma time_passesD:
  assumes "time_passes S ms"
  obtains (clock) e sec nsec k' where "ex_clock S k = ((0, e, sec, nsec), k')" "later ms 0 k k'"
    "sec * 1000 + nsec div 1000000 = word_of_nat (ms k')"
  using assms unfolding time_passes_def by blast

lemma current_time_run:
  assumes "time_passes S ms"
  obtains k' where "current_time_ms S w = Inr (word_of_nat (ms k'), w\<lparr>kst := k', sys_log := sys_log w @ [Sz_Clock]\<rparr>)"
    and "later ms 0 (kst w) k'" and "k' = snd (ex_clock S (kst w))"
  by (rule time_passesD [OF assms, of "kst w"])
    (auto intro: that simp: current_time_ms_def andthen_def syscall_def returns_def)

lemma wait_until_killed:
  assumes "kill_works S child" and "child k pid" and "0 < n"
    and "kst w = ex_kill S pid SIGKILL (ex_kill S (- pid) SIGKILL k)"
  shows "\<exists>w'. wait_until n S (- 1) pid w = Inr (True, w')"
proof -
  obtain m where n: "n = Suc m" using assms(3) by (cases n) auto
  have "fst (ex_wait S (- 1) False (kst w)) = pid" using assms by (simp add: kill_works_def)
  then show ?thesis
    by (cases "ex_wait S (- 1) False (kst w)") (simp add: n andthen_def waitpid_def syscall_def returns_def)
qed

lemma elapsed:
  assumes "t0 \<le> t" and "t < t0 + 2 ^ 63"
  shows "(5 * 1000 < word_of_nat t - (word_of_nat t0 :: u64)) \<longleftrightarrow> t0 + 5000 < t"
proof -
  have "word_of_nat t - (word_of_nat t0 :: u64) = word_of_nat (t - t0)" using assms(1) by (simp add: of_nat_diff)
  moreover have "unat (word_of_nat (t - t0) :: u64) = t - t0" using assms by (intro unat_of_nat_small) simp
  ultimately have d: "unat (word_of_nat t - (word_of_nat t0 :: u64)) = t - t0" by (simp only:)
  have "unat (5 * 1000 :: u64) = 5000" by simp
  then show ?thesis unfolding word_less_nat_alt d using assms(1) by linarith
qed

lemma poll_child_ends:
  assumes time: "time_passes S ms" and kill: "kill_works S child" and pid: "child (kst w) pid"
    and t: "t0 \<le> ms (kst w)" "ms (kst w) \<le> t0 + 5000" and n: "t0 + 5002 \<le> ms (kst w) + n"
  shows "\<exists>w'. poll_child n S pid (word_of_nat t0) w = Inr (True, w')"
  using pid t n
proof (induction n arbitrary: w)
  case 0
  then show ?case by simp
next
  case (Suc n)
  obtain res k1 where w1: "ex_wait S (- 1) True (kst w) = (res, k1)" by (cases "ex_wait S (- 1) True (kst w)")
  have "later ms 0 (kst w) (snd (ex_wait S (- 1) True (kst w)))" using time unfolding time_passes_def by blast
  then have l1: "ms (kst w) \<le> ms k1" "ms k1 < ms (kst w) + 2 ^ 60" by (simp_all add: w1 later_def)
  define k2 where "k2 = ex_usleep S 1000 k1"
  have "later ms 1 k1 k2" using time unfolding time_passes_def k2_def by blast
  then have l2: "ms k1 + 1 \<le> ms k2" "ms k2 < ms k1 + 2 ^ 60" by (simp_all add: later_def)
  define w2 where "w2 = w\<lparr>kst := k2, sys_log := sys_log w @ [Sz_Wait (- 1) True res] @ [Sz_Usleep 1000]\<rparr>"
  obtain k3 where c: "current_time_ms S w2 = Inr (word_of_nat (ms k3), w2\<lparr>kst := k3, sys_log := sys_log w2 @ [Sz_Clock]\<rparr>)"
    and "later ms 0 (kst w2) k3" and k3: "k3 = snd (ex_clock S k2)"
    by (rule current_time_run [OF time, of w2]) (simp add: w2_def)
  then have l3: "ms k2 \<le> ms k3" "ms k3 < ms k2 + 2 ^ 60" by (simp_all add: later_def w2_def)
  have child: "child k3 pid" if "res \<noteq> pid"
    using kill Suc.prems(1) that unfolding kill_works_def k3 k2_def by (metis fst_conv snd_conv w1)
  have late: "(5 * 1000 < word_of_nat (ms k3) - (word_of_nat t0 :: u64)) \<longleftrightarrow> t0 + 5000 < ms k3"
    using l1 l2 l3 Suc.prems by (intro elapsed) simp_all
  let ?w3 = "w2\<lparr>kst := k3, sys_log := sys_log w2 @ [Sz_Clock]\<rparr>"
  have rest: "poll_child (Suc n) S pid (word_of_nat t0) w =
      (if res = pid then Inr (True, w\<lparr>kst := k1, sys_log := sys_log w @ [Sz_Wait (- 1) True res]\<rparr>)
       else if t0 + 5000 < ms k3
       then wait_until n S (- 1) pid (?w3\<lparr>kst := ex_kill S pid SIGKILL (ex_kill S (- pid) SIGKILL k3),
          sys_log := sys_log ?w3 @ [Sz_Kill (- pid) SIGKILL] @ [Sz_Kill pid SIGKILL]\<rparr>)
       else poll_child n S pid (word_of_nat t0) ?w3)"
    using c late by (simp add: w2_def k2_def w1 andthen_def waitpid_def syscall_def returns_def)
  show ?case
  proof (cases "res = pid")
    case False
    show ?thesis
    proof (cases "t0 + 5000 < ms k3")
      case True
      have "0 < n" using Suc.prems by linarith
      from wait_until_killed [OF kill child [OF False] this] show ?thesis using rest False True by (simp del: poll_child.simps)
    next
      case early: False
      have "\<exists>w'. poll_child n S pid (word_of_nat t0) ?w3 = Inr (True, w')"
        using l1 l2 l3 early Suc.prems child [OF False] by (intro Suc.IH) simp_all
      then show ?thesis using rest False early by (simp del: poll_child.simps)
    qed
  qed (simp add: rest del: poll_child.simps)
qed

lemma watch_child_over:
  assumes "time_passes S ms" and "kill_works S child" and "child (kst w) pid" and "watch_child 5002 S frames d pid w = Inr (over, w')"
  shows over
proof -
  obtain k where c: "current_time_ms S w = Inr (word_of_nat (ms k), w\<lparr>kst := k, sys_log := sys_log w @ [Sz_Clock]\<rparr>)"
    and kc: "k = snd (ex_clock S (kst w))"
    by (rule current_time_run [OF assms(1)])
  have ck: "child k pid" using assms(2,3) unfolding kill_works_def kc by blast
  let ?w = "w\<lparr>kst := k, sys_log := sys_log w @ [Sz_Clock]\<rparr>"
  obtain w2 where "poll_child 5002 S pid (word_of_nat (ms k)) ?w = Inr (True, w2)"
    using poll_child_ends [OF assms(1,2), of ?w pid "ms k" 5002] ck by auto
  then have "andthen (remove_dir frames (ex_sz S) d) (\<lambda>_. returns True) w2 = Inr (over, w')"
    using assms(4) by (simp add: watch_child_def andthen_def c)
  then show over by (rule andthen_InrE) (simp add: returns_def)
qed

lemma loop_round_over:
  assumes "time_passes S ms" and "kill_works S child" and "loop_round 5002 S frames dev_sg p i w = Inr (over, w')"
  shows over
proof -
  let ?d = "''./'' @ decimal i"
  from assms(3) obtain w0 where "andthen (syscall (ex_fork S) (\<lambda>p. Sz_Fork (fst p))) (\<lambda>(pid, e).
      if pid < 0 then fail e else if pid = 0 then run_child S dev_sg p ?d
      else watch_child 5002 S frames ?d pid) w0 = Inr (over, w')"
    unfolding loop_round_def Let_def by (rule andthen_InrE)
  then obtain pid e w1 where f: "syscall (ex_fork S) (\<lambda>p. Sz_Fork (fst p)) w0 = Inr ((pid, e), w1)"
    and pid: "\<not> pid < 0" "pid \<noteq> 0" and run: "watch_child 5002 S frames ?d pid w1 = Inr (over, w')"
    by (rule andthen_InrE) (auto simp: fail_def doexit_def halt_def run_child_ends split: prod.splits if_splits)
  have "ex_fork S (kst w0) = ((pid, e), kst w1)" using f by (auto simp: syscall_def split: prod.splits)
  then have "child (kst w1) pid" using assms(2) pid unfolding kill_works_def by fastforce
  then show over by (rule watch_child_over [OF assms(1,2) _ run])
qed

lemma logs_value: "logs m P \<Longrightarrow> (\<And>w x w'. m w = Inr (x, w') \<Longrightarrow> Q x) \<Longrightarrow> logs m (\<lambda>x tr. P x tr \<and> Q x)"
  unfolding logs_def by blast

lemma logs_sz_loop_complete:
  assumes "time_passes S ms" and "kill_works S child"
  shows "logs (sz_loop n 5002 S frames dev_sg p i) (\<lambda>_ tr. \<exists>trs. tr = concat trs \<and> length trs = n \<and> rounds_log i trs)"
proof (induction n arbitrary: i)
  case 0
  show ?case unfolding sz_loop.simps by (rule logs_returns) simp
next
  case (Suc n)
  have more: "logs (sz_loop n 5002 S frames dev_sg p (i + 1))
      (\<lambda>_ tr'. \<exists>trs. tr @ tr' = concat trs \<and> length trs = Suc n \<and> rounds_log i trs)" if "round_log i True tr" for tr
    by (rule logs_weaken [OF Suc.IH], elim exE, rule_tac x = "tr # trs" in exI) (use that in simp)
  show ?case
    unfolding sz_loop.simps
    by (rule logs_andthen [OF logs_value [OF logs_loop_round loop_round_over [OF assms]]]) (use more in auto)
qed

section \<open>The ways the process can stop\<close>

definition exec_stops :: "stop set" where
  "exec_stops = range Exit \<union> {Fault Uninitialised, Fault Stack_Overflow}"

lemma stops_exit: "stops exec_stops (halt (Exit c))"
  by (rule stops_halt) (simp add: exec_stops_def)

lemma stops_mono: "stops A m \<Longrightarrow> A \<subseteq> B \<Longrightarrow> stops B m"
  unfolding stops_def by blast

lemma stops_removal: "stops exec_stops (remove_dir frames S d)"
  by (rule stops_mono [OF stops_remove_dir]) (auto simp: exec_stops_def stop_ways_def)

lemma stops_call_path: "stops exec_stops (call_path f ev)"
  unfolding call_path_def fail_def doexit_def by (intro stops_rules stops_exit)

lemma stops_controls: "stops exec_stops (controls S cs)"
  by (induction cs) (auto simp: control_def intro!: stops_rules)

lemma stops_open_dev: "stops exec_stops (execute_syscall S p nr args)"
  by (auto simp: execute_syscall_def syz_open_dev_def Let_def exec_stops_def split: sum.split intro!: stops_rules)

lemma run_stores_stops: "run_stores segs p = Inl s \<Longrightarrow> s = Exit SIGSEGV"
proof (induction segs arbitrary: p)
  case (Cons x segs)
  then show ?case by (cases x) (auto simp: NONFAILING_def Let_def seq_def split: prod.splits option.splits if_splits sum.splits)
qed simp

lemma stops_lift: "(\<And>s. r = Inl s \<Longrightarrow> s = Exit SIGSEGV) \<Longrightarrow> stops exec_stops (lift_stop r)"
  by (auto simp: lift_stop_def exec_stops_def split: sum.split intro!: stops_rules)

lemma stops_test: "stops exec_stops (syz_test S dev_sg p)"
proof -
  have "NONFAILING st q = Inl s \<Longrightarrow> s = Exit SIGSEGV" for st q s
    by (auto simp: NONFAILING_def Let_def split: prod.splits option.splits if_splits)
  then show ?thesis
    unfolding syz_test_def Let_def
    by (intro stops_rules stops_open_dev stops_lift) (auto dest: run_stores_stops)
qed

lemma stops_sz_loop: "stops exec_stops (sz_loop n polls S frames dev_sg p i)"
proof -
  have time: "stops exec_stops (current_time_ms S)"
    unfolding current_time_ms_def fail_def doexit_def by (intro stops_rules stops_exit)
  have wait: "stops exec_stops (wait_until m S which pid)" for m which pid
    by (induction m) (auto simp: waitpid_def intro!: stops_rules)
  have poll: "stops exec_stops (poll_child m S pid start)" for m pid start
    by (induction m) (auto simp: waitpid_def intro!: stops_rules time wait)
  have "stops exec_stops (loop_round polls S frames dev_sg p j)" for j
    unfolding loop_round_def watch_child_def run_child_def fail_def doexit_def Let_def
    by (intro stops_rules stops_call_path stops_controls stops_test stops_exit stops_removal time poll)
  then show ?thesis by (induction n arbitrary: i) (auto intro!: stops_rules)
qed

section \<open>The properties\<close>

text \<open>
  C33. The executor works in rounds that do not overlap: as long as its loop goes on, what it has
  called is a sequence of complete rounds with the directories \<open>./0\<close>, \<open>./1\<close>, ... and at most one that is
  not over. In a complete round the directory is made, a child is started, polled, and reaped by the
  wait that ends the waiting, and the directory is removed, by calls on files only; signals are sent
  only between the polls and the blocking waits, to the child and its group, before it is reaped.
\<close>

theorem syz_rounds:
  assumes "sz_loop n polls S frames dev_sg p 0 w = Inr ((), w')"
  shows "\<exists>trs rest. sys_log w' = sys_log w @ concat trs @ rest \<and> rounds_log 0 trs
     \<and> (if length trs = n then rest = [] else length trs < n \<and> round_log (length trs) False rest)"
proof -
  obtain tr where tr: "sys_log w' = sys_log w @ tr"
    and "\<exists>trs rest. tr = concat trs @ rest \<and> rounds_log 0 trs
        \<and> (if length trs = n then rest = [] else length trs < n \<and> round_log (0 + length trs) False rest)"
    by (rule logsD [OF logs_sz_loop assms])
  then show ?thesis unfolding add_0 by (elim exE conjE, intro exI conjI) (simp, assumption+)
qed

text \<open>A system on which time passes in seconds, with children that end when they are asked or when they are killed.\<close>

definition demo_exec :: "bool \<Rightarrow> (nat \<times> int) ex_os" where
  "demo_exec quick = \<lparr>
     ex_sz = \<lparr>sz_mmap = (\<lambda>_ flags k. (False, k)), sz_open = (\<lambda>_ _ k. (3, k)), sz_syscall = (\<lambda>_ _ _ k. (0, k)),
       sz_opendir = (\<lambda>_ k. (Some [], k)), sz_lstat = (\<lambda>_ k. ((0, False), k)), sz_unlink = (\<lambda>_ k. ((0, 0), k)),
       sz_rmdir = (\<lambda>_ k. ((0, 0), k)), sz_umount = (\<lambda>_ k. (0, k))\<rparr>,
     ex_control = (\<lambda>_ k. k), ex_mkdtemp = (\<lambda>d k. ((Some d, 0), k)), ex_chmod = (\<lambda>_ k. ((0, 0), k)),
     ex_chdir = (\<lambda>_ k. ((0, 0), k)), ex_mkdir = (\<lambda>_ k. ((0, 0), k)), ex_fork = (\<lambda>k. ((5, 0), k)),
     ex_wait = (\<lambda>_ nohang k. (if nohang then (if quick then 5 else 0) else snd k, k)),
     ex_usleep = (\<lambda>_ k. (fst k + 1, snd k)), ex_clock = (\<lambda>k. ((0, 0, word_of_nat (fst k), 0), k)),
     ex_kill = (\<lambda>p _ k. (fst k, p))\<rparr>"

definition demo_proc :: sz_proc where
  "demo_proc = \<lparr>sz_mem = (\<lambda>_. None), skip_segv = 0\<rparr>"

lemma demo_exec_ok: "time_passes (demo_exec quick) (\<lambda>k. 1000 * fst k)" "kill_works (demo_exec quick) (\<lambda>k pid. pid = 5)"
  by (auto simp: time_passes_def later_def demo_exec_def kill_works_def)

lemma demo_remove: "\<exists>w'. remove_dir (Suc frames) (ex_sz (demo_exec quick)) d w = Inr ((), w')"
proof -
  have "(100 :: nat) = Suc 99" by simp
  then show ?thesis
    by (simp only: remove_dir.simps remove_retry.simps)
      (simp add: demo_exec_def remove_once_def rmdir_loop.simps andthen_def syscall_def returns_def emit_def)
qed

lemma demo_poll: "\<exists>w'. poll_child (Suc n) (demo_exec True) 5 start w = Inr (True, w')"
  by (simp add: demo_exec_def waitpid_def andthen_def syscall_def returns_def)

lemma demo_watch: "\<exists>w'. watch_child (Suc n) (demo_exec True) (Suc frames) d 5 w = Inr (True, w')"
proof -
  obtain t w1 where c: "current_time_ms (demo_exec True) w = Inr (t, w1)"
    by (simp add: demo_exec_def current_time_ms_def andthen_def syscall_def returns_def)
  obtain w2 where p: "poll_child (Suc n) (demo_exec True) 5 t w1 = Inr (True, w2)" using demo_poll by blast
  obtain w3 where "remove_dir (Suc frames) (ex_sz (demo_exec True)) d w2 = Inr ((), w3)" using demo_remove by blast
  then show ?thesis by (simp add: watch_child_def andthen_def c p returns_def del: poll_child.simps)
qed

lemma demo_exec_round:
  "\<exists>w'. sz_loop (Suc 0) (Suc n) (demo_exec True) (Suc frames) dev_sg p 0 w = Inr ((), w')"
proof -
  define d where "d = ''./'' @ decimal 0"
  obtain w1 where m: "call_path (ex_mkdir (demo_exec True) d) (Sz_Mkdir d) w = Inr ((), w1)"
    by (simp add: demo_exec_def call_path_def andthen_def syscall_def returns_def)
  obtain w2 where f: "syscall (ex_fork (demo_exec True)) (\<lambda>p. Sz_Fork (fst p)) w1 = Inr ((5, 0), w2)"
    by (simp add: demo_exec_def syscall_def)
  obtain w3 where c: "watch_child (Suc n) (demo_exec True) (Suc frames) d 5 w2 = Inr (True, w3)" using demo_watch by blast
  have "loop_round (Suc n) (demo_exec True) (Suc frames) dev_sg p 0 w = Inr (True, w3)"
    unfolding loop_round_def Let_def d_def [symmetric] by (simp add: andthen_def m f c)
  then show ?thesis by (simp add: andthen_def returns_def)
qed

theorem syz_rounds_witness:
  "\<exists>w'. sz_loop 1 5002 (demo_exec True) 8 ''/dev/sg0'' demo_proc 0 \<lparr>kst = (0, 0), sys_log = []\<rparr> = Inr ((), w')
     \<and> (\<exists>trs rest. sys_log w' = concat trs @ rest \<and> rounds_log 0 trs)"
proof -
  obtain w' where run: "sz_loop 1 5002 (demo_exec True) 8 ''/dev/sg0'' demo_proc 0 \<lparr>kst = (0, 0), sys_log = []\<rparr> = Inr ((), w')"
    using demo_exec_round [of 5001 7] unfolding Suc_numeral One_nat_def arith_simps by blast
  from syz_rounds [OF run] show ?thesis using run by auto
qed

text \<open>
  C34. No child holds the executor up: on a system where the clock runs, \<open>usleep\<close> sleeps and \<open>SIGKILL\<close>
  ends a process, 5002 polls are enough for every round, whatever the children do, and all rounds of
  the loop are complete, unless the process ends itself, with a status or in one of two faults.
\<close>

theorem syz_rounds_complete:
  assumes "time_passes S ms" and "kill_works S child"
  shows "case sz_loop n 5002 S frames dev_sg p 0 w of
      Inr (_, w') \<Rightarrow> \<exists>trs. sys_log w' = sys_log w @ concat trs \<and> length trs = n \<and> rounds_log 0 trs
    | Inl (Exit status) \<Rightarrow> True
    | Inl (Fault f) \<Rightarrow> f \<in> {Uninitialised, Stack_Overflow}"
proof (cases "sz_loop n 5002 S frames dev_sg p 0 w")
  case (Inl s)
  then have "s \<in> exec_stops" using stops_sz_loop unfolding stops_def by blast
  then show ?thesis using Inl by (auto simp: exec_stops_def)
next
  case (Inr r)
  then obtain w' where run: "sz_loop n 5002 S frames dev_sg p 0 w = Inr ((), w')" by (cases r) simp
  obtain tr where "sys_log w' = sys_log w @ tr" "\<exists>trs. tr = concat trs \<and> length trs = n \<and> rounds_log 0 trs"
    by (rule logsD [OF logs_sz_loop_complete [OF assms] run])
  then show ?thesis using run by auto
qed

theorem syz_rounds_complete_witness:
  "\<exists>w' trs. sz_loop 1 5002 (demo_exec True) 8 ''/dev/sg0'' demo_proc 0 \<lparr>kst = (0, 0), sys_log = []\<rparr> = Inr ((), w')
     \<and> sys_log w' = concat trs \<and> length trs = 1 \<and> rounds_log 0 trs"
proof -
  obtain w' where run: "sz_loop 1 5002 (demo_exec True) 8 ''/dev/sg0'' demo_proc 0 \<lparr>kst = (0, 0), sys_log = []\<rparr> = Inr ((), w')"
    using demo_exec_round [of 5001 7] unfolding Suc_numeral One_nat_def arith_simps by blast
  show ?thesis
    using syz_rounds_complete [OF demo_exec_ok [of True], where n = 1 and frames = 8 and dev_sg = "''/dev/sg0''" and p = demo_proc
      and w = "\<lparr>kst = (0, 0), sys_log = []\<rparr>"]
    unfolding run by simp
qed

text \<open>
  A failed \<open>fork\<close> is not reported: \<open>do_sandbox_none\<close> hands on its \<open>-1\<close>, \<open>waitpid(-1)\<close> finds no child and
  gives \<open>-1\<close> too, and the program ends with status 0 without having run the test.
\<close>

theorem syz_main_ignores_fork:
  assumes "setup_main_process S w = Inr ((), w1)" and "ex_fork S (kst w1) = ((- 1, e), k)"
    and "fst (ex_wait S (- 1) False k) = - 1" and "0 < polls"
  shows "\<exists>w'. syz_main n polls S frames p args w = Inr (Some 0, w')
    \<and> sys_log w' = sys_log w1 @ [Sz_Fork (- 1), Sz_Wait (- 1) False (- 1)]"
proof -
  obtain m where m: "polls = Suc m" using assms(4) by (cases polls) auto
  show ?thesis
    using assms(1-3)
    by (cases "ex_wait S (- 1) False k")
      (simp add: syz_main_def do_sandbox_none_def Let_def andthen_def syscall_def returns_def waitpid_def m)
qed

end
