(* ===== verification/Spec2Isabelle.thy ===== *)
theory Spec2Isabelle
  imports Ublk_Props Ublk_Thread Ublk_Recover Metadata_Pass Dio_Setup Pcimem Discont_Roundtrip Nvme_Meta Small_Tools Admin_Uring
    Ublk_Storage Ublk_Null_Device Syz_Exec_Props
begin

text \<open>
  \<^bold>\<open>Verification of the C programs of ndt.\<close> The repository runs the blktests suite in a virtual
  machine against an NVMe driver. Its scripts boot the machine, the suite is made of shell scripts,
  and the tests call helper programs written in C and C++ under
  \<open>initramfs/rootfs/opt/blktests/src\<close>. Those programs are the subject of this development.

  \<^bold>\<open>How programs are modelled.\<close> A program is a function of the definitions' parameters for the
  system below it (kernel drivers, the ring library, the file system, the mapped memory): a record of
  the calls it makes, each a function of an arbitrary system state. \<open>Sys_Prog\<close> has the programs
  (\<open>returns\<close>, \<open>andthen\<close>, \<open>syscall\<close>, \<open>emit\<close>, \<open>halt\<close>), which carry the system's state and a log of what was
  called and end with a value, with \<open>exit\<close> or with a fault, and three calculi: \<open>logs\<close> and \<open>logs_all\<close> for
  what a run adds to the log, \<open>safe\<close> for runs without a fault, \<open>stops\<close> for the ways a run can stop. A
  fault (\<open>Ndt_Prelude\<close>) is what C leaves undefined or aborts on: a failed assertion, an access outside
  a buffer, a \<open>NULL\<close> dereference, a division by zero, the use of an uninitialised variable, a shift
  that is too wide, an exhausted stack. Integers are words of their width where wrap-around matters.
  \<open>C_Lib\<close> has the number parsing and printing of the C library, \<open>Byte_Mem\<close> byte memories and chains of
  segments, \<open>C_Struct\<close> the layout of C structures.

  \<^bold>\<open>miniublk.c\<close>, a user-space block device server.
  \<^item> \<open>Ublk_Abi\<close>: constants and descriptors of the driver interface; \<open>Uring\<close>: the ring with its submission
    entries and completions.
  \<^item> \<open>Ublk_Queue\<close>, \<open>Ublk_Target\<close>, \<open>Ublk_Event\<close>: the record of a queue, fetch and commit commands
    (\<open>ublk_queue_io_cmd\<close>, \<open>ublk_complete_io\<close>), the null and loop targets, and the event loop
    (\<open>ublk_handle_cqe\<close>, \<open>ublk_process_io\<close>). The targets are one interface, a locale, with an
    interpretation for each. \<open>Ublk_Loop\<close> and \<open>Ublk_Props\<close>: reachable states of a queue thread as an
    inductive relation; every tag is owned by exactly one side, the counters are right, no round
    faults, completions refine the abstract owner machine, a queue that is stopped ends its loop and one
    whose commands all fail otherwise waits in it for ever (\<open>events_ok\<close>: every event is one that is
    possible when it arrives).
  \<^item> \<open>Ublk_Device\<close>, \<open>Ublk_Device_Sim\<close>, \<open>Ublk_Device_Props\<close>: the queue thread composed with the driver, the kernel
    and a backing file. The kernel takes entries, performs them on the file, delivers requests and aborts
    commands in any order; the abstract device has a slot per tag (free, pending, answered). Every run of
    the composition is a run of the device, and two rounds in which the kernel does its part answer
    every request. \<open>Ublk_Null_Device\<close>: the same composition for the null target refines a device that
    finishes each request with its size, in the round after it was delivered. \<open>Ublk_Server\<close>: all queue threads of a device, from \<open>ublk_queue_init\<close> to \<open>ublk_queue_deinit\<close>,
    interleaved with the kernel in every order over one backing file: together they are one block
    device, no round faults, what a thread acquires it releases, and no ring overflows. \<open>Ublk_Storage\<close>:
    what is written through one queue is read back through another.
  \<^item> \<open>Ublk_Resources\<close>, \<open>Ublk_Thread\<close>: \<open>ublk_queue_init\<close>, \<open>ublk_queue_deinit\<close>, \<open>ublk_io_handler_fn\<close>: all or
    nothing, everything released; descriptor buffers of different queues are disjoint.
  \<^item> \<open>Ublk_Sys\<close>, \<open>Ublk_Ctrl\<close>, \<open>Ublk_Daemon\<close>, \<open>Ublk_Cli\<close>: control commands, start of the daemon, the sub-commands
    add, recover, del, list. \<open>Ublk_Ctl_Logs\<close>, \<open>Ublk_Ctl_Props\<close>, \<open>Ublk_Ctl_Props2\<close>, \<open>Ublk_Recover\<close>: the steps of
    a sub-command (\<open>steps\<close>: commands with their results, threads, polls) follow a protocol, given as an
    inductive predicate for each; what is undone after a failure; the limits a device is created with.

  \<^bold>\<open>metadata.c\<close>, integrity metadata through \<open>io_uring\<close>: \<open>Metadata\<close> (the patterns and their checks),
  \<open>Metadata_Props\<close> (the check accepts exactly what the writer writes), \<open>Metadata_Main\<close> and \<open>Metadata_Pass\<close>
  (the 512 rounds; status 0 means every round wrote its pattern and read it back into cleared buffers,
  and a faithful device passes).

  \<^bold>\<open>dio-offsets.c\<close>, direct I/O at odd offsets: \<open>Dio_Offsets\<close> (argument checks, buffers, the thirteen
  tests), \<open>Dio_Bounds\<close> and \<open>Dio_Safe\<close> (the layouts as natural numbers, nothing leaves the buffers),
  \<open>Dio_Device\<close> (a device that behaves like memory passes), \<open>Dio_Props\<close> (two tests that do not test what
  they mean to), \<open>Dio_Setup\<close> (what the argument checks and the set-up establish).

  \<^bold>\<open>pcimem.c\<close>, a dump of a PCI resource: \<open>Pcimem\<close> (accesses stay in the mapping; the dump with its
  suppressed repetitions can be read back).

  \<^bold>\<open>discontiguous-io.cpp\<close>, SG I/O through scatter lists: \<open>Discont_Io\<close> (the program), \<open>Discont_Iov\<close>
  (lengths, truncation, storing and gathering), \<open>Discont_Props\<close> (commands are what the options and
  the input ask for),
  \<open>Discont_Roundtrip\<close> (what one run writes another prints, with either layout; the effect of a short
  input).

  \<^bold>\<open>nvme-passthrough-meta.c\<close>: \<open>Nvme_Meta\<close> (the commands of a successful run and their lengths).
  \<^bold>\<open>nvme-passthru-admin-uring.c\<close>: \<open>Admin_Uring\<close> (resources are released in the opposite order).

  \<^bold>\<open>sg/syzkaller1.c\<close>: \<open>Syz_Lib\<close> (the Internet checksum against its reference, bit-field stores, the
  replacement of hashes in device names), \<open>Syz_Run\<close> (the address space with skipped faults, the test,
  \<open>remove_dir\<close>), \<open>Syz_Props\<close> (what the test does without its mapping; \<open>remove_dir\<close> ends and
  returns only when the directory is gone or read-only), \<open>Syz_Exec\<close> (\<open>setup_main_process\<close>,
  \<open>sandbox_common\<close>, \<open>do_sandbox_none\<close>, the executor's \<open>loop\<close> and \<open>main\<close>), \<open>Syz_Exec_Props\<close> (the rounds of the
  executor do not overlap, signals go to the child of the round, and every round ends).

  \<^bold>\<open>The small tools\<close> \<open>zbdioctl.c\<close>, \<open>loblksize.c\<close>, \<open>nbdsetsize.c\<close>, \<open>openclose.c\<close>, \<open>loop_get_status_null.c\<close>,
  \<open>ioctl-lbmd-query.c\<close>, \<open>sg/dxfer-from-dev.c\<close>, \<open>loop_change_fd.c\<close> and \<open>mount_clear_sock.c\<close>: \<open>Small_Tools\<close>.
  \<open>one_fd\<close> is the discipline that a tool holds one descriptor at a time and closes it; seven tools keep it on
  every path, \<open>loop_change_fd\<close> does not.

  \<^bold>\<open>Bounds and fuel.\<close> Loops with a bound in the code recurse on it. The \<open>while\<close> loops of the checksum and
  of the device names have termination proofs; \<open>hash_loop\<close> also counts their rounds. \<open>io_loop\<close> of a
  queue thread takes the list of what happens in its rounds, since the server may run for ever; the
  theorems about its end say in which round it is over. \<open>remove_dir\<close> takes the number of stack frames, which the
  process' stack limit bounds. \<open>sz_loop\<close> takes the number of rounds and \<open>poll_child\<close> and \<open>wait_until\<close> that of their polls;
  where the clock advances by at least a millisecond in each \<open>usleep(1000)\<close> and a killed child is reaped,
  5002 polls are enough (\<open>syz_rounds_complete\<close>). In \<open>Ublk_Device\<close> a round lists the kernel's actions. The bounds in hypotheses (\<open>roomy\<close>, \<open>fits\<close>, \<open>sg_fits\<close>, at most 128 KiB for a
  checksum) are those below which the C arithmetic does not overflow; where they are tight a lemma
  or a finding shows what happens beyond.

  \<^bold>\<open>Not modelled.\<close> Messages on the standard error stream and debug output. The shell scripts (\<open>ndt.sh\<close>,
  the build scripts, blktests' \<open>check\<close>, \<open>common\<close> and \<open>tests\<close>), the Python helper, make files, udev
  rules, kernel configurations and the binaries of the root file system: they start programs and
  hold no logic of their own in C.
  \<open>getopt\<close> and \<open>getopt_long\<close> are represented by the options they deliver; that memory can be allocated
  is assumed where the sources do not check it, except where a definition says otherwise.
\<close>

end
